(* ===== verification/Prelude.thy ===== *)
theory Prelude
  imports Main "HOL-Library.Word" "HOL-Library.AList"
begin

text \<open>
  What every theory of this development shares: the named collections of hints, Go's
  strings (byte strings, modelled as \<open>string\<close>), integers and instants, and generic lemmas
  on lists, maps and association lists.

  Go strings are byte sequences, so a \<open>char\<close> is a byte and a rune beyond ASCII is several
  of them. \<open>trim_space\<close> removes every white-space rune of \<^verbatim>\<open>unicode.IsSpace\<close> in its UTF-8
  encoding. \<open>to_lower\<close> maps the ASCII letters and the two other runes whose lower case is an
  ASCII letter (the Kelvin sign and the dotted capital I); other runes are kept, so a
  comparison of its result with an ASCII word decides as Go's does.
\<close>

named_theorems classify_simps \<open>classification of error values\<close>
named_theorems world_simps \<open>unfolding of the state-passing operations\<close>

subsection \<open>Integers, durations and instants\<close>

text \<open>
  A \<^verbatim>\<open>time.Duration\<close> is a signed 64-bit count of nanoseconds and a \<^verbatim>\<open>time.Time\<close> an instant;
  both are \<open>int\<close> here, an instant counting nanoseconds from the zero time. Arithmetic that
  can leave 64 bits goes through \<open>wrap64\<close> (Go's wrap-around) or \<open>time_sub\<close>, which saturates
  as \<^verbatim>\<open>Time.Sub\<close> does.
\<close>

type_synonym gtime = int
type_synonym duration = int
type_synonym u64 = "64 word"

definition min_int64 :: int where
  "min_int64 = - (2 ^ 63)"

definition max_int64 :: int where
  "max_int64 = 2 ^ 63 - 1"

definition wrap64 :: "int \<Rightarrow> int" where
  "wrap64 x = (x + 2 ^ 63) mod 2 ^ 64 - 2 ^ 63"

definition is_zero_time :: "gtime \<Rightarrow> bool" where
  "is_zero_time t \<longleftrightarrow> t = 0"

definition time_sub :: "gtime \<Rightarrow> gtime \<Rightarrow> duration" where
  "time_sub a b = max min_int64 (min max_int64 (a - b))"

abbreviation seconds :: "int \<Rightarrow> duration" where
  "seconds n \<equiv> n * 1000000000"

lemma wrap64_id: "min_int64 \<le> x \<Longrightarrow> x \<le> max_int64 \<Longrightarrow> wrap64 x = x"
  by (simp add: wrap64_def min_int64_def max_int64_def)

lemma wrap64_range: "min_int64 \<le> wrap64 x \<and> wrap64 x \<le> max_int64"
  using pos_mod_bound [of "2 ^ 64" "x + 2 ^ 63"] pos_mod_sign [of "2 ^ 64" "x + 2 ^ 63"]
  by (simp add: wrap64_def min_int64_def max_int64_def)

lemma time_sub_range: "min_int64 \<le> time_sub a b \<and> time_sub a b \<le> max_int64"
  by (simp add: time_sub_def min_int64_def max_int64_def)

lemma time_sub_gt_iff:
  "min_int64 \<le> d \<Longrightarrow> d < max_int64 \<Longrightarrow> d < time_sub a b \<longleftrightarrow> d < a - b"
  by (auto simp: time_sub_def)

lemma time_sub_ge_iff:
  "min_int64 < d \<Longrightarrow> d \<le> max_int64 \<Longrightarrow> d \<le> time_sub a b \<longleftrightarrow> d \<le> a - b"
  by (auto simp: time_sub_def)

subsection \<open>Byte strings\<close>

definition byte :: "char \<Rightarrow> nat" where
  "byte c = of_char c"

text \<open>
  The number of bytes the white-space rune at the head of a string takes: 0 when there is
  none.
\<close>

fun space_width :: "nat list \<Rightarrow> nat" where
  "space_width (a # rest) =
     (if a \<in> {9, 10, 11, 12, 13, 32} then 1
      else case rest of
        b # rest' \<Rightarrow>
          (if a = 194 \<and> b \<in> {133, 160} then 2
           else case rest' of
             c # _ \<Rightarrow>
               (if (a = 225 \<and> b = 154 \<and> c = 128) \<or>
                   (a = 226 \<and> b = 128 \<and> (128 \<le> c \<and> c \<le> 138 \<or> c = 168 \<or> c = 169 \<or> c = 175)) \<or>
                   (a = 226 \<and> b = 129 \<and> c = 159) \<or>
                   (a = 227 \<and> b = 128 \<and> c = 128)
                then 3 else 0)
           | [] \<Rightarrow> 0)
      | [] \<Rightarrow> 0)"
| "space_width [] = 0"

text \<open>The same for the rune at the end, given the bytes in reverse order.\<close>

fun space_width_rev :: "nat list \<Rightarrow> nat" where
  "space_width_rev (c # rest) =
     (if c \<in> {9, 10, 11, 12, 13, 32} then 1
      else case rest of
        b # rest' \<Rightarrow>
          (if space_width [b, c] = 2 then 2
           else case rest' of
             a # _ \<Rightarrow> (if space_width [a, b, c] = 3 then 3 else 0)
           | [] \<Rightarrow> 0)
      | [] \<Rightarrow> 0)"
| "space_width_rev [] = 0"

function trim_by :: "(nat list \<Rightarrow> nat) \<Rightarrow> string \<Rightarrow> string" where
  "trim_by w s =
     (let n = w (map byte s) in if n = 0 \<or> s = [] then s else trim_by w (drop n s))"
  by pat_completeness auto
termination
  by (relation "measure (length \<circ> snd)") auto

declare trim_by.simps [simp del]

definition trim_space :: "string \<Rightarrow> string" where
  "trim_space s = rev (trim_by space_width_rev (rev (trim_by space_width s)))"

definition blank :: "string \<Rightarrow> bool" where
  "blank s \<longleftrightarrow> trim_space s = []"

definition lower_byte :: "char \<Rightarrow> char" where
  "lower_byte c = (if 65 \<le> byte c \<and> byte c \<le> 90 then char_of (byte c + 32) else c)"

fun to_lower :: "string \<Rightarrow> string" where
  "to_lower [] = []"
| "to_lower (a # rest) =
     (case rest of
        b # rest' \<Rightarrow>
          (if byte a = 196 \<and> byte b = 176 then CHR ''i'' # to_lower rest'
           else case rest' of
             c # rest'' \<Rightarrow>
               (if byte a = 226 \<and> byte b = 132 \<and> byte c = 170 then CHR ''k'' # to_lower rest''
                else lower_byte a # to_lower rest)
           | [] \<Rightarrow> lower_byte a # to_lower rest)
      | [] \<Rightarrow> [lower_byte a])"

fun has_prefix :: "string \<Rightarrow> string \<Rightarrow> bool" where
  "has_prefix s [] = True"
| "has_prefix [] (p # ps) = False"
| "has_prefix (c # cs) (p # ps) = (c = p \<and> has_prefix cs ps)"

definition trim_prefix :: "string \<Rightarrow> string \<Rightarrow> string" where
  "trim_prefix s p = (if has_prefix s p then drop (length p) s else s)"

definition has_suffix :: "string \<Rightarrow> string \<Rightarrow> bool" where
  "has_suffix s p \<longleftrightarrow> has_prefix (rev s) (rev p)"

definition trim_suffix :: "string \<Rightarrow> string \<Rightarrow> string" where
  "trim_suffix s p = (if has_suffix s p then take (length s - length p) s else s)"

fun contains_sub :: "string \<Rightarrow> string \<Rightarrow> bool" where
  "contains_sub [] p = (p = [])"
| "contains_sub (c # cs) p = (has_prefix (c # cs) p \<or> contains_sub cs p)"

text \<open>\<^verbatim>\<open>strings.Split\<close> with a separator of one byte.\<close>

fun split_on :: "char \<Rightarrow> string \<Rightarrow> string list" where
  "split_on d [] = [[]]"
| "split_on d (c # cs) =
     (if c = d then [] # split_on d cs
      else case split_on d cs of [] \<Rightarrow> [[c]] | w # ws \<Rightarrow> (c # w) # ws)"

fun join_with :: "string \<Rightarrow> string list \<Rightarrow> string" where
  "join_with d [] = []"
| "join_with d [w] = w"
| "join_with d (w # ws) = w @ d @ join_with d ws"

text \<open>The strings before and after the first occurrence of a byte (\<^verbatim>\<open>strings.IndexByte\<close>).\<close>

fun cut_byte :: "char \<Rightarrow> string \<Rightarrow> (string \<times> string) option" where
  "cut_byte d [] = None"
| "cut_byte d (c # cs) =
     (if c = d then Some ([], cs)
      else map_option (\<lambda>(a, b). (c # a, b)) (cut_byte d cs))"

lemma has_prefix_append: "has_prefix s p \<longleftrightarrow> (\<exists>r. s = p @ r)"
  by (induction s p rule: has_prefix.induct) auto

lemma has_suffix_append: "has_suffix s p \<longleftrightarrow> (\<exists>r. s = r @ p)"
  by (metis has_prefix_append has_suffix_def rev_append rev_rev_ident)

lemma byte_less: "byte c < 256"
  by (simp add: byte_def)

lemma trim_by_unchanged: "w (map byte s) = 0 \<or> s = [] \<Longrightarrow> trim_by w s = s"
  by (subst trim_by.simps) (simp add: Let_def)

lemma trim_by_step:
  "w (map byte s) \<noteq> 0 \<Longrightarrow> s \<noteq> [] \<Longrightarrow> trim_by w s = trim_by w (drop (w (map byte s)) s)"
  by (subst trim_by.simps) (simp add: Let_def)

lemma trim_by_suffix: "\<exists>p. s = p @ trim_by w s"
proof (induction w s rule: trim_by.induct)
  case (1 w s)
  show ?case
  proof (cases "w (map byte s) = 0 \<or> s = []")
    case True
    then show ?thesis by (simp add: trim_by_unchanged)
  next
    case False
    with 1 obtain p where "drop (w (map byte s)) s = p @ trim_by w (drop (w (map byte s)) s)"
      by auto
    with False show ?thesis
      by (metis append.assoc append_take_drop_id trim_by_step)
  qed
qed

lemma trim_by_fixpoint: "w (map byte (trim_by w s)) = 0 \<or> trim_by w s = []"
proof (induction w s rule: trim_by.induct)
  case (1 w s)
  then show ?case
    by (cases "w (map byte s) = 0 \<or> s = []") (auto simp: trim_by_unchanged trim_by_step)
qed

lemma space_width_mono: "space_width (xs @ ys) = 0 \<Longrightarrow> space_width xs = 0"
proof (cases xs)
  case Nil
  then show ?thesis by simp
next
  case (Cons a xs')
  assume zero: "space_width (xs @ ys) = 0"
  show ?thesis
  proof (cases xs')
    case Nil
    with Cons zero show ?thesis by (simp split: if_splits)
  next
    case c: (Cons b xs'')
    with Cons zero show ?thesis by (cases xs'') (simp_all split: if_splits)
  qed
qed

lemma space_width_ascii: "33 \<le> a \<Longrightarrow> a < 128 \<Longrightarrow> space_width (a # r) = 0"
  by (cases r; cases "tl r") auto

lemma space_width_2: "space_width [b, c] = 2 \<Longrightarrow> 128 \<le> c"
  by (auto split: if_splits)

lemma space_width_3: "space_width [a, b, c] = 3 \<Longrightarrow> 128 \<le> c"
  by (auto split: if_splits)

lemma space_width_rev_ascii:
  assumes "33 \<le> c" and "c < 128"
  shows "space_width_rev (c # r) = 0"
proof -
  have "c \<notin> {9, 10, 11, 12, 13, 32}" using assms by auto
  moreover have "space_width [b, c] \<noteq> 2" for b
    using space_width_2 [of b c] assms by linarith
  moreover have "space_width [a, b, c] \<noteq> 3" for a b
    using space_width_3 [of a b c] assms by linarith
  ultimately show ?thesis
    by (simp del: space_width.simps split: list.split)
qed

lemma trim_space_prefix:
  "\<exists>p. trim_by space_width s = trim_space s @ p"
proof -
  obtain q where "rev (trim_by space_width s) = q @ trim_by space_width_rev (rev (trim_by space_width s))"
    using trim_by_suffix [of "rev (trim_by space_width s)" space_width_rev] by blast
  then have "trim_by space_width s = trim_space s @ rev q"
    unfolding trim_space_def by (metis rev_append rev_rev_ident)
  then show ?thesis by blast
qed

lemma trim_space_idem [simp]: "trim_space (trim_space s) = trim_space s"
proof -
  obtain p where p: "trim_by space_width s = trim_space s @ p"
    using trim_space_prefix by blast
  have "space_width (map byte (trim_space s)) = 0"
    using trim_by_fixpoint [of space_width s] p space_width_mono [of "map byte (trim_space s)" "map byte p"]
    by auto
  then have l: "trim_by space_width (trim_space s) = trim_space s"
    by (simp add: trim_by_unchanged)
  have "trim_by space_width_rev (rev (trim_space s)) = rev (trim_space s)"
  proof -
    have r: "rev (trim_space s) = trim_by space_width_rev (rev (trim_by space_width s))"
      by (simp add: trim_space_def)
    show ?thesis
      using trim_by_fixpoint [of space_width_rev "rev (trim_by space_width s)"]
      unfolding r [symmetric]
      by (auto simp: trim_by_unchanged)
  qed
  with l show ?thesis by (simp add: trim_space_def)
qed

lemma trim_space_Nil [simp]: "trim_space [] = []"
  by (simp add: trim_space_def trim_by.simps)

text \<open>A string of printable ASCII bytes is its own trimming.\<close>

lemma trim_space_printable: "(\<And>c. c \<in> set s \<Longrightarrow> 33 \<le> byte c \<and> byte c < 128) \<Longrightarrow> trim_space s = s"
proof -
  assume a: "\<And>c. c \<in> set s \<Longrightarrow> 33 \<le> byte c \<and> byte c < 128"
  have w: "space_width (map byte t) = 0 \<and> space_width_rev (map byte t) = 0" if "set t \<subseteq> set s" for t
    using that a by (cases t) (auto simp: space_width_ascii space_width_rev_ascii simp del: space_width.simps(1) space_width_rev.simps(1))
  show ?thesis
    using w [of s] w [of "rev s"] by (simp add: trim_space_def trim_by_unchanged)
qed

lemma split_on_nonempty [simp]: "split_on d s \<noteq> []"
  by (cases s) (auto split: list.splits)

lemma join_split: "join_with [d] (split_on d s) = s"
proof (induction s)
  case Nil
  then show ?case by simp
next
  case (Cons c cs)
  obtain w ws where "split_on d cs = w # ws"
    using split_on_nonempty [of d cs] by (meson neq_Nil_conv)
  with Cons show ?case
    by (cases ws) auto
qed

lemma split_on_no_sep: "d \<notin> set s \<Longrightarrow> split_on d s = [s]"
  by (induction s) auto

lemma cut_byte_Some:
  "cut_byte d s = Some (a, b) \<longleftrightarrow> s = a @ d # b \<and> d \<notin> set a"
  by (induction s arbitrary: a b) (auto simp: Cons_eq_append_conv)

lemma cut_byte_None: "cut_byte d s = None \<longleftrightarrow> d \<notin> set s"
  by (induction s) auto

subsection \<open>Decimal numerals\<close>

definition digit_char :: "nat \<Rightarrow> char" where
  "digit_char d = char_of (48 + d)"

fun decimal :: "nat \<Rightarrow> string" where
  "decimal n = (if n < 10 then [digit_char n] else decimal (n div 10) @ [digit_char (n mod 10)])"

declare decimal.simps [simp del]

definition is_digit :: "char \<Rightarrow> bool" where
  "is_digit c \<longleftrightarrow> 48 \<le> byte c \<and> byte c \<le> 57"

fun digits_value :: "nat \<Rightarrow> string \<Rightarrow> nat option" where
  "digits_value acc [] = Some acc"
| "digits_value acc (c # cs) =
     (if is_digit c then digits_value (10 * acc + (byte c - 48)) cs else None)"

text \<open>
  \<^verbatim>\<open>strconv.ParseInt(s, 10, 64)\<close>: the value it returns and whether it succeeds. A syntax error
  returns 0, a value out of range the nearest end of the range.
\<close>

definition parse_int64 :: "string \<Rightarrow> int \<times> bool" where
  "parse_int64 s =
     (let (neg, body) = (case s of
            c # cs \<Rightarrow> (if c = CHR ''-'' then (True, cs) else if c = CHR ''+'' then (False, cs) else (False, s))
          | [] \<Rightarrow> (False, []))
      in if body = [] then (0, False)
         else case digits_value 0 body of
           None \<Rightarrow> (0, False)
         | Some n \<Rightarrow>
             (if neg then (if int n \<le> 2 ^ 63 then (- int n, True) else (min_int64, False))
              else (if int n \<le> max_int64 then (int n, True) else (max_int64, False))))"

lemma byte_digit_char: "d < 10 \<Longrightarrow> byte (digit_char d) = 48 + d"
  by (simp add: byte_def digit_char_def)

lemma is_digit_digit_char: "d < 10 \<Longrightarrow> is_digit (digit_char d)"
  by (simp add: is_digit_def byte_digit_char)

lemma digits_value_append:
  "digits_value a (xs @ ys) = Option.bind (digits_value a xs) (\<lambda>b. digits_value b ys)"
  by (induction xs arbitrary: a) auto

lemma digits_value_decimal: "digits_value 0 (decimal n) = Some n"
proof (induction n rule: decimal.induct)
  case (1 n)
  show ?case
  proof (cases "n < 10")
    case True
    then show ?thesis
      by (simp add: decimal.simps [of n] is_digit_digit_char byte_digit_char)
  next
    case False
    with 1 show ?thesis
      by (simp add: decimal.simps [of n] digits_value_append is_digit_digit_char byte_digit_char)
  qed
qed

lemma decimal_inject [simp]: "decimal m = decimal n \<longleftrightarrow> m = n"
  by (metis digits_value_decimal option.inject)

lemma decimal_nonempty [simp]: "decimal n \<noteq> []"
  by (subst decimal.simps) simp

lemma parse_int64_range: "min_int64 \<le> fst (parse_int64 s) \<and> fst (parse_int64 s) \<le> max_int64"
  by (auto simp: parse_int64_def Let_def min_int64_def max_int64_def split: list.splits option.splits)

lemma decimal_no_sign: "\<exists>c cs. decimal n = c # cs \<and> is_digit c"
proof (induction n rule: decimal.induct)
  case (1 n)
  then show ?case
    by (cases "n < 10") (auto simp: decimal.simps [of n] is_digit_digit_char)
qed

lemma parse_int64_decimal: "int n \<le> max_int64 \<Longrightarrow> parse_int64 (decimal n) = (int n, True)"
proof -
  assume n: "int n \<le> max_int64"
  obtain c cs where d: "decimal n = c # cs" and c: "is_digit c"
    using decimal_no_sign by blast
  have "c \<noteq> CHR ''-''" and "c \<noteq> CHR ''+''"
    using c by (auto simp: is_digit_def byte_def)
  with d n digits_value_decimal [of n] show ?thesis
    by (simp add: parse_int64_def)
qed

lemma decimal_digits: "c \<in> set (decimal n) \<Longrightarrow> is_digit c"
proof (induction n rule: decimal.induct)
  case (1 n)
  then show ?case
    by (cases "n < 10") (auto simp: decimal.simps [of n] is_digit_digit_char)
qed

lemma trim_space_decimal [simp]: "trim_space (decimal n) = decimal n"
  by (rule trim_space_printable) (auto dest!: decimal_digits simp: is_digit_def)

subsection \<open>Counters of 64 bits\<close>

text \<open>\<^verbatim>\<open>strconv.FormatUint\<close> of a 64-bit counter.\<close>

definition format_uint :: "u64 \<Rightarrow> string" where
  "format_uint r = decimal (unat r)"

lemma format_uint_inject [simp]: "format_uint a = format_uint b \<longleftrightarrow> a = b"
  by (simp add: format_uint_def word_unat_eq_iff)

lemma format_uint_nonempty [simp]: "format_uint a \<noteq> []" "[] \<noteq> format_uint a"
  by (simp_all add: format_uint_def) (metis decimal_nonempty)

lemma unat_incr: "r \<noteq> (- 1 :: u64) \<Longrightarrow> unat (r + 1) = unat r + 1"
proof -
  assume "r \<noteq> - 1"
  then have "1 + r \<noteq> 0"
    by (simp add: add_eq_0_iff)
  then show ?thesis
    using unatSuc [of r] by (simp add: add.commute)
qed

subsection \<open>Lists\<close>

fun find_first :: "('a \<Rightarrow> 'b option) \<Rightarrow> 'a list \<Rightarrow> 'b option" where
  "find_first f [] = None"
| "find_first f (x # xs) = (case f x of None \<Rightarrow> find_first f xs | Some y \<Rightarrow> Some y)"

lemma find_first_append:
  "find_first f (xs @ ys) = (case find_first f xs of None \<Rightarrow> find_first f ys | Some y \<Rightarrow> Some y)"
  by (induction xs) (auto split: option.splits)

lemma find_first_SomeD:
  "find_first f xs = Some y \<Longrightarrow>
     \<exists>us x vs. xs = us @ x # vs \<and> f x = Some y \<and> (\<forall>u\<in>set us. f u = None)"
proof (induction xs)
  case Nil
  then show ?case by simp
next
  case (Cons a xs)
  show ?case
  proof (cases "f a")
    case None
    with Cons obtain us x vs where "xs = us @ x # vs" "f x = Some y" "\<forall>u\<in>set us. f u = None"
      by auto
    with None have "a # xs = (a # us) @ x # vs \<and> f x = Some y \<and> (\<forall>u\<in>set (a # us). f u = None)"
      by simp
    then show ?thesis by blast
  next
    case (Some z)
    with Cons.prems have "a # xs = [] @ a # xs \<and> f a = Some y \<and> (\<forall>u\<in>set []. f u = None)"
      by simp
    then show ?thesis by blast
  qed
qed

lemma find_first_None: "find_first f xs = None \<longleftrightarrow> (\<forall>x\<in>set xs. f x = None)"
  by (induction xs) (auto split: option.splits)

subsection \<open>Association lists of counters\<close>

text \<open>A \<^verbatim>\<open>map[string]int\<close> of counters; a missing key reads as zero.\<close>

type_synonym counters = "(string \<times> int) list"

definition counter :: "counters \<Rightarrow> string \<Rightarrow> int" where
  "counter cs k = (case map_of cs k of None \<Rightarrow> 0 | Some n \<Rightarrow> n)"

definition bump :: "string \<Rightarrow> counters \<Rightarrow> counters" where
  "bump k cs = AList.update k (counter cs k + 1) cs"

definition total :: "counters \<Rightarrow> int" where
  "total cs = sum_list (map snd cs)"

lemma counter_Nil [simp]: "counter [] k = 0"
  by (simp add: counter_def)

lemma total_Nil [simp]: "total [] = 0"
  by (simp add: total_def)

lemma counter_bump [simp]: "counter (bump k cs) j = (if j = k then counter cs k + 1 else counter cs j)"
  by (simp add: counter_def bump_def update_conv')

lemma total_update:
  "distinct (map fst cs) \<Longrightarrow> total (AList.update k v cs) = total cs - counter cs k + v"
proof (induction cs)
  case Nil
  then show ?case by (simp add: total_def counter_def)
next
  case (Cons p cs)
  obtain a b where p: "p = (a, b)" by (cases p)
  show ?case
  proof (cases "k = a")
    case True
    with p show ?thesis by (simp add: total_def counter_def)
  next
    case False
    with Cons p show ?thesis by (simp add: total_def counter_def)
  qed
qed

lemma total_bump [simp]: "distinct (map fst cs) \<Longrightarrow> total (bump k cs) = total cs + 1"
  by (simp add: bump_def total_update)

lemma distinct_bump [simp]: "distinct (map fst cs) \<Longrightarrow> distinct (map fst (bump k cs))"
  by (simp add: bump_def distinct_update)

subsection \<open>Effects over a world that also keeps a log\<close>

text \<open>
  An effect on a world \<open>'w\<close>, over worlds that also keep a log: \<open>carry\<close> leaves the log, \<open>logging\<close>
  appends the event the effect stands for.
\<close>

definition carry :: "('w \<Rightarrow> 'a \<times> 'w) \<Rightarrow> 'w \<times> 'l \<Rightarrow> 'a \<times> ('w \<times> 'l)" where
  "carry f wl = (case wl of (w, l) \<Rightarrow> (case f w of (r, w') \<Rightarrow> (r, (w', l))))"

definition logging :: "'e \<Rightarrow> ('w \<Rightarrow> 'a \<times> 'w) \<Rightarrow> 'w \<times> 'e list \<Rightarrow> 'a \<times> ('w \<times> 'e list)" where
  "logging ev f wl = (case wl of (w, l) \<Rightarrow> (case f w of (r, w') \<Rightarrow> (r, (w', l @ [ev]))))"

lemma carry_eq [simp]: "carry f (w, l) = (fst (f w), (snd (f w), l))"
  by (simp add: carry_def split: prod.split)

lemma logging_eq [simp]: "logging ev f (w, l) = (fst (f w), (snd (f w), l @ [ev]))"
  by (simp add: logging_def split: prod.split)

end
