(* ===== verification/Core_Types.thy ===== *)
theory Core_Types
  imports Prelude
begin

text \<open>
  The small types every component shares: surfaces, operations and tri-state support
  (\<^verbatim>\<open>model_capabilities.go\<close>), callers (\<^verbatim>\<open>caller.go\<close>), targets (\<^verbatim>\<open>interfaces.go\<close>) and
  translation losses. A Go string type with named constants is a datatype with one
  constructor per constant and one for every other text, the empty one included.
\<close>

subsection \<open>Surfaces, operations and support\<close>

datatype model_surface =
    ChatCompletions | Responses | Messages
  | Embeddings | AudioTranscriptions | AudioSpeech | Images | Videos
  | OtherSurface string

abbreviation no_surface :: model_surface where
  "no_surface \<equiv> OtherSurface []"

definition known_model_surface :: "model_surface \<Rightarrow> bool" where
  "known_model_surface s = (case s of OtherSurface _ \<Rightarrow> False | _ \<Rightarrow> True)"

datatype model_operation =
    OpChat | OpEmbeddings | OpImage | OpAudioIn | OpAudioOut | OpVideo | OpTokenCount
  | OtherOperation string

text \<open>
  \<^verbatim>\<open>Support\<close> is a \<^verbatim>\<open>uint8\<close>; \<open>SupportInvalid\<close> stands for the values 3 to 255, which no
  constant names.
\<close>

datatype support = SupportUnknown | SupportSupported | SupportUnsupported | SupportInvalid "8 word"

definition support_valid :: "support \<Rightarrow> bool" where
  "support_valid s \<longleftrightarrow> s = SupportUnknown \<or> s = SupportSupported \<or> s = SupportUnsupported"

definition support_known :: "support \<Rightarrow> bool" where
  "support_known s \<longleftrightarrow> s = SupportSupported \<or> s = SupportUnsupported"

definition support_supported :: "support \<Rightarrow> bool" where
  "support_supported s \<longleftrightarrow> s = SupportSupported"

text \<open>The JSON text of a support value and its reading; \<open>None\<close> is the error.\<close>

definition support_marshal :: "support \<Rightarrow> string option" where
  "support_marshal s =
     (case s of
        SupportUnknown \<Rightarrow> Some ''unknown''
      | SupportSupported \<Rightarrow> Some ''supported''
      | SupportUnsupported \<Rightarrow> Some ''unsupported''
      | SupportInvalid _ \<Rightarrow> None)"

definition support_unmarshal :: "string \<Rightarrow> support option" where
  "support_unmarshal v =
     (if v = ''unknown'' then Some SupportUnknown
      else if v = ''supported'' then Some SupportSupported
      else if v = ''unsupported'' then Some SupportUnsupported
      else None)"

lemma support_roundtrip:
  "support_unmarshal v = Some s \<longleftrightarrow> support_marshal s = Some v"
  by (auto simp: support_unmarshal_def support_marshal_def split: support.splits if_splits)

lemma support_marshal_valid: "support_marshal s \<noteq> None \<longleftrightarrow> support_valid s"
  by (cases s) (simp_all add: support_marshal_def support_valid_def)

subsection \<open>Callers and targets\<close>

datatype caller_kind = CallerHuman | CallerService | CallerAnonymous | CallerLocal | OtherCallerKind string

record caller =
  caller_id :: string
  caller_kind :: caller_kind
  caller_project :: string

definition local_caller :: caller where
  "local_caller = \<lparr>caller_id = ''local'', caller_kind = CallerLocal, caller_project = []\<rparr>"

datatype caller_error = CallerNoID caller_kind | CallerUnknownKind caller_kind

definition caller_validate :: "caller \<Rightarrow> caller_error option" where
  "caller_validate c =
     (case caller_kind c of
        CallerAnonymous \<Rightarrow> None
      | OtherCallerKind k \<Rightarrow> Some (CallerUnknownKind (OtherCallerKind k))
      | k \<Rightarrow> if blank (caller_id c) then Some (CallerNoID k) else None)"

text \<open>The deprecated \<^verbatim>\<open>Principal\<close>, as far as the models use it, and its conversion.\<close>

record principal =
  pr_id :: string
  pr_type :: string
  pr_project :: string

definition caller_kind_of_text :: "string \<Rightarrow> caller_kind" where
  "caller_kind_of_text t =
     (if t = ''human'' then CallerHuman
      else if t = ''service'' then CallerService
      else if t = ''anonymous'' then CallerAnonymous
      else if t = ''local'' then CallerLocal
      else OtherCallerKind t)"

definition principal_caller :: "principal option \<Rightarrow> caller" where
  "principal_caller po =
     (case po of
        None \<Rightarrow> \<lparr>caller_id = [], caller_kind = CallerAnonymous, caller_project = []\<rparr>
      | Some p \<Rightarrow>
          (let t = to_lower (trim_space (pr_type p));
               kind = (if t = ''user'' then CallerHuman
                       else if t = ''api_key'' then CallerService
                       else if t = [] then CallerAnonymous
                       else caller_kind_of_text t)
           in \<lparr>caller_id = pr_id p, caller_kind = kind, caller_project = pr_project p\<rparr>))"

record target =
  tg_provider :: string
  tg_model :: string

lemma local_caller_valid: "caller_validate local_caller = None"
  by code_simp

lemma caller_validate_None_iff:
  "caller_validate c = None \<longleftrightarrow>
     caller_kind c = CallerAnonymous \<or>
     (caller_kind c \<in> {CallerHuman, CallerService, CallerLocal} \<and> \<not> blank (caller_id c))"
  by (auto simp: caller_validate_def split: caller_kind.splits)

subsection \<open>Losses\<close>

text \<open>
  The fields of llm-translate's \<^verbatim>\<open>Loss\<close> this repository reads. Its classes and severities are
  the constants the repository names; the switch of \<^verbatim>\<open>LossPolicy.Validate\<close> makes them distinct
  and nonempty.
\<close>

datatype loss_class = LossUnsupported | LossDropped | LossApproximated | LossRenamed | OtherLossClass string

datatype loss_severity = LossMaterial | LossAdvisory | OtherSeverity string

record loss =
  loss_path :: string
  loss_class :: loss_class
  loss_severity :: loss_severity

end
