(* ===== verification/Provider_Errors.thy ===== *)
theory Provider_Errors
  imports Core_Types
begin

text \<open>
  Error values and what they permit. Go's errors are dynamic values that may wrap another
  error and may classify themselves; \<open>go_err\<close> has one constructor per error type of the
  repository (\<^verbatim>\<open>provider_error.go\<close>, \<^verbatim>\<open>provider_contracts.go\<close>, \<^verbatim>\<open>invoke.go\<close>,
  \<^verbatim>\<open>loss_policy.go\<close>, \<^verbatim>\<open>transport_labels.go\<close>, \<^verbatim>\<open>providers/errors.go\<close>,
  \<^verbatim>\<open>execution/*.go\<close>), the context and \<^verbatim>\<open>io\<close> sentinels, package sentinels by name,
  \<^verbatim>\<open>fmt.Errorf\<close> with \<^verbatim>\<open>%w\<close>, and \<open>ForeignErr\<close> for an error of a product or a library: its
  name, the classification it gives itself, and what it unwraps to. Typed nil pointers are
  not modelled, so the \<^verbatim>\<open>e == nil\<close> branches of the methods have no counterpart.
\<close>

subsection \<open>Classification and dispositions\<close>

record classification =
  cl_status :: int
  cl_retryable :: bool
  cl_failover :: bool
  cl_circuit :: bool
  cl_retry_after :: duration

definition no_classification :: classification where
  "no_classification =
     \<lparr>cl_status = 0, cl_retryable = False, cl_failover = False, cl_circuit = False, cl_retry_after = 0\<rparr>"

datatype disposition = DispositionTerminal | DispositionFailover | DispositionRetryable

definition disposition_of :: "classification \<Rightarrow> disposition" where
  "disposition_of c =
     (if cl_retryable c then DispositionRetryable
      else if cl_failover c then DispositionFailover
      else DispositionTerminal)"

text \<open>
  A disposition permits the more the later it stands: terminal, then failover, then
  retryable.
\<close>

instantiation disposition :: linorder
begin

definition disposition_rank :: "disposition \<Rightarrow> nat" where
  "disposition_rank d =
     (case d of DispositionTerminal \<Rightarrow> 0 | DispositionFailover \<Rightarrow> 1 | DispositionRetryable \<Rightarrow> 2)"

definition less_eq_disposition :: "disposition \<Rightarrow> disposition \<Rightarrow> bool" where
  "less_eq_disposition a b \<longleftrightarrow> disposition_rank a \<le> disposition_rank b"

definition less_disposition :: "disposition \<Rightarrow> disposition \<Rightarrow> bool" where
  "less_disposition a b \<longleftrightarrow> disposition_rank a < disposition_rank b"

instance
  by standard
    (auto simp: less_eq_disposition_def less_disposition_def disposition_rank_def split: disposition.splits)

end

datatype error_class =
    NoClass
  | ClassNone | ClassAuth | ClassForbidden | ClassRateLimited | ClassTransport | ClassUpstream
  | ClassConfiguration | ClassInvalidRequest | ClassUnsupported
  | OtherErrorClass string

datatype reject_reason =
    RejectInvalidRequirement | RejectOperationUnsupported | RejectNoInterface | RejectNativeRequired
  | RejectExactTargetRequired | RejectNativeUnconfirmed | RejectTranslationUnevaluated
  | RejectTranslationLoss | RejectNotCataloged | RejectStreaming

subsection \<open>Error values\<close>

datatype go_err =
    CtxCanceled
  | CtxDeadline
  | IoEOF
  | Sentinel string
  | WrapErr string go_err
  | OperationErr string int string gtime "go_err option"
  | ProviderErr string error_class classification "go_err option"
  | InvocationErr string int bool bool bool duration "go_err option" bool error_class
  | CatalogErr string string int duration "go_err option"
  | SurfaceErr model_surface string
  | LossPolicyErr "loss list"
  | TransportRejectErr reject_reason model_surface string bool
  | UnavailableErr gtime duration
  | CircuitOpenErr string gtime duration
  | AfterOutputErr "go_err option"
  | ClassifiedErr go_err classification
  | ForeignErr string "classification option" "go_err option"

fun err_unwrap :: "go_err \<Rightarrow> go_err option" where
  "err_unwrap (WrapErr _ e) = Some e"
| "err_unwrap (OperationErr _ _ _ _ c) = c"
| "err_unwrap (ProviderErr _ _ _ c) = c"
| "err_unwrap (InvocationErr _ _ _ _ _ _ c _ _) = c"
| "err_unwrap (CatalogErr _ _ _ _ c) = c"
| "err_unwrap (AfterOutputErr c) = c"
| "err_unwrap (ClassifiedErr e _) = Some e"
| "err_unwrap (ForeignErr _ _ c) = c"
| "err_unwrap _ = None"

lemma err_unwrap_size: "err_unwrap e = Some c \<Longrightarrow> size c < size e"
  by (cases e) (auto simp: less_Suc_eq_le split: option.splits)

text \<open>The chain \<^verbatim>\<open>errors.Is\<close> and \<^verbatim>\<open>errors.As\<close> walk: the error and what it unwraps to.\<close>

function err_chain :: "go_err \<Rightarrow> go_err list" where
  "err_chain e = e # (case err_unwrap e of None \<Rightarrow> [] | Some c \<Rightarrow> err_chain c)"
  by pat_completeness auto
termination
  by (relation "measure size") (auto simp: err_unwrap_size)

declare err_chain.simps [simp del]

lemma err_chain_unwrap [classify_simps]:
  "err_unwrap e = None \<Longrightarrow> err_chain e = [e]"
  "err_unwrap e = Some c \<Longrightarrow> err_chain e = e # err_chain c"
  by (simp_all add: err_chain.simps [of e])

lemma err_chain_self: "e \<in> set (err_chain e)"
  by (simp add: err_chain.simps [of e])

definition err_is :: "go_err \<Rightarrow> go_err \<Rightarrow> bool" where
  "err_is e t \<longleftrightarrow> t \<in> set (err_chain e)"

text \<open>\<^verbatim>\<open>canceled\<close> of \<^verbatim>\<open>execution/health.go\<close> and \<^verbatim>\<open>callerCancellation\<close> of \<^verbatim>\<open>providers/errors.go\<close>.\<close>

definition canceled :: "go_err \<Rightarrow> bool" where
  "canceled e \<longleftrightarrow> err_is e CtxCanceled \<or> err_is e CtxDeadline"

subsection \<open>Health evidence of a provider failure\<close>

datatype health_status = HealthUnknown | HealthHealthy | HealthDegraded | HealthUnhealthy

record health_evidence =
  he_status :: health_status
  he_class :: error_class
  he_permanent :: bool
  he_retryable :: bool
  he_retry_after :: duration
  he_observed_at :: gtime

record provider_failure =
  pf_status :: int
  pf_retry_after :: string
  pf_observed_at :: gtime
  pf_failed :: bool

text \<open>
  \<open>pf_failed\<close> says that \<^verbatim>\<open>Err\<close> is set, which is all the classification reads of it. The date
  format of a \<^verbatim>\<open>Retry-After\<close> header is \<^verbatim>\<open>net/http\<close>'s \<^verbatim>\<open>ParseTime\<close>, an argument here. The
  product of the seconds wraps at 64 bits as Go's does.
\<close>

definition parse_retry_after :: "(string \<Rightarrow> gtime option) \<Rightarrow> string \<Rightarrow> gtime \<Rightarrow> duration" where
  "parse_retry_after parse_time v observed =
     (let value = trim_space v in
      case parse_int64 value of
        (secs, ok) \<Rightarrow>
          (if ok \<and> 0 \<le> secs then wrap64 (seconds secs)
           else case parse_time value of
             Some when \<Rightarrow>
               (if \<not> is_zero_time observed \<and> observed < when then time_sub when observed else 0)
           | None \<Rightarrow> 0))"

text \<open>
  The part of \<^verbatim>\<open>ClassifyProviderFailure\<close> that decides status, class, permanence and
  retryability, from the HTTP status and whether there was an error.
\<close>

definition failure_verdict :: "int \<Rightarrow> bool \<Rightarrow> health_status \<times> error_class \<times> bool \<times> bool" where
  "failure_verdict status failed =
     (if 200 \<le> status \<and> status < 300 \<and> \<not> failed then (HealthHealthy, ClassNone, False, False)
      else if status = 0 \<and> failed then (HealthUnhealthy, ClassTransport, False, True)
      else if status = 401 then (HealthUnhealthy, ClassAuth, True, False)
      else if status = 403 then (HealthUnhealthy, ClassForbidden, True, False)
      else if status = 429 then (HealthDegraded, ClassRateLimited, False, True)
      else (HealthUnhealthy, ClassUpstream, False, status = 408 \<or> 500 \<le> status))"

definition classify_provider_failure ::
    "(string \<Rightarrow> gtime option) \<Rightarrow> provider_failure \<Rightarrow> health_evidence" where
  "classify_provider_failure parse_time f =
     (case failure_verdict (pf_status f) (pf_failed f) of
        (status, cls, permanent, retryable) \<Rightarrow>
          \<lparr>he_status = status, he_class = cls, he_permanent = permanent, he_retryable = retryable,
           he_retry_after =
             (if cls = ClassRateLimited
              then parse_retry_after parse_time (pf_retry_after f) (pf_observed_at f) else 0),
           he_observed_at = pf_observed_at f\<rparr>)"

subsection \<open>Self-classification\<close>

text \<open>
  \<^verbatim>\<open>ProviderErrorClassification\<close> of each type that has it; \<open>None\<close> for one that does not
  classify itself.
\<close>

definition operation_classification :: "go_err \<Rightarrow> int \<Rightarrow> bool \<Rightarrow> classification" where
  "operation_classification e status failed =
     (if canceled e then no_classification\<lparr>cl_status := status\<rparr>
      else case failure_verdict status failed of
        (_, cls, _, retryable) \<Rightarrow>
          \<lparr>cl_status = status, cl_retryable = retryable, cl_failover = retryable,
           cl_circuit = (cls = ClassTransport \<or> cls = ClassUpstream), cl_retry_after = 0\<rparr>)"

definition invocation_classification ::
    "go_err \<Rightarrow> int \<Rightarrow> bool \<Rightarrow> bool \<Rightarrow> bool \<Rightarrow> duration \<Rightarrow> bool \<Rightarrow> classification" where
  "invocation_classification e status retryable failover circuit retry_after upstream_transport =
     (if canceled e \<and> \<not> upstream_transport then no_classification\<lparr>cl_status := status\<rparr>
      else
        (let health_retryable = (status \<noteq> 0 \<and> snd (snd (snd (failure_verdict status False))))
         in \<lparr>cl_status = status,
             cl_retryable = (retryable \<or> health_retryable \<or> upstream_transport),
             cl_failover = (failover \<or> health_retryable \<or> upstream_transport),
             cl_circuit = (circuit \<or> (500 \<le> status \<and> status < 600 \<and> health_retryable)),
             cl_retry_after = retry_after\<rparr>))"

definition self_classification :: "go_err \<Rightarrow> classification option" where
  "self_classification e =
     (case e of
        OperationErr _ status _ _ c \<Rightarrow> Some (operation_classification e status (c \<noteq> None))
      | ProviderErr _ _ cl _ \<Rightarrow> Some cl
      | InvocationErr _ status r f ci ra _ ut _ \<Rightarrow> Some (invocation_classification e status r f ci ra ut)
      | SurfaceErr _ _ \<Rightarrow> Some (no_classification\<lparr>cl_failover := True\<rparr>)
      | LossPolicyErr _ \<Rightarrow> Some (no_classification\<lparr>cl_failover := True\<rparr>)
      | UnavailableErr _ ra \<Rightarrow> Some (no_classification\<lparr>cl_failover := True, cl_retry_after := ra\<rparr>)
      | CircuitOpenErr _ _ ra \<Rightarrow>
          Some (no_classification\<lparr>cl_status := 503, cl_failover := True, cl_retry_after := ra\<rparr>)
      | AfterOutputErr _ \<Rightarrow> Some no_classification
      | ClassifiedErr _ cl \<Rightarrow> Some cl
      | ForeignErr _ cl _ \<Rightarrow> cl
      | _ \<Rightarrow> None)"

text \<open>\<^verbatim>\<open>ClassifyError\<close>: the nearest error of the chain that classifies itself decides.\<close>

definition classify_error :: "go_err \<Rightarrow> classification" where
  "classify_error e =
     (case find_first self_classification (err_chain e) of
        Some c \<Rightarrow> c
      | None \<Rightarrow> no_classification)"

text \<open>\<^verbatim>\<open>failoverEligible\<close> of \<^verbatim>\<open>engine.go\<close>.\<close>

definition failover_eligible :: "go_err \<Rightarrow> bool" where
  "failover_eligible e \<longleftrightarrow>
     (case find_first self_classification (err_chain e) of
        Some c \<Rightarrow> cl_failover c
      | None \<Rightarrow> False)"

definition new_configuration_error :: "string \<Rightarrow> go_err option \<Rightarrow> go_err" where
  "new_configuration_error message cause =
     ProviderErr message ClassConfiguration (no_classification\<lparr>cl_failover := True\<rparr>) cause"

text \<open>\<^verbatim>\<open>classifyProviderError\<close>: the failure of the nearest operation error, else the error itself.\<close>

definition operation_failure :: "go_err \<Rightarrow> (int \<times> string \<times> bool) option" where
  "operation_failure e =
     (case e of OperationErr _ status ra _ c \<Rightarrow> Some (status, ra, c \<noteq> None) | _ \<Rightarrow> None)"

definition classify_provider_error ::
    "(string \<Rightarrow> gtime option) \<Rightarrow> go_err \<Rightarrow> gtime \<Rightarrow> health_evidence" where
  "classify_provider_error parse_time e observed =
     (case find_first operation_failure (err_chain e) of
        Some (status, ra, failed) \<Rightarrow>
          classify_provider_failure parse_time
            \<lparr>pf_status = status, pf_retry_after = ra, pf_observed_at = observed, pf_failed = failed\<rparr>
      | None \<Rightarrow>
          classify_provider_failure parse_time
            \<lparr>pf_status = 0, pf_retry_after = [], pf_observed_at = observed, pf_failed = True\<rparr>)"

subsection \<open>Facts about classification\<close>

lemma disposition_of_simps [classify_simps]:
  "disposition_of c = DispositionRetryable \<longleftrightarrow> cl_retryable c"
  "disposition_of c = DispositionFailover \<longleftrightarrow> \<not> cl_retryable c \<and> cl_failover c"
  "disposition_of c = DispositionTerminal \<longleftrightarrow> \<not> cl_retryable c \<and> \<not> cl_failover c"
  by (simp_all add: disposition_of_def)

lemma no_classification_sel [simp]:
  "cl_status no_classification = 0" "\<not> cl_retryable no_classification"
  "\<not> cl_failover no_classification" "\<not> cl_circuit no_classification"
  "cl_retry_after no_classification = 0"
  by (simp_all add: no_classification_def)

lemma classify_error_self [classify_simps]:
  "self_classification e = Some c \<Longrightarrow> classify_error e = c"
  by (simp add: classify_error_def err_chain.simps [of e])

lemma classify_error_unwrap [classify_simps]:
  "self_classification e = None \<Longrightarrow> err_unwrap e = Some c \<Longrightarrow> classify_error e = classify_error c"
  "self_classification e = None \<Longrightarrow> err_unwrap e = None \<Longrightarrow> classify_error e = no_classification"
  by (simp_all add: classify_error_def err_chain.simps [of e])

lemma classify_error_simps [simp]:
  "classify_error (WrapErr m e) = classify_error e"
  "classify_error (ClassifiedErr e c) = c"
  "classify_error (AfterOutputErr co) = no_classification"
  "classify_error (ProviderErr m cls c co) = c"
  "classify_error (Sentinel n) = no_classification"
  "classify_error CtxCanceled = no_classification"
  "classify_error CtxDeadline = no_classification"
  "classify_error IoEOF = no_classification"
  "classify_error (SurfaceErr sf m) = no_classification\<lparr>cl_failover := True\<rparr>"
  "classify_error (UnavailableErr t d) = no_classification\<lparr>cl_failover := True, cl_retry_after := d\<rparr>"
  "classify_error (CircuitOpenErr k t d) =
     no_classification\<lparr>cl_status := 503, cl_failover := True, cl_retry_after := d\<rparr>"
  by (simp_all add: classify_simps self_classification_def)

lemma classify_error_operation [simp]:
  "classify_error (OperationErr m st ra t c) =
     operation_classification (OperationErr m st ra t c) st (c \<noteq> None)"
  by (simp add: classify_simps self_classification_def)

lemma classify_error_invocation [simp]:
  "classify_error (InvocationErr m st r f ci ra co ut cls) =
     invocation_classification (InvocationErr m st r f ci ra co ut cls) st r f ci ra ut"
  by (simp add: classify_simps self_classification_def)

lemma failover_eligible_iff: "failover_eligible e \<longleftrightarrow> cl_failover (classify_error e)"
  by (simp add: failover_eligible_def classify_error_def split: option.split)

lemma err_is_unwrap: "err_unwrap e = Some c \<Longrightarrow> err_is e t \<longleftrightarrow> t = e \<or> err_is c t"
  by (auto simp: err_is_def err_chain.simps [of e])

lemma err_is_leaf: "err_unwrap e = None \<Longrightarrow> err_is e t \<longleftrightarrow> t = e"
  by (auto simp: err_is_def err_chain.simps [of e])

lemma canceled_simps [simp]:
  "canceled CtxCanceled" "canceled CtxDeadline"
  "canceled (WrapErr m e) = canceled e" "canceled (ClassifiedErr e c) = canceled e"
  "\<not> canceled (Sentinel n)" "\<not> canceled IoEOF"
  "canceled (ProviderErr m cls cl co) = (case co of None \<Rightarrow> False | Some c \<Rightarrow> canceled c)"
  "canceled (OperationErr m st rs t co) = (case co of None \<Rightarrow> False | Some c \<Rightarrow> canceled c)"
  "canceled (InvocationErr m st r f ci ra co ut k) = (case co of None \<Rightarrow> False | Some c \<Rightarrow> canceled c)"
  "canceled (AfterOutputErr co) = (case co of None \<Rightarrow> False | Some c \<Rightarrow> canceled c)"
  by (auto simp: canceled_def err_is_unwrap err_is_leaf split: option.split)

lemma failure_verdict_retryable:
  "failure_verdict st failed = (hs, cls, perm, True) \<Longrightarrow>
     cls \<in> {ClassTransport, ClassRateLimited, ClassUpstream} \<and> \<not> perm"
  by (auto simp: failure_verdict_def split: if_splits)

lemma failure_verdict_permanent:
  "failure_verdict st failed = (hs, cls, True, r) \<Longrightarrow> cls \<in> {ClassAuth, ClassForbidden} \<and> \<not> r"
  by (auto simp: failure_verdict_def split: if_splits)

lemma parse_retry_after_decimal:
  "int n \<le> max_int64 \<Longrightarrow> parse_retry_after pt (decimal n) observed = wrap64 (seconds (int n))"
  by (simp add: parse_retry_after_def parse_int64_decimal)

text \<open>
  A \<^verbatim>\<open>Retry-After\<close> header of a 429 answer that states a number of seconds is kept exactly
  while it fits a duration (up to 9223372036 seconds), whatever the date parser does; one second
  more wraps around 64 bits and yields a negative delay.
\<close>
theorem retry_after_seconds:
  "int n \<le> 9223372036 \<Longrightarrow>
     he_retry_after (classify_provider_failure pt
       \<lparr>pf_status = 429, pf_retry_after = decimal n, pf_observed_at = t, pf_failed = failed\<rparr>) = seconds (int n)
     \<and> he_retry_after (classify_provider_failure pt
       \<lparr>pf_status = 429, pf_retry_after = decimal 9223372037, pf_observed_at = t, pf_failed = failed\<rparr>) < 0"
  by (simp add: classify_provider_failure_def failure_verdict_def parse_retry_after_decimal
      max_int64_def wrap64_def)

theorem retry_after_seconds_witness:
  "he_retry_after (classify_provider_failure (\<lambda>_. None)
     \<lparr>pf_status = 429, pf_retry_after = ''7'', pf_observed_at = 5, pf_failed = True\<rparr>) = 7000000000"
proof -
  have "decimal 7 = ''7''"
    by code_simp
  then show ?thesis
    using retry_after_seconds [of 7 "\<lambda>_. None" 5 True] by simp
qed

text \<open>
  A stream failure after output is terminal and says nothing about health, whatever error it
  carries, while any other wrapping (\<^verbatim>\<open>fmt.Errorf\<close>) keeps the classification of what it wraps;
  and the engine's failover test agrees with the classification for every error.
\<close>
theorem classification_of_wrappers:
  "classify_error (AfterOutputErr co) = no_classification \<and>
   disposition_of (classify_error (AfterOutputErr co)) = DispositionTerminal \<and>
   classify_error (WrapErr m e) = classify_error e \<and>
   failover_eligible e = cl_failover (classify_error e) \<and>
   (DispositionFailover \<le> disposition_of (classify_error e)) =
     (cl_failover (classify_error e) \<or> cl_retryable (classify_error e))"
  by (auto simp: failover_eligible_iff disposition_of_def less_eq_disposition_def disposition_rank_def)

end
