(* ===== verification/Loss_Policy.thy ===== *)
theory Loss_Policy
  imports Provider_Errors
begin

text \<open>
  \<^verbatim>\<open>loss_policy.go\<close>: rules that decide which translation losses a product accepts, the glob
  over loss paths, and its declarative meaning.
\<close>

datatype loss_action = LossAllow | LossReject | OtherAction string

record loss_rule =
  lr_path :: string
  lr_class :: loss_class
  lr_severity :: loss_severity
  lr_action :: loss_action

type_synonym loss_policy = "loss_rule list"

datatype rule_error = UnknownAction | EmptySegment | UnknownClass | UnknownSeverity

subsection \<open>Validation\<close>

definition rule_error_of :: "loss_rule \<Rightarrow> rule_error option" where
  "rule_error_of r =
     (if lr_action r \<notin> {LossAllow, LossReject} then Some UnknownAction
      else if lr_path r \<noteq> [] \<and> [] \<in> set (split_on CHR ''.'' (lr_path r)) then Some EmptySegment
      else if lr_class r \<notin> {OtherLossClass [], LossUnsupported, LossDropped, LossApproximated, LossRenamed}
      then Some UnknownClass
      else if lr_severity r \<notin> {OtherSeverity [], LossMaterial, LossAdvisory} then Some UnknownSeverity
      else None)"

text \<open>The first malformed rule, numbered from one, and what is wrong with it.\<close>

fun policy_validate_from :: "nat \<Rightarrow> loss_policy \<Rightarrow> (nat \<times> rule_error) option" where
  "policy_validate_from i [] = None"
| "policy_validate_from i (r # rs) =
     (case rule_error_of r of
        Some e \<Rightarrow> Some (i + 1, e)
      | None \<Rightarrow> policy_validate_from (i + 1) rs)"

definition policy_validate :: "loss_policy \<Rightarrow> (nat \<times> rule_error) option" where
  "policy_validate p = policy_validate_from 0 p"

subsection \<open>Matching and deciding\<close>

fun match_loss_path :: "string list \<Rightarrow> string list \<Rightarrow> bool" where
  "match_loss_path [] path = (path = [])"
| "match_loss_path (p # ps) path =
     (if p = ''**'' then list_ex (\<lambda>skip. match_loss_path ps (drop skip path)) [0..<Suc (length path)]
      else if p = ''*'' then (case path of [] \<Rightarrow> False | _ # rest \<Rightarrow> match_loss_path ps rest)
      else (case path of [] \<Rightarrow> False | x # rest \<Rightarrow> x = p \<and> match_loss_path ps rest))"

definition rule_matches :: "loss_rule \<Rightarrow> loss \<Rightarrow> bool" where
  "rule_matches r l \<longleftrightarrow>
     (lr_class r = OtherLossClass [] \<or> lr_class r = loss_class l) \<and>
     (lr_severity r = OtherSeverity [] \<or> lr_severity r = loss_severity l) \<and>
     (lr_path r = [] \<or>
      match_loss_path (split_on CHR ''.'' (lr_path r)) (split_on CHR ''.'' (loss_path l)))"

fun policy_decide :: "loss_policy \<Rightarrow> loss \<Rightarrow> loss_action" where
  "policy_decide [] l = (if loss_severity l = LossAdvisory then LossAllow else LossReject)"
| "policy_decide (r # rs) l = (if rule_matches r l then lr_action r else policy_decide rs l)"

definition policy_rejected :: "loss_policy \<Rightarrow> loss list \<Rightarrow> loss list" where
  "policy_rejected p ls = filter (\<lambda>l. policy_decide p l = LossReject) ls"

definition policy_check :: "loss_policy \<Rightarrow> loss list \<Rightarrow> go_err option" where
  "policy_check p ls =
     (let rejected = policy_rejected p ls
      in if rejected \<noteq> [] then Some (LossPolicyErr rejected) else None)"

subsection \<open>What a path glob means\<close>

inductive glob :: "string list \<Rightarrow> string list \<Rightarrow> bool" where
  glob_end: "glob [] []"
| glob_deep: "glob ps ys \<Longrightarrow> glob (''**'' # ps) (xs @ ys)"
| glob_one: "glob ps ys \<Longrightarrow> glob (''*'' # ps) (y # ys)"
| glob_literal: "glob ps ys \<Longrightarrow> p \<noteq> ''*'' \<Longrightarrow> p \<noteq> ''**'' \<Longrightarrow> glob (p # ps) (p # ys)"

inductive_cases glob_endE: "glob [] ys"
inductive_cases glob_ConsE: "glob (p # ps) ys"

inductive_simps glob_nil_simps [simp]: "glob [] ys"

lemma glob_sound: "match_loss_path ps path \<Longrightarrow> glob ps path"
proof (induction ps path rule: match_loss_path.induct)
  case (1 path)
  then show ?case by simp
next
  case (2 p ps path)
  consider "p = ''**''" | "p = ''*''" | "p \<noteq> ''**''" "p \<noteq> ''*''" by blast
  then show ?case
  proof cases
    case 1
    with "2.prems" obtain skip where "skip \<in> set [0..<Suc (length path)]"
      and "match_loss_path ps (drop skip path)"
      by (auto simp: list_ex_iff simp del: upt_Suc set_upt)
    with 1 "2.IH"(1) have "glob ps (drop skip path)" by blast
    then have "glob (''**'' # ps) (take skip path @ drop skip path)" by (rule glob_deep)
    with 1 show ?thesis by simp
  next
    case 2
    with "2.prems" "2.IH"(2) show ?thesis by (auto intro: glob_one split: list.splits)
  next
    case 3
    with "2.prems" "2.IH"(3) show ?thesis by (auto intro: glob_literal split: list.splits)
  qed
qed

lemma glob_complete: "glob ps path \<Longrightarrow> match_loss_path ps path"
proof (induction rule: glob.induct)
  case (glob_deep ps ys xs)
  then have "match_loss_path ps (drop (length xs) (xs @ ys))" by simp
  moreover have "length xs \<in> set [0..<Suc (length (xs @ ys))]" by (simp del: upt_Suc)
  ultimately show ?case unfolding match_loss_path.simps list_ex_iff by (metis (no_types))
qed auto

lemma match_loss_path_iff: "match_loss_path ps path \<longleftrightarrow> glob ps path"
  using glob_sound glob_complete by blast

subsection \<open>Facts about validated policies\<close>

lemma policy_validate_from_None:
  "policy_validate_from i p = None \<longleftrightarrow> (\<forall>r\<in>set p. rule_error_of r = None)"
  by (induction p arbitrary: i) (auto split: option.split)

lemma rule_ok_action: "rule_error_of r = None \<Longrightarrow> lr_action r = LossAllow \<or> lr_action r = LossReject"
  by (auto simp: rule_error_of_def split: if_splits)

lemma policy_decide_cases:
  "policy_decide p l = LossAllow \<or> policy_decide p l = LossReject \<or>
     (\<exists>r\<in>set p. rule_matches r l \<and> policy_decide p l = lr_action r)"
  by (induction p) auto

lemma policy_decide_valid:
  assumes "policy_validate p = None"
  shows "policy_decide p l = LossAllow \<or> policy_decide p l = LossReject"
proof -
  have "\<forall>r\<in>set p. rule_error_of r = None"
    using assms by (simp add: policy_validate_def policy_validate_from_None)
  then show ?thesis
    using policy_decide_cases [of p l] rule_ok_action by metis
qed

lemma policy_decide_first:
  "policy_decide (us @ r # vs) l =
     (if \<exists>u\<in>set us. rule_matches u l then policy_decide us l
      else if rule_matches r l then lr_action r else policy_decide vs l)"
  by (induction us) auto

lemma policy_decide_default:
  "\<forall>r\<in>set p. \<not> rule_matches r l \<Longrightarrow>
     policy_decide p l = (if loss_severity l = LossAdvisory then LossAllow else LossReject)"
  by (induction p) auto

subsection \<open>Properties\<close>

text \<open>
  C37. The path matcher decides exactly the documented glob: a star stands for one segment, a double
  star for any number of segments including none, and any other segment for itself.
\<close>
theorem loss_path_glob:
  "match_loss_path pattern path \<longleftrightarrow> glob pattern path"
  by (rule match_loss_path_iff)

text \<open>
  A policy that validates decides every loss, accepts a report exactly when it allows each loss
  of it, and otherwise returns an error that names all rejected losses in report order and permits
  failover without a circuit failure.
\<close>
theorem validated_policy_check:
  assumes "policy_validate p = None"
  shows "(policy_check p ls = None \<longleftrightarrow> (\<forall>l\<in>set ls. policy_decide p l = LossAllow)) \<and>
    (\<forall>e. policy_check p ls = Some e \<longrightarrow>
       e = LossPolicyErr (filter (\<lambda>l. policy_decide p l \<noteq> LossAllow) ls) \<and>
       disposition_of (classify_error e) = DispositionFailover \<and> \<not> cl_circuit (classify_error e))"
proof -
  have d: "(policy_decide p l = LossReject) = (policy_decide p l \<noteq> LossAllow)" for l
    using policy_decide_valid [OF assms, of l] by auto
  show ?thesis
    by (auto simp: policy_check_def policy_rejected_def d filter_empty_conv Let_def
        classify_simps self_classification_def)
qed

definition demo_policy :: loss_policy where
  "demo_policy =
     [\<lparr>lr_path = ''messages.**.cache_control'', lr_class = OtherLossClass [],
       lr_severity = OtherSeverity [], lr_action = LossAllow\<rparr>]"

definition demo_loss :: loss where
  "demo_loss = \<lparr>loss_path = ''messages.0.content.cache_control'', loss_class = LossDropped, loss_severity = LossMaterial\<rparr>"

theorem validated_policy_check_witness:
  "policy_check demo_policy [demo_loss] = None"
proof -
  have v: "policy_validate demo_policy = None"
    by code_simp
  have d: "policy_decide demo_policy demo_loss = LossAllow"
    by code_simp
  show ?thesis
    using validated_policy_check [OF v, of "[demo_loss]"] d by simp
qed

text \<open>
  The first rule that matches a loss decides it; a loss no rule matches is rejected unless it is
  advisory, so a policy without rules fails closed on every severity it does not know.
\<close>
theorem first_matching_rule_decides:
  assumes "\<forall>u\<in>set us. \<not> rule_matches u l"
  shows "(rule_matches r l \<longrightarrow> policy_decide (us @ r # vs) l = lr_action r) \<and>
     policy_decide us l = (if loss_severity l = LossAdvisory then LossAllow else LossReject)"
  using assms by (auto simp: policy_decide_first policy_decide_default)

theorem first_matching_rule_decides_witness:
  "policy_decide demo_policy demo_loss = LossAllow \<and> policy_decide [] demo_loss = LossReject"
proof -
  have m: "rule_matches (hd demo_policy) demo_loss"
    by code_simp
  show ?thesis
    using first_matching_rule_decides [of "[]" demo_loss "hd demo_policy" "[]"] m
    by (simp add: demo_policy_def demo_loss_def)
qed

end
