(* ===== verification/Health.thy ===== *)
theory Health
  imports Provider_Errors
begin

text \<open>
  \<^verbatim>\<open>execution/health.go\<close>: the circuit and cooldown state a \<^verbatim>\<open>HealthTracker\<close> keeps per key. The
  tracker's functions (policy, observation) are \<open>health_config\<close>, its \<^verbatim>\<open>keys\<close> map is
  \<open>tracker\<close>, and each operation takes the instant its clock returned. Every operation runs
  under the tracker's lock, so one call is one step. The interface an executor sees, \<^verbatim>\<open>Health\<close>,
  is the locale \<open>health_contract\<close>, interpreted on the tracker at the end.
\<close>

subsection \<open>Observations\<close>

datatype effect = EffectNeutral | EffectSuccess | EffectFailure

record observation =
  ob_effect :: effect
  ob_class :: string
  ob_retry_after :: duration

definition observe :: "go_err option \<Rightarrow> observation" where
  "observe err =
     (case err of
        None \<Rightarrow> \<lparr>ob_effect = EffectSuccess, ob_class = [], ob_retry_after = 0\<rparr>
      | Some e \<Rightarrow>
          (let c = classify_error e in
           \<lparr>ob_effect =
              (if cl_circuit c then EffectFailure
               else if cl_status c \<noteq> 0 \<and> \<not> canceled e then EffectSuccess
               else EffectNeutral),
            ob_class = [], ob_retry_after = cl_retry_after c\<rparr>))"

subsection \<open>Policies and state\<close>

record failure_info =
  fi_key :: string
  fi_class :: string
  fi_streak :: int
  fi_class_failures :: int

record health_policy =
  hp_threshold :: int
  hp_open :: duration
  hp_backoff :: "(failure_info \<Rightarrow> duration) option"
  hp_window :: duration
  hp_ignore_retry :: bool

record health_config =
  hc_policy :: "string \<Rightarrow> health_policy"
  hc_observe :: "go_err option \<Rightarrow> observation"

record health_options =
  ho_policy :: "(string \<Rightarrow> health_policy) option"
  ho_observe :: "(go_err option \<Rightarrow> observation) option"

text \<open>\<open>key_health\<close> is \<^verbatim>\<open>health\<close>; a nil class map and an empty one are both \<open>[]\<close>.\<close>

record key_health =
  kh_streak :: int
  kh_classes :: counters
  kh_last_failure :: gtime
  kh_open_until :: gtime
  kh_cool_until :: gtime

type_synonym tracker = "string \<rightharpoonup> key_health"

definition new_key_health :: key_health where
  "new_key_health =
     \<lparr>kh_streak = 0, kh_classes = [], kh_last_failure = 0, kh_open_until = 0, kh_cool_until = 0\<rparr>"

definition default_failure_threshold :: int where
  "default_failure_threshold = 5"

definition default_open_duration :: duration where
  "default_open_duration = seconds 30"

definition default_health_policy :: health_policy where
  "default_health_policy =
     \<lparr>hp_threshold = default_failure_threshold, hp_open = default_open_duration, hp_backoff = None,
      hp_window = 0, hp_ignore_retry = False\<rparr>"

definition new_health_tracker :: "health_options \<Rightarrow> health_config \<times> tracker" where
  "new_health_tracker opts =
     (\<lparr>hc_policy = (case ho_policy opts of None \<Rightarrow> (\<lambda>_. default_health_policy) | Some p \<Rightarrow> p),
       hc_observe = (case ho_observe opts of None \<Rightarrow> observe | Some f \<Rightarrow> f)\<rparr>,
      Map.empty)"

subsection \<open>Operations\<close>

definition later :: "gtime \<Rightarrow> gtime \<Rightarrow> gtime" where
  "later a b = (if a < b then b else a)"

definition tracker_state :: "tracker \<Rightarrow> string \<Rightarrow> key_health" where
  "tracker_state st key = (case st key of None \<Rightarrow> new_key_health | Some h \<Rightarrow> h)"

definition tracker_succeed :: "string \<Rightarrow> gtime \<Rightarrow> tracker \<Rightarrow> tracker" where
  "tracker_succeed key now st =
     (case st key of
        None \<Rightarrow> st
      | Some h \<Rightarrow>
          (if \<not> now < kh_cool_until h then st(key := None)
           else st(key \<mapsto> new_key_health\<lparr>kh_cool_until := kh_cool_until h\<rparr>)))"

text \<open>What \<^verbatim>\<open>fail\<close> does to the state of its key: the window, the streak, the deadline.\<close>

definition forget_streak :: "health_policy \<Rightarrow> gtime \<Rightarrow> key_health \<Rightarrow> key_health" where
  "forget_streak p now h =
     (if 0 < hp_window p \<and> \<not> is_zero_time (kh_last_failure h) \<and>
         hp_window p < time_sub now (kh_last_failure h)
      then h\<lparr>kh_streak := 0, kh_classes := []\<rparr> else h)"

definition extend_streak :: "string \<Rightarrow> gtime \<Rightarrow> key_health \<Rightarrow> key_health" where
  "extend_streak cls now h =
     h\<lparr>kh_streak := kh_streak h + 1, kh_classes := bump cls (kh_classes h), kh_last_failure := now\<rparr>"

definition open_time :: "health_policy \<Rightarrow> string \<Rightarrow> string \<Rightarrow> key_health \<Rightarrow> duration" where
  "open_time p key cls h =
     (case hp_backoff p of
        None \<Rightarrow> hp_open p
      | Some f \<Rightarrow> f \<lparr>fi_key = key, fi_class = cls, fi_streak = kh_streak h,
                     fi_class_failures = counter (kh_classes h) cls\<rparr>)"

definition open_circuit :: "health_policy \<Rightarrow> string \<Rightarrow> string \<Rightarrow> gtime \<Rightarrow> key_health \<Rightarrow> key_health" where
  "open_circuit p key cls now h =
     (if kh_streak h < hp_threshold p then h
      else
        (let open_for = open_time p key cls h
         in if 0 < open_for then h\<lparr>kh_open_until := later (kh_open_until h) (now + open_for)\<rparr> else h))"

definition tracker_fail :: "string \<Rightarrow> health_policy \<Rightarrow> string \<Rightarrow> gtime \<Rightarrow> tracker \<Rightarrow> tracker" where
  "tracker_fail key p cls now st =
     st(key \<mapsto> open_circuit p key cls now (extend_streak cls now (forget_streak p now (tracker_state st key))))"

definition tracker_record :: "health_config \<Rightarrow> gtime \<Rightarrow> string \<Rightarrow> go_err option \<Rightarrow> tracker \<Rightarrow> tracker" where
  "tracker_record cfg now key err st =
     (let ob = hc_observe cfg err;
          p = hc_policy cfg key;
          st1 = (case ob_effect ob of
                   EffectSuccess \<Rightarrow> tracker_succeed key now st
                 | EffectFailure \<Rightarrow> (if 0 < hp_threshold p then tracker_fail key p (ob_class ob) now st else st)
                 | EffectNeutral \<Rightarrow> st)
      in if 0 < ob_retry_after ob \<and> \<not> hp_ignore_retry p
         then (let h = tracker_state st1 key
               in st1(key \<mapsto> h\<lparr>kh_cool_until := later (kh_cool_until h) (now + ob_retry_after ob)\<rparr>))
         else st1)"

definition tracker_until :: "health_policy \<Rightarrow> key_health \<Rightarrow> gtime" where
  "tracker_until p h =
     (let u = (if 0 < hp_threshold p then kh_open_until h else 0)
      in if \<not> hp_ignore_retry p then later u (kh_cool_until h) else u)"

definition tracker_available :: "health_config \<Rightarrow> gtime \<Rightarrow> string \<Rightarrow> tracker \<Rightarrow> bool \<times> gtime" where
  "tracker_available cfg now key st =
     (case st key of
        None \<Rightarrow> (True, 0)
      | Some h \<Rightarrow>
          (let u = tracker_until (hc_policy cfg key) h
           in if now < u then (False, u) else (True, 0)))"

text \<open>\<^verbatim>\<open>State\<close>: the copy of a key's state a product reads.\<close>

definition tracker_health_state :: "string \<Rightarrow> tracker \<Rightarrow> key_health" where
  "tracker_health_state key st = tracker_state st key"

definition tracker_reset :: "string \<Rightarrow> tracker \<Rightarrow> tracker" where
  "tracker_reset key st = st(key := None)"

text \<open>A run of outcomes of one key, each with the instant the clock returned.\<close>

fun tracker_run :: "health_config \<Rightarrow> string \<Rightarrow> (gtime \<times> go_err option) list \<Rightarrow> tracker \<Rightarrow> tracker" where
  "tracker_run cfg key [] st = st"
| "tracker_run cfg key ((now, err) # es) st = tracker_run cfg key es (tracker_record cfg now key err st)"

subsection \<open>The invariant of a key's state\<close>

definition key_wf :: "key_health \<Rightarrow> bool" where
  "key_wf h \<longleftrightarrow>
     distinct (map fst (kh_classes h)) \<and> total (kh_classes h) = kh_streak h \<and> 0 \<le> kh_streak h \<and>
     (kh_streak h = 0 \<longrightarrow> kh_classes h = [] \<and> kh_last_failure h = 0 \<and> kh_open_until h = 0)"

definition tracker_wf :: "tracker \<Rightarrow> bool" where
  "tracker_wf st \<longleftrightarrow> (\<forall>k h. st k = Some h \<longrightarrow> key_wf h)"

lemma later_ge [simp]: "a \<le> later a b" "b \<le> later a b"
  by (simp_all add: later_def)

lemma later_max: "later a b = max a b"
  by (simp add: later_def)

lemma key_wf_new [simp]: "key_wf new_key_health" "key_wf (new_key_health\<lparr>kh_cool_until := t\<rparr>)"
  by (simp_all add: key_wf_def new_key_health_def)

lemma key_wf_cool [simp]: "key_wf (h\<lparr>kh_cool_until := t\<rparr>) = key_wf h"
  by (simp add: key_wf_def)

lemma key_wf_state: "tracker_wf st \<Longrightarrow> key_wf (tracker_state st key)"
  by (auto simp: tracker_wf_def tracker_state_def split: option.split)

lemma key_wf_fail: "key_wf h \<Longrightarrow> key_wf (open_circuit p key cls now (extend_streak cls now (forget_streak p now h)))"
  by (auto simp: key_wf_def open_circuit_def extend_streak_def forget_streak_def Let_def)

lemma tracker_wf_update: "tracker_wf st \<Longrightarrow> key_wf h \<Longrightarrow> tracker_wf (st(key \<mapsto> h))"
  by (simp add: tracker_wf_def)

lemma tracker_wf_delete: "tracker_wf st \<Longrightarrow> tracker_wf (st(key := None))"
  by (simp add: tracker_wf_def)

lemma tracker_wf_succeed: "tracker_wf st \<Longrightarrow> tracker_wf (tracker_succeed key now st)"
  by (auto simp: tracker_succeed_def tracker_wf_def split: option.split)

lemma tracker_wf_fail: "tracker_wf st \<Longrightarrow> tracker_wf (tracker_fail key p cls now st)"
  by (simp add: tracker_fail_def tracker_wf_update key_wf_fail key_wf_state)

lemmas tracker_wf_intros =
  tracker_wf_update tracker_wf_delete tracker_wf_succeed tracker_wf_fail key_wf_state

lemma tracker_wf_record: "tracker_wf st \<Longrightarrow> tracker_wf (tracker_record cfg now key err st)"
  by (auto simp: tracker_record_def Let_def intro!: tracker_wf_intros split: effect.split)

lemma tracker_wf_run: "tracker_wf st \<Longrightarrow> tracker_wf (tracker_run cfg key es st)"
  by (induction cfg key es st rule: tracker_run.induct) (simp_all add: tracker_wf_record)

subsection \<open>Frames and deadlines\<close>

lemma tracker_record_other [simp]: "k \<noteq> key \<Longrightarrow> tracker_record cfg now key err st k = st k"
  by (auto simp: tracker_record_def Let_def tracker_succeed_def tracker_fail_def
      split: effect.split option.split)

lemma tracker_available_other:
  "k \<noteq> key \<Longrightarrow> tracker_available cfg t k (tracker_record cfg now key err st) = tracker_available cfg t k st"
  by (simp add: tracker_available_def)

lemma fail_open_mono:
  "kh_open_until h \<le> kh_open_until (open_circuit p key cls now (extend_streak cls now (forget_streak p now h)))"
  "kh_cool_until (open_circuit p key cls now (extend_streak cls now (forget_streak p now h))) = kh_cool_until h"
  by (simp_all add: open_circuit_def extend_streak_def forget_streak_def Let_def)

lemma record_cool_mono:
  assumes "st key = Some h"
  shows "now < kh_cool_until h \<Longrightarrow>
     \<exists>h'. tracker_record cfg now key err st key = Some h' \<and> kh_cool_until h \<le> kh_cool_until h'"
  using assms
  by (auto simp: tracker_record_def Let_def tracker_succeed_def tracker_fail_def tracker_state_def
      fail_open_mono split: effect.split)

lemma record_open_mono:
  assumes "st key = Some h" and "ob_effect (hc_observe cfg err) \<noteq> EffectSuccess"
  shows "\<exists>h'. tracker_record cfg now key err st key = Some h' \<and> kh_open_until h \<le> kh_open_until h'"
  using assms
  by (cases "ob_effect (hc_observe cfg err)")
    (auto simp: tracker_record_def Let_def tracker_fail_def tracker_state_def fail_open_mono)

lemma tracker_until_mono:
  "kh_open_until h \<le> kh_open_until h' \<Longrightarrow> kh_cool_until h \<le> kh_cool_until h' \<Longrightarrow>
     tracker_until p h \<le> tracker_until p h'"
  by (auto simp: tracker_until_def later_max)

subsection \<open>The interface an executor relies on\<close>

text \<open>
  \<^verbatim>\<open>Health\<close>: a refusal names the instant from which the key is available again, it refuses
  until then and admits from then on, an admission names no instant, and recording the outcome of
  one key leaves the others alone.
\<close>

locale health_contract =
  fixes avail :: "gtime \<Rightarrow> string \<Rightarrow> 'h \<Rightarrow> bool \<times> gtime"
    and rec :: "gtime \<Rightarrow> string \<Rightarrow> go_err option \<Rightarrow> 'h \<Rightarrow> 'h"
  assumes avail_frame: "k \<noteq> key \<Longrightarrow> avail t k (rec now key err h) = avail t k h"
    and refused_before: "avail t k h = (False, u) \<Longrightarrow> t < u"
    and refused_until: "avail t k h = (False, u) \<Longrightarrow> t' < u \<Longrightarrow> avail t' k h = (False, u)"
    and admitted_from: "avail t k h = (False, u) \<Longrightarrow> u \<le> t' \<Longrightarrow> avail t' k h = (True, 0)"
    and admitted_zero: "avail t k h = (True, u) \<Longrightarrow> u = 0"
begin

fun rec_all :: "(gtime \<times> string \<times> go_err option) list \<Rightarrow> 'h \<Rightarrow> 'h" where
  "rec_all [] h = h"
| "rec_all ((now, key, err) # es) h = rec_all es (rec now key err h)"

lemma avail_rec_all: "k \<notin> (fst \<circ> snd) ` set es \<Longrightarrow> avail t k (rec_all es h) = avail t k h"
  by (induction es h rule: rec_all.induct) (auto simp: avail_frame)

lemma refusal_exact:
  "avail t k h = (False, u) \<Longrightarrow> fst (avail t' k h) \<longleftrightarrow> u \<le> t'"
  using admitted_from [of t k h u t'] refused_until [of t k h u t'] by (cases "t' < u") auto

end

lemma tracker_available_refused:
  "tracker_available cfg t k st = (False, u) \<longleftrightarrow>
     (\<exists>h. st k = Some h \<and> u = tracker_until (hc_policy cfg k) h \<and> t < u)"
  by (auto simp: tracker_available_def Let_def split: option.splits if_splits)

lemma tracker_available_admitted:
  "tracker_available cfg t k st = (True, u) \<longleftrightarrow>
     u = 0 \<and> (\<forall>h. st k = Some h \<longrightarrow> tracker_until (hc_policy cfg k) h \<le> t)"
  by (auto simp: tracker_available_def Let_def split: option.splits if_splits)

interpretation tracker: health_contract "tracker_available cfg" "tracker_record cfg"
  for cfg :: health_config
  by unfold_locales
    (auto simp: tracker_available_other tracker_available_refused tracker_available_admitted)

subsection \<open>Reachable trackers\<close>

inductive tracker_reach :: "health_config \<Rightarrow> tracker \<Rightarrow> bool" for cfg where
  reach_new: "tracker_reach cfg Map.empty"
| reach_record: "tracker_reach cfg st \<Longrightarrow> tracker_reach cfg (tracker_record cfg now key err st)"
| reach_reset: "tracker_reach cfg st \<Longrightarrow> tracker_reach cfg (tracker_reset key st)"

lemma tracker_reach_wf: "tracker_reach cfg st \<Longrightarrow> tracker_wf st"
proof (induction rule: tracker_reach.induct)
  case reach_new
  show ?case by (simp add: tracker_wf_def)
next
  case (reach_record st now key err)
  then show ?case by (simp add: tracker_wf_record)
next
  case (reach_reset st key)
  then show ?case unfolding tracker_reset_def by (simp only: tracker_wf_delete)
qed

lemma tracker_reach_run: "tracker_reach cfg st \<Longrightarrow> tracker_reach cfg (tracker_run cfg key es st)"
  by (induction cfg key es st rule: tracker_run.induct) (simp_all add: reach_record)

subsection \<open>Runs of failures\<close>

definition failing :: "health_config \<Rightarrow> go_err option \<Rightarrow> bool" where
  "failing cfg err \<longleftrightarrow> ob_effect (hc_observe cfg err) = EffectFailure \<and> ob_retry_after (hc_observe cfg err) \<le> 0"

definition plain_policy :: "health_policy \<Rightarrow> bool" where
  "plain_policy p \<longleftrightarrow> 0 < hp_threshold p \<and> 0 < hp_open p \<and> hp_backoff p = None \<and> hp_window p \<le> 0"

lemma tracker_run_append: "tracker_run cfg key (xs @ ys) st = tracker_run cfg key ys (tracker_run cfg key xs st)"
  by (induction cfg key xs st rule: tracker_run.induct) auto

lemma record_failing:
  assumes "failing cfg err" and "plain_policy (hc_policy cfg key)"
  shows "tracker_record cfg now key err st key =
    Some (open_circuit (hc_policy cfg key) key (ob_class (hc_observe cfg err)) now
      (extend_streak (ob_class (hc_observe cfg err)) now (tracker_state st key)))"
  using assms
  by (simp add: tracker_record_def tracker_fail_def failing_def plain_policy_def forget_streak_def Let_def)

lemma failing_run_state:
  assumes plain: "plain_policy (hc_policy cfg key)" and fresh: "st key = None"
  shows "es \<noteq> [] \<Longrightarrow> \<forall>(t, err)\<in>set es. failing cfg err \<Longrightarrow> sorted (map fst es) \<Longrightarrow>
     0 \<le> fst (hd es) \<Longrightarrow>
     \<exists>h. tracker_run cfg key es st key = Some h \<and> kh_streak h = int (length es) \<and>
       kh_last_failure h = fst (last es) \<and> kh_cool_until h = 0 \<and>
       kh_open_until h =
         (if hp_threshold (hc_policy cfg key) \<le> int (length es)
          then fst (last es) + hp_open (hc_policy cfg key) else 0)"
proof (induction es rule: rev_induct)
  case Nil
  then show ?case by simp
next
  case (snoc x es)
  obtain t err where x: "x = (t, err)" by (cases x)
  have f: "failing cfg err" using snoc.prems(2) x by auto
  note step = record_failing [OF f plain, of t]
  show ?case
  proof (cases "es = []")
    case True
    with x fresh f plain snoc.prems(4) show ?thesis
      by (simp add: step tracker_state_def new_key_health_def extend_streak_def open_circuit_def
          open_time_def plain_policy_def later_def Let_def)
  next
    case False
    with snoc.prems have "\<forall>(t, err)\<in>set es. failing cfg err" "sorted (map fst es)" "0 \<le> fst (hd es)"
      by (auto simp: sorted_append)
    with snoc.IH False obtain h where h: "tracker_run cfg key es st key = Some h"
      and len: "kh_streak h = int (length es)" and cool: "kh_cool_until h = 0"
      and lastf: "kh_last_failure h = fst (last es)"
      and opn: "kh_open_until h = (if hp_threshold (hc_policy cfg key) \<le> int (length es)
          then fst (last es) + hp_open (hc_policy cfg key) else 0)"
      by blast
    have "fst (last es) \<le> t" and "0 \<le> t"
      using snoc.prems(3,4) False x by (auto simp: sorted_append hd_append)
        (metis last_in_set list.set_sel(1) order_trans)+
    with h len opn cool x plain show ?thesis
      by (auto simp: tracker_run_append step tracker_state_def extend_streak_def open_circuit_def
          open_time_def plain_policy_def later_def Let_def)
  qed
qed

subsection \<open>Properties\<close>

text \<open>
  C36. In every state a health tracker can reach, a key's class counters add up to its streak, no
  class is listed twice, and a key without a streak holds no circuit deadline and no failure time.
\<close>
theorem tracker_reachable_invariant:
  "tracker_reach cfg st \<Longrightarrow> st key = Some h \<Longrightarrow>
     total (kh_classes h) = kh_streak h \<and> distinct (map fst (kh_classes h)) \<and> 0 \<le> kh_streak h \<and>
     (kh_streak h = 0 \<longrightarrow> kh_classes h = [] \<and> kh_last_failure h = 0 \<and> kh_open_until h = 0)"
  using tracker_reach_wf [of cfg st] by (simp add: tracker_wf_def key_wf_def)

definition demo_config :: health_config where
  "demo_config = fst (new_health_tracker \<lparr>ho_policy = None, ho_observe = None\<rparr>)"

definition transport_failure :: go_err where
  "transport_failure = OperationErr ''dial'' 0 [] 0 (Some (Sentinel ''connection refused''))"

lemma demo_config_sel [simp]:
  "hc_policy demo_config k = default_health_policy" "hc_observe demo_config = observe"
  by (simp_all add: demo_config_def new_health_tracker_def)

lemma observe_transport_failure [simp]:
  "observe (Some transport_failure) = \<lparr>ob_effect = EffectFailure, ob_class = [], ob_retry_after = 0\<rparr>"
  by (simp add: observe_def transport_failure_def operation_classification_def failure_verdict_def)

theorem tracker_reachable_invariant_witness:
  "total [([], 1)] = (1::int) \<and>
   (\<exists>h. tracker_record demo_config 7 ''openai'' (Some transport_failure) Map.empty ''openai'' = Some h \<and>
      kh_streak h = 1 \<and> total (kh_classes h) = 1)"
proof -
  let ?st = "tracker_record demo_config 7 ''openai'' (Some transport_failure) Map.empty"
  have r: "tracker_reach demo_config ?st"
    by (intro tracker_reach.intros)
  obtain h where h: "?st ''openai'' = Some h" and s: "kh_streak h = 1"
    by (simp add: tracker_record_def tracker_fail_def tracker_state_def new_key_health_def
        forget_streak_def extend_streak_def open_circuit_def default_health_policy_def
        default_failure_threshold_def is_zero_time_def Let_def)
  show ?thesis
    using tracker_reachable_invariant [OF r h] h s by (simp add: total_def)
qed

text \<open>
  C20. The circuit of a key opens exactly when the streak of failures reaches the threshold: from a
  key without state and under a policy with a fixed open time, the key stays available after fewer
  failures, and after at least that many it is refused until the last failure's instant plus the
  open time, and admitted from then on.
\<close>
theorem circuit_opens_at_threshold:
  assumes "plain_policy (hc_policy cfg key)" and "st key = None" and "es \<noteq> []"
    and "\<forall>(t, err)\<in>set es. failing cfg err" and "sorted (map fst es)" and "0 \<le> fst (hd es)" and "0 \<le> now"
  shows "fst (tracker_available cfg now key (tracker_run cfg key es st)) \<longleftrightarrow>
     int (length es) < hp_threshold (hc_policy cfg key) \<or>
     fst (last es) + hp_open (hc_policy cfg key) \<le> now"
proof -
  obtain h where h: "tracker_run cfg key es st key = Some h"
    and "kh_cool_until h = 0"
    and "kh_open_until h = (if hp_threshold (hc_policy cfg key) \<le> int (length es)
          then fst (last es) + hp_open (hc_policy cfg key) else 0)"
    using failing_run_state [OF assms(1), of st es] assms(2-6) by blast
  moreover have "0 \<le> fst (last es)"
    using assms(3,5,6) by (cases es) (auto intro: order_trans last_in_set)
  ultimately show ?thesis
    using assms(1,7) by (auto simp: tracker_available_def tracker_until_def plain_policy_def later_def Let_def)
qed

theorem circuit_opens_at_threshold_witness:
  "fst (tracker_available demo_config 30000000004 ''openai''
      (tracker_run demo_config ''openai'' (replicate 5 (5, Some transport_failure)) Map.empty)) = False \<and>
   fst (tracker_available demo_config 30000000005 ''openai''
      (tracker_run demo_config ''openai'' (replicate 5 (5, Some transport_failure)) Map.empty)) = True"
proof -
  have p: "plain_policy (hc_policy demo_config ''openai'')"
    by (simp add: plain_policy_def default_health_policy_def default_failure_threshold_def
        default_open_duration_def)
  have f: "\<forall>(t, err)\<in>set (replicate 5 (5::int, Some transport_failure)). failing demo_config err"
    by (simp add: failing_def)
  note c = circuit_opens_at_threshold [OF p, of Map.empty "replicate 5 (5, Some transport_failure)", OF _ _ f]
  show ?thesis
    using c [of 30000000004] c [of 30000000005]
    by (simp add: default_health_policy_def default_failure_threshold_def default_open_duration_def
        eval_nat_numeral)
qed

text \<open>
  A success ends the streak and closes the circuit at once, but a running cooldown keeps its
  course: the key's state is exactly the cooldown that has not ended, or nothing, so it is available
  from the cooldown's end on (at once without one).
\<close>
theorem success_closes_circuit:
  assumes "ob_effect (hc_observe cfg err) = EffectSuccess" and "ob_retry_after (hc_observe cfg err) \<le> 0"
    and "st key = Some h" and "0 \<le> now" and "now \<le> t"
  shows "tracker_record cfg now key err st key =
       (if now < kh_cool_until h then Some (new_key_health\<lparr>kh_cool_until := kh_cool_until h\<rparr>) else None)
     \<and> fst (tracker_available cfg t key (tracker_record cfg now key err st)) =
       (hp_ignore_retry (hc_policy cfg key) \<or> kh_cool_until h \<le> t)"
  using assms
  by (auto simp: tracker_record_def tracker_succeed_def tracker_available_def tracker_until_def
      new_key_health_def later_def Let_def)

theorem success_closes_circuit_witness:
  "tracker_record demo_config 50 ''openai'' None
     [''openai'' \<mapsto> new_key_health\<lparr>kh_open_until := 900, kh_cool_until := 60\<rparr>] ''openai'' =
     Some (new_key_health\<lparr>kh_cool_until := 60\<rparr>)"
  using success_closes_circuit [of demo_config None
      "[''openai'' \<mapsto> new_key_health\<lparr>kh_open_until := 900, kh_cool_until := 60\<rparr>]" "''openai''"
      "new_key_health\<lparr>kh_open_until := 900, kh_cool_until := 60\<rparr>" 50 50]
  by (simp add: observe_def new_key_health_def)

text \<open>
  A deadline only moves later: whatever is recorded for a key, a running cooldown is never
  shortened, and nothing but a success takes an open circuit's deadline back; no outcome of another
  key changes either.
\<close>
theorem deadlines_only_move_later:
  assumes "st key = Some h"
  shows "(now < kh_cool_until h \<longrightarrow>
       (\<exists>h'. tracker_record cfg now k err st key = Some h' \<and> kh_cool_until h \<le> kh_cool_until h')) \<and>
     (ob_effect (hc_observe cfg err) \<noteq> EffectSuccess \<longrightarrow>
       (\<exists>h'. tracker_record cfg now k err st key = Some h' \<and> kh_open_until h \<le> kh_open_until h')) \<and>
     (k \<noteq> key \<longrightarrow> tracker_available cfg t key (tracker_record cfg now k err st) = tracker_available cfg t key st)"
  using assms record_cool_mono [of st key h now cfg err] record_open_mono [of st key h cfg err now]
    tracker.avail_frame [of key k cfg t now err st]
  by (cases "k = key") auto

theorem deadlines_only_move_later_witness:
  "\<exists>h'. tracker_record demo_config 50 ''openai'' (Some transport_failure)
      [''openai'' \<mapsto> new_key_health\<lparr>kh_cool_until := 60\<rparr>] ''openai'' = Some h' \<and> 60 \<le> kh_cool_until h'"
  using deadlines_only_move_later [of "[''openai'' \<mapsto> new_key_health\<lparr>kh_cool_until := 60\<rparr>]" "''openai''"
      "new_key_health\<lparr>kh_cool_until := 60\<rparr>" 50 demo_config "''openai''" "Some transport_failure" 0]
  by simp

text \<open>
  How the default observation reads an operation error the caller did not cancel: the circuit
  counts every status except a clean 2xx, 401, 403 and 429, so a definitive rejection such as 400 or
  404 extends the streak, and a 429 ends it without starting a cooldown even when the failure
  carries a \<^verbatim>\<open>Retry-After\<close>.
\<close>
theorem observe_operation_error:
  assumes "\<not> canceled (OperationErr op status retry_after t cause)"
  shows "observe (Some (OperationErr op status retry_after t cause)) =
     \<lparr>ob_effect =
        (if status \<in> {401, 403, 429} \<or> (200 \<le> status \<and> status < 300 \<and> cause = None)
         then EffectSuccess else EffectFailure),
      ob_class = [], ob_retry_after = 0\<rparr>"
  using assms
  by (auto simp: observe_def operation_classification_def failure_verdict_def Let_def simp del: canceled_simps)

theorem observe_operation_error_witness:
  "ob_effect (observe (Some (OperationErr ''chat'' 400 [] 0 None))) = EffectFailure \<and>
   observe (Some (OperationErr ''chat'' 429 ''30'' 0 None)) =
     \<lparr>ob_effect = EffectSuccess, ob_class = [], ob_retry_after = 0\<rparr>"
  using observe_operation_error [of "''chat''" 400 "[]" 0 None]
    observe_operation_error [of "''chat''" 429 "''30''" 0 None]
  by simp

end
