(* ===== verification/Routing.thy ===== *)
theory Routing
  imports Health
begin

text \<open>
  \<^verbatim>\<open>router/router.go\<close>: the older circuit breaker and the router that turns a requested model
  into ordered targets. \<^verbatim>\<open>CircuitBreaker\<close> has one method call per lock, so each is one step; the
  policy gate is a function argument, and \<open>now\<close> gives the instant of each breaker check. The last
  part relates the breaker to the health tracker that replaces it.
\<close>

subsection \<open>The circuit breaker\<close>

record breaker =
  cb_failures :: "string \<rightharpoonup> int"
  cb_last_failure :: "string \<rightharpoonup> gtime"
  cb_threshold :: int
  cb_cooldown :: duration

definition new_circuit_breaker :: "int \<Rightarrow> duration \<Rightarrow> breaker" where
  "new_circuit_breaker threshold cooldown =
     \<lparr>cb_failures = Map.empty, cb_last_failure = Map.empty,
      cb_threshold = (if threshold \<le> 0 then 5 else threshold),
      cb_cooldown = (if cooldown \<le> 0 then seconds 30 else cooldown)\<rparr>"

definition breaker_allow :: "gtime \<Rightarrow> string \<Rightarrow> breaker \<Rightarrow> bool" where
  "breaker_allow now p cb =
     (let fails = (case cb_failures cb p of None \<Rightarrow> 0 | Some n \<Rightarrow> n) in
      if fails < cb_threshold cb then True
      else
        (let recent = (case cb_last_failure cb p of None \<Rightarrow> 0 | Some t \<Rightarrow> t)
         in cb_cooldown cb < time_sub now recent))"

definition record_success :: "string \<Rightarrow> breaker \<Rightarrow> breaker" where
  "record_success p cb =
     cb\<lparr>cb_failures := (cb_failures cb)(p := None), cb_last_failure := (cb_last_failure cb)(p := None)\<rparr>"

definition record_failure :: "gtime \<Rightarrow> string \<Rightarrow> breaker \<Rightarrow> breaker" where
  "record_failure now p cb =
     cb\<lparr>cb_failures :=
          (cb_failures cb)(p \<mapsto> (case cb_failures cb p of None \<Rightarrow> 0 | Some n \<Rightarrow> n) + 1),
        cb_last_failure := (cb_last_failure cb)(p \<mapsto> now)\<rparr>"

definition record_result :: "gtime \<Rightarrow> string \<Rightarrow> go_err option \<Rightarrow> breaker \<Rightarrow> breaker" where
  "record_result now p err cb = (if err = None then record_success p cb else record_failure now p cb)"

fun run_results :: "(gtime \<times> string \<times> go_err option) list \<Rightarrow> breaker \<Rightarrow> breaker" where
  "run_results [] cb = cb"
| "run_results ((now, p, err) # es) cb = run_results es (record_result now p err cb)"

subsection \<open>The router\<close>

record 'p router =
  rt_routes :: "string \<rightharpoonup> target list"
  rt_breaker :: breaker
  rt_policy :: "'p \<Rightarrow> target \<Rightarrow> bool \<times> string"

definition new_router ::
    "(string \<rightharpoonup> target list) \<Rightarrow> ('p \<Rightarrow> target \<Rightarrow> bool \<times> string) option \<Rightarrow> 'p router" where
  "new_router routes policy =
     \<lparr>rt_routes = routes, rt_breaker = new_circuit_breaker 5 (seconds 30),
      rt_policy = (case policy of None \<Rightarrow> (\<lambda>_ _. (True, [])) | Some p \<Rightarrow> p)\<rparr>"

record resolution =
  rs_targets :: "target list"
  rs_category :: string

datatype route_error = NoAvailableTargets string | AccessDenied target string

fun route_candidates :: "(nat \<Rightarrow> gtime) \<Rightarrow> 'p router \<Rightarrow> 'p \<Rightarrow> nat \<Rightarrow> target list \<Rightarrow> target list" where
  "route_candidates now r who i [] = []"
| "route_candidates now r who i (t # ts) =
     (if \<not> breaker_allow (now i) (tg_provider t) (rt_breaker r)
      then route_candidates now r who (Suc i) ts
      else if fst (rt_policy r who t) then t # route_candidates now r who (Suc i) ts
      else route_candidates now r who (Suc i) ts)"

definition direct_target :: "string \<Rightarrow> target" where
  "direct_target requested =
     (case cut_byte CHR ''/'' requested of
        Some (provider, model) \<Rightarrow> \<lparr>tg_provider = provider, tg_model = model\<rparr>
      | None \<Rightarrow> \<lparr>tg_provider = ''default'', tg_model = requested\<rparr>)"

definition resolve_resolution ::
    "(nat \<Rightarrow> gtime) \<Rightarrow> 'p router \<Rightarrow> 'p \<Rightarrow> string \<Rightarrow> route_error + resolution" where
  "resolve_resolution now r who requested =
     (case rt_routes r requested of
        Some targets \<Rightarrow>
          (let candidates = route_candidates now r who 0 targets in
           if candidates = [] then Inl (NoAvailableTargets requested)
           else Inr \<lparr>rs_targets = candidates, rs_category = requested\<rparr>)
      | None \<Rightarrow>
          (let t = direct_target requested in
           case rt_policy r who t of
             (allowed, reason) \<Rightarrow>
               if \<not> allowed then Inl (AccessDenied t reason)
               else Inr \<lparr>rs_targets = [t], rs_category = []\<rparr>))"

definition router_resolve :: "(nat \<Rightarrow> gtime) \<Rightarrow> 'p router \<Rightarrow> 'p \<Rightarrow> string \<Rightarrow> route_error + target list" where
  "router_resolve now r who requested =
     (case resolve_resolution now r who requested of
        Inl e \<Rightarrow> Inl e
      | Inr res \<Rightarrow> Inr (rs_targets res))"

definition router_record :: "gtime \<Rightarrow> string \<Rightarrow> go_err option \<Rightarrow> 'p router \<Rightarrow> 'p router" where
  "router_record now p err r = r\<lparr>rt_breaker := record_result now p err (rt_breaker r)\<rparr>"

subsection \<open>Facts about routing\<close>

lemma route_candidates_mem:
  "t \<in> set (route_candidates now r who i ts) \<Longrightarrow>
     t \<in> set ts \<and> fst (rt_policy r who t) \<and>
     (\<exists>j. breaker_allow (now j) (tg_provider t) (rt_breaker r))"
  by (induction ts arbitrary: i) (auto split: if_splits)

lemma route_candidates_const:
  "route_candidates (\<lambda>_. t) r who i ts =
     filter (\<lambda>x. breaker_allow t (tg_provider x) (rt_breaker r) \<and> fst (rt_policy r who x)) ts"
  by (induction ts arbitrary: i) auto

lemma direct_target_slash:
  "CHR ''/'' \<notin> set p \<Longrightarrow> direct_target (p @ CHR ''/'' # m) = \<lparr>tg_provider = p, tg_model = m\<rparr>"
  using cut_byte_Some [of "CHR ''/''" "p @ CHR ''/'' # m" p m] by (simp add: direct_target_def)

lemma direct_target_plain:
  "CHR ''/'' \<notin> set m \<Longrightarrow> direct_target m = \<lparr>tg_provider = ''default'', tg_model = m\<rparr>"
  using cut_byte_None [of "CHR ''/''" m] by (simp add: direct_target_def)

subsection \<open>The breaker and the tracker\<close>

text \<open>
  A tracker that reads every error as a failure, under the breaker's threshold and cooldown. The
  relation holds between the two after the same results; \<open>bound\<close> is an instant none of the failures
  is after.
\<close>

definition breaker_config :: "int \<Rightarrow> duration \<Rightarrow> health_config" where
  "breaker_config threshold cooldown =
     \<lparr>hc_policy = (\<lambda>_. \<lparr>hp_threshold = threshold, hp_open = cooldown, hp_backoff = None, hp_window = 0,
                        hp_ignore_retry = False\<rparr>),
      hc_observe = (\<lambda>err. \<lparr>ob_effect = (if err = None then EffectSuccess else EffectFailure),
                           ob_class = [], ob_retry_after = 0\<rparr>)\<rparr>"

definition key_sim :: "int \<Rightarrow> duration \<Rightarrow> gtime \<Rightarrow> int option \<Rightarrow> gtime option \<Rightarrow> key_health option \<Rightarrow> bool" where
  "key_sim threshold cooldown bound failures recent ho \<longleftrightarrow>
     (case ho of
        None \<Rightarrow> failures = None \<and> recent = None
      | Some h \<Rightarrow>
          failures = Some (kh_streak h) \<and> recent = Some (kh_last_failure h) \<and> 1 \<le> kh_streak h \<and>
          0 \<le> kh_last_failure h \<and> kh_last_failure h \<le> bound \<and> kh_cool_until h = 0 \<and>
          kh_open_until h = (if threshold \<le> kh_streak h then kh_last_failure h + cooldown else 0))"

definition breaker_sim :: "gtime \<Rightarrow> breaker \<Rightarrow> tracker \<Rightarrow> bool" where
  "breaker_sim bound cb st \<longleftrightarrow>
     0 < cb_threshold cb \<and> 0 < cb_cooldown cb \<and>
     (\<forall>k. key_sim (cb_threshold cb) (cb_cooldown cb) bound (cb_failures cb k) (cb_last_failure cb k) (st k))"

lemma key_sim_later: "key_sim thr cd b f l ho \<Longrightarrow> b \<le> b' \<Longrightarrow> key_sim thr cd b' f l ho"
  by (auto simp: key_sim_def split: option.splits)

lemma record_result_settings [simp]:
  "cb_threshold (record_result now p err cb) = cb_threshold cb"
  "cb_cooldown (record_result now p err cb) = cb_cooldown cb"
  by (simp_all add: record_result_def record_success_def record_failure_def)

lemma run_results_settings [simp]:
  "cb_threshold (run_results es cb) = cb_threshold cb" "cb_cooldown (run_results es cb) = cb_cooldown cb"
  by (induction es cb rule: run_results.induct) simp_all

lemma breaker_sim_succeed:
  assumes "breaker_sim b cb st" and "0 \<le> now"
  shows "tracker_succeed p now st = st(p := None)"
proof (cases "st p")
  case None
  then show ?thesis by (auto simp: tracker_succeed_def)
next
  case (Some h)
  have "key_sim (cb_threshold cb) (cb_cooldown cb) b (cb_failures cb p) (cb_last_failure cb p) (st p)"
    using assms(1) by (simp add: breaker_sim_def)
  with Some assms(2) show ?thesis
    by (simp add: tracker_succeed_def key_sim_def)
qed

lemma breaker_sim_success:
  assumes "breaker_sim b cb st" and "b \<le> now" and "0 \<le> b"
  shows "breaker_sim now (record_success p cb) (tracker_succeed p now st)"
proof -
  have k: "key_sim (cb_threshold cb) (cb_cooldown cb) now (cb_failures cb j) (cb_last_failure cb j) (st j)" for j
    using assms(1,2) by (auto simp: breaker_sim_def intro: key_sim_later)
  have "key_sim (cb_threshold cb) (cb_cooldown cb) now None None None"
    by (simp add: key_sim_def)
  with k assms show ?thesis
    by (simp add: breaker_sim_def record_success_def breaker_sim_succeed [OF assms(1)])
qed

lemma key_sim_fail:
  assumes "key_sim thr cd b f l ho" and "b \<le> now" and "0 \<le> b" and "0 < thr" and "0 < cd"
    and p: "p = \<lparr>hp_threshold = thr, hp_open = cd, hp_backoff = None, hp_window = 0, hp_ignore_retry = False\<rparr>"
  shows "key_sim thr cd now (Some ((case f of None \<Rightarrow> 0 | Some n \<Rightarrow> n) + 1)) (Some now)
    (Some (open_circuit p key [] now (extend_streak [] now
       (forget_streak p now (case ho of None \<Rightarrow> new_key_health | Some h \<Rightarrow> h)))))"
  using assms
  by (cases ho)
    (auto simp: key_sim_def open_circuit_def extend_streak_def forget_streak_def open_time_def
      new_key_health_def later_def Let_def)

lemma breaker_sim_failure:
  assumes "breaker_sim b cb st" and "b \<le> now" and "0 \<le> b"
    and p: "p = \<lparr>hp_threshold = cb_threshold cb, hp_open = cb_cooldown cb, hp_backoff = None,
                hp_window = 0, hp_ignore_retry = False\<rparr>"
  shows "breaker_sim now (record_failure now k cb) (tracker_fail k p [] now st)"
proof -
  have *: "key_sim (cb_threshold cb) (cb_cooldown cb) b (cb_failures cb j) (cb_last_failure cb j) (st j)"
    and "0 < cb_threshold cb" "0 < cb_cooldown cb" for j
    using assms(1) by (simp_all add: breaker_sim_def)
  then show ?thesis
    using key_sim_fail [OF * assms(2,3) _ _ p, of k] key_sim_later [OF * assms(2)]
    by (simp add: breaker_sim_def record_failure_def tracker_fail_def tracker_state_def)
qed

lemma breaker_sim_result:
  assumes "breaker_sim b cb st" and "b \<le> now" and "0 \<le> b"
  shows "breaker_sim now (record_result now k err cb)
    (tracker_record (breaker_config (cb_threshold cb) (cb_cooldown cb)) now k err st)"
  using assms breaker_sim_success [OF assms] breaker_sim_failure [OF assms]
  by (cases err) (simp_all add: record_result_def tracker_record_def breaker_config_def breaker_sim_def)

lemma breaker_sim_run:
  assumes "breaker_sim b cb st" and "sorted (b # map fst es)" and "0 \<le> b"
  shows "\<exists>b'. b' = last (b # map fst es) \<and> breaker_sim b' (run_results es cb)
    (tracker.rec_all (breaker_config (cb_threshold cb) (cb_cooldown cb)) es st)"
  using assms
proof (induction es arbitrary: b cb st)
  case Nil
  then show ?case by simp
next
  case (Cons x es)
  obtain t k err where x: "x = (t, k, err)" by (cases x)
  with Cons.prems have "breaker_sim t (record_result t k err cb)
      (tracker_record (breaker_config (cb_threshold cb) (cb_cooldown cb)) t k err st)"
    by (intro breaker_sim_result) auto
  from Cons.IH [OF this] Cons.prems x show ?case by auto
qed

lemma breaker_sim_allow:
  assumes "breaker_sim b cb st" and "cb_cooldown cb < max_int64" and "0 < now"
  shows "breaker_allow now k cb \<longleftrightarrow>
    fst (tracker_available (breaker_config (cb_threshold cb) (cb_cooldown cb)) (now - 1) k st)"
proof -
  have *: "key_sim (cb_threshold cb) (cb_cooldown cb) b (cb_failures cb k) (cb_last_failure cb k) (st k)"
    and thr: "0 < cb_threshold cb" "0 < cb_cooldown cb"
    using assms(1) by (simp_all add: breaker_sim_def)
  have "cb_cooldown cb < time_sub now l \<longleftrightarrow> cb_cooldown cb < now - l" for l
    using thr assms(2) by (intro time_sub_gt_iff) (auto simp: min_int64_def)
  note since = this
  show ?thesis
  proof (cases "st k")
    case None
    with * thr show ?thesis
      by (simp add: key_sim_def breaker_allow_def tracker_available_def)
  next
    case (Some h)
    with * have "cb_failures cb k = Some (kh_streak h)" "cb_last_failure cb k = Some (kh_last_failure h)"
      "kh_cool_until h = 0" "0 \<le> kh_last_failure h"
      "kh_open_until h = (if cb_threshold cb \<le> kh_streak h then kh_last_failure h + cb_cooldown cb else 0)"
      by (simp_all add: key_sim_def)
    with Some thr assms(3) since show ?thesis
      by (auto simp: breaker_allow_def tracker_available_def tracker_until_def breaker_config_def
          later_def Let_def)
  qed
qed

subsection \<open>Properties\<close>

text \<open>
  C18. The tracker replaces the breaker: fed the same results in the order of their instants, the
  breaker admits a provider at an instant exactly when a tracker that counts every error, under the
  same threshold and cooldown, finds it available one nanosecond earlier. So the two differ only in
  the single instant the cooldown ends, where the breaker still refuses.
\<close>
theorem breaker_refines_tracker:
  assumes "sorted (0 # map fst es)" and "0 < now"
    and "cb = new_circuit_breaker threshold cooldown" and "cb_cooldown cb < max_int64"
  shows "breaker_allow now k (run_results es cb) \<longleftrightarrow>
    fst (tracker_available (breaker_config (cb_threshold cb) (cb_cooldown cb)) (now - 1) k
      (tracker.rec_all (breaker_config (cb_threshold cb) (cb_cooldown cb)) es Map.empty))"
proof -
  have "breaker_sim 0 cb Map.empty"
    using assms(3) by (simp add: breaker_sim_def new_circuit_breaker_def key_sim_def)
  from breaker_sim_run [OF this assms(1)] obtain b where
    "breaker_sim b (run_results es cb)
       (tracker.rec_all (breaker_config (cb_threshold cb) (cb_cooldown cb)) es Map.empty)"
    by blast
  from breaker_sim_allow [OF this, of now k] assms(2,4) show ?thesis by simp
qed

theorem breaker_refines_tracker_witness:
  "breaker_allow 12 ''openai''
     (run_results [(7, ''openai'', Some transport_failure)] (new_circuit_breaker 1 5)) = False \<and>
   fst (tracker_available (breaker_config 1 5) 11 ''openai''
     (tracker_record (breaker_config 1 5) 7 ''openai'' (Some transport_failure) Map.empty)) = False"
proof -
  have "\<not> breaker_allow 12 ''openai''
     (run_results [(7, ''openai'', Some transport_failure)] (new_circuit_breaker 1 5))"
    by (simp add: breaker_allow_def record_result_def record_failure_def new_circuit_breaker_def
        time_sub_def min_int64_def max_int64_def)
  then show ?thesis
    using breaker_refines_tracker [of "[(7, ''openai'', Some transport_failure)]" 12 "new_circuit_breaker 1 5" 1 5 "''openai''"]
    by (simp add: new_circuit_breaker_def max_int64_def)
qed

text \<open>
  Resolution is sound: a configured route yields its targets in their order, restricted to
  those the breaker admits and the policy allows, and fails exactly when none is left; a model that
  is no route goes to the provider before its first slash (or to \<^verbatim>\<open>default\<close>), if the policy allows
  that target, whatever the breaker says.
\<close>
theorem resolve_sound:
  "router_resolve (\<lambda>_. t) r who requested =
     (case rt_routes r requested of
        Some targets \<Rightarrow>
          (let ok = filter (\<lambda>x. breaker_allow t (tg_provider x) (rt_breaker r) \<and>
                             fst (rt_policy r who x)) targets
           in if ok = [] then Inl (NoAvailableTargets requested) else Inr ok)
      | None \<Rightarrow>
          (if fst (rt_policy r who (direct_target requested)) then Inr [direct_target requested]
           else Inl (AccessDenied (direct_target requested)
                  (snd (rt_policy r who (direct_target requested))))))"
  by (auto simp: router_resolve_def resolve_resolution_def route_candidates_const Let_def split: option.split prod.split)

text \<open>
  A provider-qualified model reaches exactly that provider: unless a route has its name, a
  request for a provider without a slash, a slash and a model (which may hold slashes itself)
  resolves to that provider and model, for a policy that allows it.
\<close>
theorem direct_request_roundtrip:
  assumes "CHR ''/'' \<notin> set p" and "rt_routes r (p @ CHR ''/'' # m) = None"
    and "fst (rt_policy r who \<lparr>tg_provider = p, tg_model = m\<rparr>)"
  shows "router_resolve now r who (p @ CHR ''/'' # m) = Inr [\<lparr>tg_provider = p, tg_model = m\<rparr>]"
  using assms
  by (auto simp: router_resolve_def resolve_resolution_def direct_target_slash Let_def split: prod.split)

theorem direct_request_roundtrip_witness:
  "router_resolve (\<lambda>_. 0) (new_router Map.empty None) () ''zen/meta/llama'' =
     Inr [\<lparr>tg_provider = ''zen'', tg_model = ''meta/llama''\<rparr>]"
  using direct_request_roundtrip [of "''zen''" "new_router Map.empty None" "''meta/llama''" "()" "\<lambda>_. 0"]
  by (simp add: new_router_def)

end
