(* ===== verification/Execution.thy ===== *)
theory Execution
  imports Health
begin

text \<open>
  \<^verbatim>\<open>execution/execute.go\<close>: trying candidates in order. The effects an execution has or meets
  (the caller's context, the clock, waiting, the tracked health, running a candidate) are functions
  that take and return a state \<open>'w\<close> of which nothing is assumed, so a call may observe what the ones
  before it did and what happened meanwhile. \<open>ex_now\<close> and \<open>ex_sleep\<close> are the hooks or their
  defaults; \<open>ctx\<close> is \<^verbatim>\<open>ctx.Err()\<close>.
\<close>

subsection \<open>Executors\<close>

record 'w health_ops =
  hl_available :: "string \<Rightarrow> 'w \<Rightarrow> (bool \<times> gtime) \<times> 'w"
  hl_record :: "string \<Rightarrow> go_err option \<Rightarrow> 'w \<Rightarrow> 'w"

record retry =
  rt_attempts :: int
  rt_delay :: "(int \<Rightarrow> go_err \<Rightarrow> duration) option"

record ('c, 'w) executor =
  ex_health :: "'w health_ops option"
  ex_key :: "('c \<Rightarrow> string) option"
  ex_retry :: retry
  ex_now :: "'w \<Rightarrow> gtime \<times> 'w"
  ex_sleep :: "duration \<Rightarrow> 'w \<Rightarrow> go_err option \<times> 'w"

record 'c attempt =
  at_candidate :: 'c
  at_key :: string
  at_unavailable :: bool
  at_until :: gtime
  at_tries :: int
  at_err :: "go_err option"
  at_classification :: classification
  at_class :: error_class
  at_disposition :: "disposition option"
  at_duration :: duration

record ('c, 'r) exec_result =
  xr_served :: "('r \<times> 'c) option"
  xr_attempts :: "'c attempt list"

definition err_no_candidates :: go_err where
  "err_no_candidates = Sentinel ''execution: no candidates''"

definition err_no_key :: go_err where
  "err_no_key = Sentinel ''execution: an Executor with Health needs a Key''"

definition new_attempt :: "'c \<Rightarrow> 'c attempt" where
  "new_attempt c =
     \<lparr>at_candidate = c, at_key = [], at_unavailable = False, at_until = 0, at_tries = 0, at_err = None,
      at_classification = no_classification, at_class = NoClass, at_disposition = None, at_duration = 0\<rparr>"

subsection \<open>Describing an attempt\<close>

definition provider_class :: "go_err \<Rightarrow> error_class option" where
  "provider_class e = (case e of ProviderErr _ cls _ _ \<Rightarrow> Some cls | _ \<Rightarrow> None)"

definition error_class_of :: "go_err \<Rightarrow> classification \<Rightarrow> error_class" where
  "error_class_of e c =
     (case find_first provider_class (err_chain e) of
        Some cls \<Rightarrow>
          (if cls \<noteq> NoClass then cls
           else if cl_status c \<noteq> 0 then fst (snd (failure_verdict (cl_status c) True))
           else if cl_circuit c then ClassTransport else NoClass)
      | None \<Rightarrow>
          (if cl_status c \<noteq> 0 then fst (snd (failure_verdict (cl_status c) True))
           else if cl_circuit c then ClassTransport else NoClass))"

definition describe :: "go_err option \<Rightarrow> 'c attempt \<Rightarrow> 'c attempt" where
  "describe err a =
     (case err of
        None \<Rightarrow> a\<lparr>at_err := None, at_classification := no_classification, at_class := NoClass,
                  at_disposition := None\<rparr>
      | Some e \<Rightarrow>
          (let c = classify_error e in
           a\<lparr>at_err := Some e, at_classification := c, at_class := error_class_of e c,
             at_disposition := Some (disposition_of c)\<rparr>))"

lemma describe_frame [simp]:
  "at_candidate (describe e a) = at_candidate a" "at_key (describe e a) = at_key a"
  "at_tries (describe e a) = at_tries a" "at_unavailable (describe e a) = at_unavailable a"
  "at_until (describe e a) = at_until a" "at_err (describe e a) = e"
  by (simp_all add: describe_def Let_def split: option.split)

lemma describe_disposition [simp]:
  "at_disposition (describe (Some e) a) = Some (disposition_of (classify_error e))"
  by (simp add: describe_def Let_def)

subsection \<open>One candidate\<close>

definition executor_record :: "('c, 'w) executor \<Rightarrow> string \<Rightarrow> go_err option \<Rightarrow> 'w \<Rightarrow> 'w" where
  "executor_record ex key err w =
     (case ex_health ex of None \<Rightarrow> w | Some h \<Rightarrow> hl_record h key err w)"

definition retry_wait ::
    "retry \<Rightarrow> (duration \<Rightarrow> 'w \<Rightarrow> go_err option \<times> 'w) \<Rightarrow> ('w \<Rightarrow> go_err option \<times> 'w) \<Rightarrow>
     int \<Rightarrow> go_err \<Rightarrow> 'w \<Rightarrow> go_err option \<times> 'w" where
  "retry_wait rt sleep ctx failed e w =
     (let delay = (case rt_delay rt of None \<Rightarrow> 0 | Some f \<Rightarrow> f failed e)
      in if delay \<le> 0 then ctx w else sleep delay w)"

text \<open>
  How a candidate ends: it served, the caller gave up (a context or waiting error, not recorded),
  or its last try's error was recorded and ends the execution or not.
\<close>

datatype 'r try_outcome = Served 'r | GaveUp go_err | Failed bool go_err

abbreviation tried :: "'c attempt \<Rightarrow> 'c attempt" where
  "tried a \<equiv> a\<lparr>at_tries := at_tries a + 1\<rparr>"

function (sequential) try_loop ::
    "('c, 'w) executor \<Rightarrow> ('w \<Rightarrow> go_err option \<times> 'w) \<Rightarrow> ('c \<Rightarrow> 'w \<Rightarrow> (go_err + 'r) \<times> 'w) \<Rightarrow>
     'c attempt \<Rightarrow> 'w \<Rightarrow> ('c attempt \<times> 'r try_outcome) \<times> 'w" where
  "try_loop ex ctx run entry w =
     (let entry1 = tried entry in
      case run (at_candidate entry) w of
        (Inr v, w1) \<Rightarrow>
          (let entry2 = describe None entry1
           in ((entry2, Served v), executor_record ex (at_key entry2) None w1))
      | (Inl e, w1) \<Rightarrow>
          (let entry2 = describe (Some e) entry1 in
           case ctx w1 of
             (Some c, w2) \<Rightarrow> ((entry2, GaveUp c), w2)
           | (None, w2) \<Rightarrow>
               (if at_disposition entry2 = Some DispositionRetryable \<and>
                   at_tries entry2 < rt_attempts (ex_retry ex)
                then
                  (case retry_wait (ex_retry ex) (ex_sleep ex) ctx (at_tries entry2) e w2 of
                     (Some we, w3) \<Rightarrow> ((entry2, GaveUp we), w3)
                   | (None, w3) \<Rightarrow> try_loop ex ctx run entry2 w3)
                else
                  ((entry2, Failed (at_disposition entry2 = Some DispositionTerminal) e),
                   executor_record ex (at_key entry2) (Some e) w2))))"
  by pat_completeness auto
termination
  by (relation "measure (\<lambda>(ex, ctx, run, entry, w). nat (rt_attempts (ex_retry ex) - at_tries entry))") auto

declare try_loop.simps [simp del]

definition try_candidate ::
    "('c, 'w) executor \<Rightarrow> ('w \<Rightarrow> go_err option \<times> 'w) \<Rightarrow> ('c \<Rightarrow> 'w \<Rightarrow> (go_err + 'r) \<times> 'w) \<Rightarrow>
     'c attempt \<Rightarrow> 'w \<Rightarrow> ('c attempt \<times> 'r try_outcome) \<times> 'w" where
  "try_candidate ex ctx run entry w =
     (case ex_now ex w of
        (started, w1) \<Rightarrow>
          (case try_loop ex ctx run entry w1 of
             ((entry', out), w2) \<Rightarrow>
               (case ex_now ex w2 of
                  (ended, w3) \<Rightarrow> ((entry'\<lparr>at_duration := time_sub ended started\<rparr>, out), w3))))"

subsection \<open>All candidates\<close>

text \<open>
  The loop over the candidates, with the trace so far, the last error of a candidate that was tried
  and the earliest instant a skipped one becomes available (zero: none known).
\<close>

definition earlier :: "gtime \<Rightarrow> gtime \<Rightarrow> gtime" where
  "earlier until next_time =
     (if \<not> is_zero_time next_time \<and> (is_zero_time until \<or> next_time < until) then next_time else until)"

text \<open>The new trace entry of a candidate: skipped (\<open>Inl\<close>) or to be tried (\<open>Inr\<close>).\<close>

definition admit_candidate :: "('c, 'w) executor \<Rightarrow> 'c \<Rightarrow> 'w \<Rightarrow> ('c attempt + 'c attempt) \<times> 'w" where
  "admit_candidate ex c w =
     (case (ex_health ex, ex_key ex) of
        (Some h, Some key) \<Rightarrow>
          (case hl_available h (key c) w of
             ((available, next_time), w') \<Rightarrow>
               (if available then (Inr ((new_attempt c)\<lparr>at_key := key c\<rparr>), w')
                else (Inl ((new_attempt c)\<lparr>at_key := key c, at_unavailable := True,
                        at_until := next_time\<rparr>), w')))
      | _ \<Rightarrow> (Inr (new_attempt c), w))"

definition unavailable_error :: "('c, 'w) executor \<Rightarrow> gtime \<Rightarrow> 'w \<Rightarrow> go_err \<times> 'w" where
  "unavailable_error ex until w =
     (if is_zero_time until then (UnavailableErr until 0, w)
      else (case ex_now ex w of (now, w') \<Rightarrow> (UnavailableErr until (max 0 (time_sub until now)), w')))"

fun exec_loop ::
    "('c, 'w) executor \<Rightarrow> ('w \<Rightarrow> go_err option \<times> 'w) \<Rightarrow> ('c \<Rightarrow> 'w \<Rightarrow> (go_err + 'r) \<times> 'w) \<Rightarrow>
     'c list \<Rightarrow> 'c attempt list \<Rightarrow> go_err option \<Rightarrow> gtime \<Rightarrow> 'w \<Rightarrow>
     (('c, 'r) exec_result \<times> go_err option) \<times> 'w" where
  "exec_loop ex ctx run [] trace recent until w =
     (case recent of
        Some e \<Rightarrow> ((\<lparr>xr_served = None, xr_attempts = trace\<rparr>, Some e), w)
      | None \<Rightarrow>
          (case unavailable_error ex until w of
             (e, w') \<Rightarrow> ((\<lparr>xr_served = None, xr_attempts = trace\<rparr>, Some e), w')))"
| "exec_loop ex ctx run (c # cs) trace recent until w =
     (case ctx w of
        (Some e, w1) \<Rightarrow> ((\<lparr>xr_served = None, xr_attempts = trace\<rparr>, Some e), w1)
      | (None, w1) \<Rightarrow>
          (case admit_candidate ex c w1 of
             (Inl entry, w2) \<Rightarrow>
               exec_loop ex ctx run cs (trace @ [entry]) recent (earlier until (at_until entry)) w2
           | (Inr entry, w2) \<Rightarrow>
               (case try_candidate ex ctx run entry w2 of
                  ((entry', Served v), w3) \<Rightarrow>
                    ((\<lparr>xr_served = Some (v, c), xr_attempts = trace @ [entry']\<rparr>, None), w3)
                | ((entry', GaveUp e), w3) \<Rightarrow>
                    ((\<lparr>xr_served = None, xr_attempts = trace @ [entry']\<rparr>, Some e), w3)
                | ((entry', Failed stop e), w3) \<Rightarrow>
                    (if stop then ((\<lparr>xr_served = None, xr_attempts = trace @ [entry']\<rparr>, Some e), w3)
                     else exec_loop ex ctx run cs (trace @ [entry']) (Some e) until w3))))"

definition execute ::
    "('c, 'w) executor \<Rightarrow> ('w \<Rightarrow> go_err option \<times> 'w) \<Rightarrow> ('c \<Rightarrow> 'w \<Rightarrow> (go_err + 'r) \<times> 'w) \<Rightarrow>
     'c list \<Rightarrow> 'w \<Rightarrow> (('c, 'r) exec_result \<times> go_err option) \<times> 'w" where
  "execute ex ctx run candidates w =
     (if ex_health ex \<noteq> None \<and> ex_key ex = None
      then ((\<lparr>xr_served = None, xr_attempts = []\<rparr>, Some err_no_key), w)
      else if candidates = [] then ((\<lparr>xr_served = None, xr_attempts = []\<rparr>, Some err_no_candidates), w)
      else exec_loop ex ctx run candidates [] None 0 w)"

subsection \<open>Rules for the two loops\<close>

text \<open>
  One rule per loop gives the ways it goes on; every fact about a run below is proved by it.
\<close>

lemma try_loop_rule [case_names served gave_up_try gave_up_wait repeat failed]:
  assumes served: "\<And>a w v w1. run (at_candidate a) w = (Inr v, w1) \<Longrightarrow>
      P a w ((describe None (tried a), Served v), executor_record ex (at_key a) None w1)"
    and gave_up_try: "\<And>a w e w1 c w2. run (at_candidate a) w = (Inl e, w1) \<Longrightarrow> ctx w1 = (Some c, w2) \<Longrightarrow>
      P a w ((describe (Some e) (tried a), GaveUp c), w2)"
    and gave_up_wait: "\<And>a w e w1 w2 we w3. run (at_candidate a) w = (Inl e, w1) \<Longrightarrow> ctx w1 = (None, w2) \<Longrightarrow>
      cl_retryable (classify_error e) \<Longrightarrow> at_tries a + 1 < rt_attempts (ex_retry ex) \<Longrightarrow>
      retry_wait (ex_retry ex) (ex_sleep ex) ctx (at_tries a + 1) e w2 = (Some we, w3) \<Longrightarrow>
      P a w ((describe (Some e) (tried a), GaveUp we), w3)"
    and repeat: "\<And>a w e w1 w2 w3. run (at_candidate a) w = (Inl e, w1) \<Longrightarrow> ctx w1 = (None, w2) \<Longrightarrow>
      cl_retryable (classify_error e) \<Longrightarrow> at_tries a + 1 < rt_attempts (ex_retry ex) \<Longrightarrow>
      retry_wait (ex_retry ex) (ex_sleep ex) ctx (at_tries a + 1) e w2 = (None, w3) \<Longrightarrow>
      P (describe (Some e) (tried a)) w3 (try_loop ex ctx run (describe (Some e) (tried a)) w3) \<Longrightarrow>
      P a w (try_loop ex ctx run (describe (Some e) (tried a)) w3)"
    and failed: "\<And>a w e w1 w2. run (at_candidate a) w = (Inl e, w1) \<Longrightarrow> ctx w1 = (None, w2) \<Longrightarrow>
      \<not> (cl_retryable (classify_error e) \<and> at_tries a + 1 < rt_attempts (ex_retry ex)) \<Longrightarrow>
      P a w ((describe (Some e) (tried a), Failed (disposition_of (classify_error e) = DispositionTerminal) e),
        executor_record ex (at_key a) (Some e) w2)"
  shows "P a w (try_loop ex ctx run a w)"
proof (induction "nat (rt_attempts (ex_retry ex) - at_tries a)" arbitrary: a w rule: less_induct)
  case less
  obtain res w1 where run: "run (at_candidate a) w = (res, w1)" by fastforce
  show ?case
  proof (cases res)
    case (Inr v)
    with run served [of a w v w1] show ?thesis by (simp add: try_loop.simps [of ex ctx run a w])
  next
    case (Inl e)
    note run = run [unfolded Inl]
    obtain co w2 where ctx: "ctx w1 = (co, w2)" by fastforce
    show ?thesis
    proof (cases co)
      case (Some c)
      with run ctx gave_up_try [of a w e w1 c w2] show ?thesis
        by (simp add: try_loop.simps [of ex ctx run a w])
    next
      case None
      note ctx = ctx [unfolded None]
      show ?thesis
      proof (cases "cl_retryable (classify_error e) \<and> at_tries a + 1 < rt_attempts (ex_retry ex)")
        case False
        with run ctx failed [of a w e w1 w2] show ?thesis
          by (auto simp: try_loop.simps [of ex ctx run a w] Let_def disposition_of_simps(1))
      next
        case True
        obtain wo w3 where wait: "retry_wait (ex_retry ex) (ex_sleep ex) ctx (at_tries a + 1) e w2 = (wo, w3)"
          by fastforce
        have step: "P (describe (Some e) (tried a)) w3 (try_loop ex ctx run (describe (Some e) (tried a)) w3)"
          using True by (intro less) simp
        show ?thesis
          using run ctx True wait step gave_up_wait [of a w e w1 w2 _ w3] repeat [of a w e w1 w2 w3]
          by (cases wo) (simp_all add: try_loop.simps [of ex ctx run a w] Let_def disposition_of_simps(1))
      qed
    qed
  qed
qed

lemma exec_loop_rule [case_names explained unavailable ended skipped served gave_up stopped onward]:
  assumes explained: "\<And>trace e until w.
      P [] trace (Some e) until w ((\<lparr>xr_served = None, xr_attempts = trace\<rparr>, Some e), w)"
    and unavailable: "\<And>trace until w e w'. unavailable_error ex until w = (e, w') \<Longrightarrow>
      P [] trace None until w ((\<lparr>xr_served = None, xr_attempts = trace\<rparr>, Some e), w')"
    and ended: "\<And>c cs trace recent until w e w1. ctx w = (Some e, w1) \<Longrightarrow>
      P (c # cs) trace recent until w ((\<lparr>xr_served = None, xr_attempts = trace\<rparr>, Some e), w1)"
    and skipped: "\<And>c cs trace recent until w w1 a w2. ctx w = (None, w1) \<Longrightarrow>
      admit_candidate ex c w1 = (Inl a, w2) \<Longrightarrow>
      P cs (trace @ [a]) recent (earlier until (at_until a)) w2
        (exec_loop ex ctx run cs (trace @ [a]) recent (earlier until (at_until a)) w2) \<Longrightarrow>
      P (c # cs) trace recent until w
        (exec_loop ex ctx run cs (trace @ [a]) recent (earlier until (at_until a)) w2)"
    and served: "\<And>c cs trace recent until w w1 a w2 a' v w3. ctx w = (None, w1) \<Longrightarrow>
      admit_candidate ex c w1 = (Inr a, w2) \<Longrightarrow> try_candidate ex ctx run a w2 = ((a', Served v), w3) \<Longrightarrow>
      P (c # cs) trace recent until w
        ((\<lparr>xr_served = Some (v, c), xr_attempts = trace @ [a']\<rparr>, None), w3)"
    and gave_up: "\<And>c cs trace recent until w w1 a w2 a' e w3. ctx w = (None, w1) \<Longrightarrow>
      admit_candidate ex c w1 = (Inr a, w2) \<Longrightarrow> try_candidate ex ctx run a w2 = ((a', GaveUp e), w3) \<Longrightarrow>
      P (c # cs) trace recent until w
        ((\<lparr>xr_served = None, xr_attempts = trace @ [a']\<rparr>, Some e), w3)"
    and stopped: "\<And>c cs trace recent until w w1 a w2 a' e w3. ctx w = (None, w1) \<Longrightarrow>
      admit_candidate ex c w1 = (Inr a, w2) \<Longrightarrow> try_candidate ex ctx run a w2 = ((a', Failed True e), w3) \<Longrightarrow>
      P (c # cs) trace recent until w
        ((\<lparr>xr_served = None, xr_attempts = trace @ [a']\<rparr>, Some e), w3)"
    and onward: "\<And>c cs trace recent until w w1 a w2 a' e w3. ctx w = (None, w1) \<Longrightarrow>
      admit_candidate ex c w1 = (Inr a, w2) \<Longrightarrow> try_candidate ex ctx run a w2 = ((a', Failed False e), w3) \<Longrightarrow>
      P cs (trace @ [a']) (Some e) until w3 (exec_loop ex ctx run cs (trace @ [a']) (Some e) until w3) \<Longrightarrow>
      P (c # cs) trace recent until w (exec_loop ex ctx run cs (trace @ [a']) (Some e) until w3)"
  shows "P cs trace recent until w (exec_loop ex ctx run cs trace recent until w)"
proof (induction cs arbitrary: trace recent until w)
  case Nil
  obtain e w' where u: "unavailable_error ex until w = (e, w')" by fastforce
  show ?case
    using explained [of trace _ until w] unavailable [OF u] u by (cases recent) simp_all
next
  case (Cons c cs)
  obtain co w1 where ctx: "ctx w = (co, w1)" by fastforce
  show ?case
  proof (cases co)
    case (Some e)
    with ctx ended show ?thesis by simp
  next
    case None
    note ctx = ctx [unfolded None]
    obtain ad w2 where ad: "admit_candidate ex c w1 = (ad, w2)" by fastforce
    show ?thesis
    proof (cases ad)
      case (Inl a)
      with ctx ad show ?thesis using skipped Cons.IH by simp
    next
      case (Inr a)
      obtain a' out w3 where t: "try_candidate ex ctx run a w2 = ((a', out), w3)"
        by (metis prod.exhaust)
      show ?thesis
      proof (cases out)
        case (Served v)
        with ctx ad Inr t show ?thesis using served by simp
      next
        case (GaveUp e)
        with ctx ad Inr t show ?thesis using gave_up by simp
      next
        case (Failed stop e)
        with ctx ad Inr t show ?thesis using stopped onward Cons.IH by (cases stop) simp_all
      qed
    qed
  qed
qed

subsection \<open>What an entry of the trace says\<close>

text \<open>
  An entry that let the execution move on: a skipped candidate, or one whose last error permits
  another candidate and was not repeated while it could have been.
\<close>

definition entry_ok :: "('c, 'w) executor \<Rightarrow> 'c attempt \<Rightarrow> bool" where
  "entry_ok ex a \<longleftrightarrow>
     (if at_unavailable a then at_tries a = 0 \<and> at_err a = None
      else 1 \<le> at_tries a \<and> at_tries a \<le> max 1 (rt_attempts (ex_retry ex))) \<and>
     at_disposition a = map_option (disposition_of \<circ> classify_error) (at_err a)"

definition moved_on :: "('c, 'w) executor \<Rightarrow> 'c attempt \<Rightarrow> bool" where
  "moved_on ex a \<longleftrightarrow>
     at_unavailable a \<or>
     (\<exists>e. at_err a = Some e \<and> disposition_of (classify_error e) \<noteq> DispositionTerminal \<and>
        (cl_retryable (classify_error e) \<longrightarrow> rt_attempts (ex_retry ex) \<le> at_tries a))"

definition outcome_of :: "('c, 'w) executor \<Rightarrow> 'c attempt \<Rightarrow> 'r try_outcome \<Rightarrow> bool" where
  "outcome_of ex a out \<longleftrightarrow>
     (case out of
        Served v \<Rightarrow> at_err a = None
      | GaveUp e \<Rightarrow> at_err a \<noteq> None
      | Failed stop e \<Rightarrow>
          at_err a = Some e \<and> stop = (disposition_of (classify_error e) = DispositionTerminal) \<and>
          (cl_retryable (classify_error e) \<longrightarrow> rt_attempts (ex_retry ex) \<le> at_tries a))"

lemma describe_disposition_map:
  "at_disposition (describe err a) = map_option (disposition_of \<circ> classify_error) err"
  by (cases err) (simp_all add: describe_def Let_def)

lemma try_loop_entry:
  "case try_loop ex ctx run a w of ((a', out), w') \<Rightarrow>
     at_candidate a' = at_candidate a \<and> at_key a' = at_key a \<and> at_unavailable a' = at_unavailable a \<and>
     at_until a' = at_until a \<and> at_tries a < at_tries a' \<and>
     at_tries a' \<le> max (at_tries a + 1) (rt_attempts (ex_retry ex)) \<and>
     at_disposition a' = map_option (disposition_of \<circ> classify_error) (at_err a') \<and> outcome_of ex a' out"
proof (induction rule: try_loop_rule [of run _ ex ctx])
  case (repeat a w e w1 w2 w3)
  then show ?case by (auto split: prod.splits)
qed (auto simp: outcome_of_def describe_disposition_map)

lemma try_candidate_entry:
  assumes "try_candidate ex ctx run a w = ((a', out), w')" and "at_tries a = 0" and "\<not> at_unavailable a"
  shows "at_candidate a' = at_candidate a \<and> at_key a' = at_key a \<and> entry_ok ex a' \<and>
    \<not> at_unavailable a' \<and> outcome_of ex a' out"
  using assms try_loop_entry [where ex = ex and ctx = ctx and run = run and a = a and w = "snd (ex_now ex w)"]
  by (auto simp: try_candidate_def entry_ok_def outcome_of_def split: prod.splits try_outcome.splits)

lemma admit_candidate_entry:
  "admit_candidate ex c w = (Inl a, w') \<Longrightarrow>
     at_candidate a = c \<and> at_unavailable a \<and> entry_ok ex a \<and> at_tries a = 0"
  "admit_candidate ex c w = (Inr a, w') \<Longrightarrow>
     at_candidate a = c \<and> \<not> at_unavailable a \<and> at_tries a = 0"
  by (auto simp: admit_candidate_def new_attempt_def entry_ok_def split: option.splits prod.splits if_splits)

subsection \<open>The trace of an execution\<close>

text \<open>
  What a finished loop says of the entries it added: they describe a prefix of the candidates, all
  but the last moved on, and the result and the error fit the last.
\<close>

definition loop_post ::
    "('c, 'w) executor \<Rightarrow> 'c list \<Rightarrow> 'c attempt list \<Rightarrow> go_err option \<Rightarrow>
     ('c, 'r) exec_result \<times> go_err option \<Rightarrow> bool" where
  "loop_post ex cs trace recent r \<longleftrightarrow>
     (case r of (res, err) \<Rightarrow>
        \<exists>new. xr_attempts res = trace @ new \<and> map at_candidate new = take (length new) cs \<and>
          list_all (entry_ok ex) new \<and> list_all (moved_on ex) (butlast new) \<and>
          (case xr_served res of
             Some (v, c) \<Rightarrow>
               err = None \<and> new \<noteq> [] \<and> at_candidate (last new) = c \<and> at_err (last new) = None \<and>
               \<not> at_unavailable (last new)
           | None \<Rightarrow>
               err \<noteq> None \<and> list_all (\<lambda>a. at_unavailable a \<or> at_err a \<noteq> None) new))"

lemma loop_post_nil:
  "loop_post ex cs trace recent (\<lparr>xr_served = None, xr_attempts = trace\<rparr>, Some e)"
  by (simp add: loop_post_def)

lemma loop_post_last:
  "entry_ok ex a \<Longrightarrow> at_candidate a = c \<Longrightarrow> at_unavailable a \<or> at_err a \<noteq> None \<Longrightarrow>
     loop_post ex (c # cs) trace recent (\<lparr>xr_served = None, xr_attempts = trace @ [a]\<rparr>, Some e)"
  "entry_ok ex a \<Longrightarrow> at_candidate a = c \<Longrightarrow> at_err a = None \<Longrightarrow> \<not> at_unavailable a \<Longrightarrow>
     loop_post ex (c # cs) trace recent (\<lparr>xr_served = Some (v, c), xr_attempts = trace @ [a]\<rparr>, None)"
  by (simp_all add: loop_post_def)

lemma loop_post_step:
  assumes "loop_post ex cs (trace @ [a]) recent' r" and "entry_ok ex a" and "at_candidate a = c"
    and "moved_on ex a"
  shows "loop_post ex (c # cs) trace recent r"
proof -
  obtain res err where r: "r = (res, err)" by (cases r)
  with assms(1) obtain new where new: "xr_attempts res = (trace @ [a]) @ new"
    "map at_candidate new = take (length new) cs" "list_all (entry_ok ex) new"
    "list_all (moved_on ex) (butlast new)"
    and served: "case xr_served res of
             Some (v, c) \<Rightarrow>
               err = None \<and> new \<noteq> [] \<and> at_candidate (last new) = c \<and> at_err (last new) = None \<and>
               \<not> at_unavailable (last new)
           | None \<Rightarrow>
               err \<noteq> None \<and> list_all (\<lambda>a. at_unavailable a \<or> at_err a \<noteq> None) new"
    by (auto simp: loop_post_def)
  have "at_unavailable a \<or> at_err a \<noteq> None"
    using assms(4) by (auto simp: moved_on_def)
  with new served assms(2-4) show ?thesis
    unfolding loop_post_def r prod.case
    by (intro exI [of _ "a # new"]) (auto split: option.splits)
qed

lemma exec_loop_post: "loop_post ex cs trace recent (fst (exec_loop ex ctx run cs trace recent until w))"
proof (induction rule: exec_loop_rule [of _ ex ctx run])
  case (skipped c cs trace recent until w w1 a w2)
  then show ?case
    using admit_candidate_entry(1) [OF skipped(2)] by (intro loop_post_step) (auto simp: moved_on_def)
next
  case (served c cs trace recent until w w1 a w2 a' v w3)
  then show ?case
    using admit_candidate_entry(2) [OF served(2)] try_candidate_entry [OF served(3)]
    by (simp add: loop_post_last outcome_of_def)
next
  case (gave_up c cs trace recent until w w1 a w2 a' e w3)
  then show ?case
    using admit_candidate_entry(2) [OF gave_up(2)] try_candidate_entry [OF gave_up(3)]
    by (simp add: loop_post_last outcome_of_def)
next
  case (stopped c cs trace recent until w w1 a w2 a' e w3)
  then show ?case
    using admit_candidate_entry(2) [OF stopped(2)] try_candidate_entry [OF stopped(3)]
    by (simp add: loop_post_last outcome_of_def)
next
  case (onward c cs trace recent until w w1 a w2 a' e w3)
  then show ?case
    using admit_candidate_entry(2) [OF onward(2)] try_candidate_entry [OF onward(3)]
    by (intro loop_post_step) (auto simp: outcome_of_def moved_on_def)
qed (simp_all add: loop_post_nil)

subsection \<open>When no candidate served\<close>

definition last_error :: "go_err option \<Rightarrow> 'c attempt list \<Rightarrow> go_err option" where
  "last_error recent as = fold (\<lambda>a r. if at_unavailable a then r else at_err a) as recent"

definition earliest :: "gtime \<Rightarrow> 'c attempt list \<Rightarrow> gtime" where
  "earliest until as = fold (\<lambda>a u. if at_unavailable a then earlier u (at_until a) else u) as until"

lemma unavailable_error_cases:
  "unavailable_error ex until w = (e, w') \<Longrightarrow>
     \<exists>ra. e = UnavailableErr until ra \<and> 0 \<le> ra \<and> (until = 0 \<longrightarrow> ra = 0)"
  by (auto simp: unavailable_error_def is_zero_time_def split: if_splits prod.splits)

definition exhausted_post ::
    "'c attempt list \<Rightarrow> go_err option \<Rightarrow> gtime \<Rightarrow> 'c list \<Rightarrow> ('c, 'r) exec_result \<times> go_err option \<Rightarrow> bool" where
  "exhausted_post trace recent until cs r \<longleftrightarrow>
     (\<forall>new. xr_attempts (fst r) = trace @ new \<longrightarrow> length new = length cs \<longrightarrow>
        new = [] \<or> at_unavailable (last new) \<longrightarrow>
        xr_served (fst r) = None \<and>
        (case last_error recent new of
           Some e \<Rightarrow> snd r = Some e
         | None \<Rightarrow>
             \<exists>ra. snd r = Some (UnavailableErr (earliest until new) ra) \<and> 0 \<le> ra \<and>
               (earliest until new = 0 \<longrightarrow> ra = 0)))"

lemma exhausted_post_step:
  assumes "exhausted_post (trace @ [a]) recent' until' cs r"
    and "at_unavailable a \<or> cs \<noteq> [] \<or> xr_attempts (fst r) \<noteq> trace @ [a]"
    and "recent' = last_error recent [a]" and "until' = earliest until [a]"
    and "\<exists>new. xr_attempts (fst r) = (trace @ [a]) @ new"
  shows "exhausted_post trace recent until (c # cs) r"
  unfolding exhausted_post_def
proof (intro allI impI)
  fix new
  assume new: "xr_attempts (fst r) = trace @ new" "length new = length (c # cs)"
    "new = [] \<or> at_unavailable (last new)"
  from assms(5) new obtain rest where rest: "new = a # rest" by auto
  with new assms(2) have "rest = [] \<or> at_unavailable (last rest)" by (cases rest) auto
  moreover have "last_error recent new = last_error recent' rest"
    and "earliest until new = earliest until' rest"
    using assms(3,4) rest by (simp_all add: last_error_def earliest_def)
  ultimately show "xr_served (fst r) = None \<and>
        (case last_error recent new of
           Some e \<Rightarrow> snd r = Some e
         | None \<Rightarrow>
             \<exists>ra. snd r = Some (UnavailableErr (earliest until new) ra) \<and> 0 \<le> ra \<and>
               (earliest until new = 0 \<longrightarrow> ra = 0))"
    using assms(1) new rest
    by (cases "rest = []") (auto simp: exhausted_post_def split: option.splits)
qed

lemma exec_loop_grows:
  "\<exists>new. xr_attempts (fst (fst (exec_loop ex ctx run cs trace recent until w))) = trace @ new"
  using exec_loop_post [of ex cs trace recent ctx run until w]
  by (auto simp: loop_post_def split: prod.splits)

lemma exec_loop_exhausted:
  "exhausted_post trace recent until cs (fst (exec_loop ex ctx run cs trace recent until w))"
proof (induction rule: exec_loop_rule [of _ ex ctx run])
  case (unavailable trace until w e w')
  then show ?case
    using unavailable_error_cases [OF unavailable]
    by (auto simp: exhausted_post_def last_error_def earliest_def)
next
  case (skipped c cs trace recent until w w1 a w2)
  then show ?case
    using admit_candidate_entry(1) [OF skipped(2)]
    by (intro exhausted_post_step [OF skipped(3) _ _ _ exec_loop_grows])
      (auto simp: last_error_def earliest_def)
next
  case (onward c cs trace recent until w w1 a w2 a' e w3)
  have a': "\<not> at_unavailable a'" "at_err a' = Some e"
    using admit_candidate_entry(2) [OF onward(2)] try_candidate_entry [OF onward(3)]
    by (auto simp: outcome_of_def)
  show ?case
  proof (cases "cs = []")
    case True
    with a' show ?thesis
      by (auto simp: exhausted_post_def split: option.splits)
  next
    case False
    with a' show ?thesis
      by (intro exhausted_post_step [OF onward(4) _ _ _ exec_loop_grows])
        (auto simp: last_error_def earliest_def)
  qed
next
  case (served c cs trace recent until w w1 a w2 a' v w3)
  then show ?case
    using admit_candidate_entry(2) [OF served(2)] try_candidate_entry [OF served(3)]
    by (auto simp: exhausted_post_def)
next
  case (gave_up c cs trace recent until w w1 a w2 a' e w3)
  then show ?case
    using admit_candidate_entry(2) [OF gave_up(2)] try_candidate_entry [OF gave_up(3)]
    by (auto simp: exhausted_post_def)
next
  case (stopped c cs trace recent until w w1 a w2 a' e w3)
  then show ?case
    using admit_candidate_entry(2) [OF stopped(2)] try_candidate_entry [OF stopped(3)]
    by (auto simp: exhausted_post_def)
qed (simp_all add: exhausted_post_def last_error_def)

lemma last_error_skipped: "list_all at_unavailable as \<Longrightarrow> last_error recent as = recent"
  by (induction as) (simp_all add: last_error_def)

lemma earliest_skipped:
  "list_all at_unavailable as \<Longrightarrow>
     (let u = earliest until as in
      (u = 0 \<longleftrightarrow> until = 0 \<and> list_all (\<lambda>a. at_until a = 0) as) \<and>
      (u = until \<or> u \<in> at_until ` set as) \<and>
      (until \<noteq> 0 \<longrightarrow> u \<le> until) \<and> list_all (\<lambda>a. at_until a = 0 \<or> u \<le> at_until a) as)"
proof (induction as arbitrary: until)
  case Nil
  then show ?case by (simp add: earliest_def)
next
  case (Cons a as)
  have "earliest until (a # as) = earliest (earlier until (at_until a)) as"
    using Cons.prems by (simp add: earliest_def)
  with Cons.IH [of "earlier until (at_until a)"] Cons.prems show ?case
    by (auto simp: Let_def earlier_def is_zero_time_def list_all_iff split: if_splits)
qed

subsection \<open>What is run and what is recorded\<close>

text \<open>
  The same execution over a state that also keeps the sequence of tries and recorded outcomes.
\<close>

datatype 'c exec_event = EvRun 'c | EvRecord string "go_err option"

definition log_run :: "('c \<Rightarrow> 'w \<Rightarrow> 'a \<times> 'w) \<Rightarrow> 'c \<Rightarrow> 'w \<times> 'c exec_event list \<Rightarrow> 'a \<times> ('w \<times> 'c exec_event list)" where
  "log_run run c wl = (case wl of (w, l) \<Rightarrow> (case run c w of (r, w') \<Rightarrow> (r, (w', l @ [EvRun c]))))"

definition log_health :: "'w health_ops \<Rightarrow> ('w \<times> 'c exec_event list) health_ops" where
  "log_health h =
     \<lparr>hl_available = (\<lambda>k. carry (hl_available h k)),
      hl_record = (\<lambda>k e (w, l). (hl_record h k e w, l @ [EvRecord k e]))\<rparr>"

definition log_executor :: "('c, 'w) executor \<Rightarrow> ('c, 'w \<times> 'c exec_event list) executor" where
  "log_executor ex =
     \<lparr>ex_health = map_option log_health (ex_health ex), ex_key = ex_key ex, ex_retry = ex_retry ex,
      ex_now = carry (ex_now ex), ex_sleep = (\<lambda>d. carry (ex_sleep ex d))\<rparr>"

definition outcome_records :: "('c, 'w) executor \<Rightarrow> string \<Rightarrow> 'r try_outcome \<Rightarrow> 'c exec_event list" where
  "outcome_records ex key out =
     (if ex_health ex = None then []
      else case out of
        Served _ \<Rightarrow> [EvRecord key None]
      | GaveUp _ \<Rightarrow> []
      | Failed _ e \<Rightarrow> [EvRecord key (Some e)])"

definition attempt_events :: "('c, 'w) executor \<Rightarrow> bool \<Rightarrow> 'c attempt \<Rightarrow> 'c exec_event list" where
  "attempt_events ex recorded a =
     (if at_unavailable a then []
      else replicate (nat (at_tries a)) (EvRun (at_candidate a)) @
        (if recorded \<and> ex_health ex \<noteq> None then [EvRecord (at_key a) (at_err a)] else []))"

text \<open>The events of a trace in order; only its last entry may be one whose caller gave up.\<close>

fun trace_events :: "('c, 'w) executor \<Rightarrow> bool \<Rightarrow> 'c attempt list \<Rightarrow> 'c exec_event list" where
  "trace_events ex gave_up [] = []"
| "trace_events ex gave_up [a] = attempt_events ex (\<not> gave_up) a"
| "trace_events ex gave_up (a # b # as) = attempt_events ex True a @ trace_events ex gave_up (b # as)"

definition context_error :: "('c, 'w) executor \<Rightarrow> ('w \<Rightarrow> go_err option \<times> 'w) \<Rightarrow> go_err \<Rightarrow> bool" where
  "context_error ex ctx e \<longleftrightarrow>
     (\<exists>w. fst (ctx w) = Some e) \<or> (\<exists>d w. fst (ex_sleep ex d w) = Some e)"

lemma log_run_eq [simp]: "log_run run c (w, l) = (fst (run c w), (snd (run c w), l @ [EvRun c]))"
  by (simp add: log_run_def split: prod.split)

lemma log_executor_sel [simp]:
  "ex_key (log_executor ex) = ex_key ex" "ex_retry (log_executor ex) = ex_retry ex"
  "ex_now (log_executor ex) = carry (ex_now ex)" "ex_sleep (log_executor ex) d = carry (ex_sleep ex d)"
  "ex_health (log_executor ex) = None \<longleftrightarrow> ex_health ex = None"
  by (simp_all add: log_executor_def)

lemma log_record [simp]:
  "executor_record (log_executor ex) k e (w, l) =
     (executor_record ex k e w, l @ (if ex_health ex = None then [] else [EvRecord k e]))"
  by (simp add: executor_record_def log_executor_def log_health_def split: option.split)

lemma log_wait [simp]:
  "retry_wait rt (\<lambda>d. carry (sleep d)) (carry ctx) n e (w, l) =
     (fst (retry_wait rt sleep ctx n e w), (snd (retry_wait rt sleep ctx n e w), l))"
  by (simp add: retry_wait_def Let_def)

lemma log_executor_sleep [simp]: "ex_sleep (log_executor ex) = (\<lambda>d. carry (ex_sleep ex d))"
  by (simp add: log_executor_def)

lemma log_admit [simp]:
  "admit_candidate (log_executor ex) c (w, l) =
     (fst (admit_candidate ex c w), (snd (admit_candidate ex c w), l))"
  by (simp add: admit_candidate_def log_executor_def log_health_def split: option.split prod.split)

definition tries_between :: "'c attempt \<Rightarrow> 'c attempt \<Rightarrow> 'c exec_event list" where
  "tries_between a a' = replicate (nat (at_tries a' - at_tries a)) (EvRun (at_candidate a))"

lemma log_try_loop:
  "\<forall>l. try_loop (log_executor ex) (carry ctx) (log_run run) a (w, l) =
     (case try_loop ex ctx run a w of
        ((a', out), w') \<Rightarrow>
          ((a', out), (w', l @ tries_between a a' @ outcome_records ex (at_key a) out)))"
proof (induction rule: try_loop_rule [of run _ ex ctx])
  case (repeat a w e w1 w2 w3)
  let ?b = "describe (Some e) (tried a)"
  have "tries_between a a' = EvRun (at_candidate a) # tries_between ?b a'"
    if "at_tries ?b < at_tries a'" for a'
  proof -
    have "nat (at_tries a' - at_tries a) = Suc (nat (at_tries a' - at_tries ?b))"
      using that by simp
    then show ?thesis by (simp add: tries_between_def)
  qed
  then show ?case
    using repeat try_loop_entry [where ex = ex and ctx = ctx and run = run and a = ?b and w = w3]
    by (auto simp: try_loop.simps [of "log_executor ex" _ _ a] disposition_of_simps(1) Let_def split: prod.splits)
next
  case (failed a w e w1 w2)
  then show ?case
    by (auto simp: try_loop.simps [of "log_executor ex"] disposition_of_simps(1) Let_def tries_between_def
        outcome_records_def)
qed (simp_all add: try_loop.simps [of "log_executor ex"] disposition_of_simps(1) Let_def tries_between_def
  outcome_records_def)

lemma log_try_candidate:
  assumes "try_candidate ex ctx run a w = ((a', out), w')" and "at_tries a = 0" and "\<not> at_unavailable a"
  shows "try_candidate (log_executor ex) (carry ctx) (log_run run) a (w, l) =
    ((a', out), (w', l @ (case out of GaveUp _ \<Rightarrow> attempt_events ex False a'
                                     | _ \<Rightarrow> attempt_events ex True a')))"
proof -
  obtain t w1 where now: "ex_now ex w = (t, w1)" by fastforce
  obtain b o' w2 where loop: "try_loop ex ctx run a w1 = ((b, o'), w2)" by (metis prod.exhaust)
  have b: "at_key b = at_key a" "at_candidate b = at_candidate a" "at_unavailable b = at_unavailable a"
    "outcome_of ex b o'"
    using try_loop_entry [where ex = ex and ctx = ctx and run = run and a = a and w = w1] loop by auto
  have log: "try_loop (log_executor ex) (carry ctx) (log_run run) a (w1, l) =
      ((b, o'), (w2, l @ tries_between a b @ outcome_records ex (at_key a) o'))"
    using log_try_loop [of ex ctx run a w1] loop by simp
  have "a' = b\<lparr>at_duration := time_sub (fst (ex_now ex w2)) t\<rparr>" "out = o'" "w' = snd (ex_now ex w2)"
    using assms(1) now loop by (auto simp: try_candidate_def split: prod.splits)
  with now log b assms(2,3) show ?thesis
    by (cases o')
      (auto simp: try_candidate_def attempt_events_def tries_between_def outcome_records_def outcome_of_def)
qed

lemma trace_events_cons:
  "new \<noteq> [] \<Longrightarrow> trace_events ex g (a # new) = attempt_events ex True a @ trace_events ex g new"
  by (cases new) simp_all

lemma try_loop_gave_up:
  "case try_loop ex ctx run a w of ((a', out), w') \<Rightarrow> \<forall>e. out = GaveUp e \<longrightarrow> context_error ex ctx e"
proof (induction rule: try_loop_rule [of run _ ex ctx])
  case (gave_up_try a w e w1 c w2)
  then show ?case by (auto simp: context_error_def) (metis fst_conv)
next
  case (gave_up_wait a w e w1 w2 we w3)
  have "fst (retry_wait (ex_retry ex) (ex_sleep ex) ctx (at_tries a + 1) e w2) = Some we"
    using gave_up_wait(5) by simp
  then have "context_error ex ctx we"
    unfolding retry_wait_def context_error_def Let_def by (auto split: if_splits)
  then show ?case by simp
qed simp_all

lemma try_candidate_gave_up:
  "try_candidate ex ctx run a w = ((a', GaveUp e), w') \<Longrightarrow> context_error ex ctx e"
  using try_loop_gave_up [where ex = ex and ctx = ctx and run = run and a = a and w = "snd (ex_now ex w)"]
  by (auto simp: try_candidate_def split: prod.splits)

text \<open>What a logged loop appends to the events of a run that starts with \<open>w\<close>.\<close>

definition logged_post ::
    "('c, 'w) executor \<Rightarrow> ('w \<Rightarrow> go_err option \<times> 'w) \<Rightarrow> 'c attempt list \<Rightarrow>
     (('c, 'r) exec_result \<times> go_err option) \<times> 'w \<Rightarrow>
     'c exec_event list \<Rightarrow> (('c, 'r) exec_result \<times> go_err option) \<times> ('w \<times> 'c exec_event list) \<Rightarrow> bool" where
  "logged_post ex ctx trace r l r' \<longleftrightarrow>
     (\<exists>new gave_up. xr_attempts (fst (fst r)) = trace @ new \<and>
        r' = (fst r, (snd r, l @ trace_events ex gave_up new)) \<and>
        (gave_up \<longrightarrow> (\<exists>e. snd (fst r) = Some e \<and> context_error ex ctx e)))"

lemma logged_post_nil:
  "logged_post ex ctx trace ((\<lparr>xr_served = None, xr_attempts = trace\<rparr>, err), w') l
     ((\<lparr>xr_served = None, xr_attempts = trace\<rparr>, err), (w', l))"
  unfolding logged_post_def by (intro exI [of _ "[]"] exI [of _ False]) simp

lemma logged_post_single:
  assumes "gave_up \<longrightarrow> (\<exists>e. err = Some e \<and> context_error ex ctx e)"
  shows "logged_post ex ctx trace ((\<lparr>xr_served = v, xr_attempts = trace @ [a]\<rparr>, err), w') l
     ((\<lparr>xr_served = v, xr_attempts = trace @ [a]\<rparr>, err), (w', l @ attempt_events ex (\<not> gave_up) a))"
  using assms unfolding logged_post_def by (intro exI [of _ "[a]"] exI [of _ gave_up]) simp

lemma logged_post_step:
  assumes "logged_post ex ctx (trace @ [a]) r (l @ attempt_events ex True a) r'"
  shows "logged_post ex ctx trace r l r'"
proof -
  from assms obtain new g where *: "xr_attempts (fst (fst r)) = (trace @ [a]) @ new"
    "r' = (fst r, (snd r, (l @ attempt_events ex True a) @ trace_events ex g new))"
    "g \<longrightarrow> (\<exists>e. snd (fst r) = Some e \<and> context_error ex ctx e)"
    unfolding logged_post_def by blast
  show ?thesis
  proof (cases "new = []")
    case True
    with * show ?thesis
      unfolding logged_post_def by (intro exI [of _ "[a]"] exI [of _ False]) simp
  next
    case False
    with * show ?thesis
      unfolding logged_post_def
      by (intro exI [of _ "a # new"] exI [of _ g]) (simp add: trace_events_cons)
  qed
qed

lemma log_exec_loop:
  "\<forall>l. logged_post ex ctx trace (exec_loop ex ctx run cs trace recent until w) l
     (exec_loop (log_executor ex) (carry ctx) (log_run run) cs trace recent until (w, l))"
proof (induction rule: exec_loop_rule [of _ ex ctx run])
  case (explained trace e until w)
  then show ?case by (simp add: logged_post_nil)
next
  case (unavailable trace until w e w')
  have "unavailable_error (log_executor ex) until (w, l) = (e, (w', l))" for l
    using unavailable by (auto simp: unavailable_error_def split: if_splits prod.splits)
  then show ?case by (simp add: logged_post_nil)
next
  case (ended c cs trace recent until w e w1)
  then show ?case by (simp add: logged_post_nil)
next
  case (skipped c cs trace recent until w w1 a w2)
  have "attempt_events ex True a = []"
    using admit_candidate_entry(1) [OF skipped(2)] by (simp add: attempt_events_def)
  then have "logged_post ex ctx (trace @ [a])
      (exec_loop ex ctx run cs (trace @ [a]) recent (earlier until (at_until a)) w2) (l @ attempt_events ex True a)
      (exec_loop (log_executor ex) (carry ctx) (log_run run) (c # cs) trace recent until (w, l))" for l
    using skipped by simp
  then show ?case by (blast intro: logged_post_step)
next
  case (served c cs trace recent until w w1 a w2 a' v w3)
  have "try_candidate (log_executor ex) (carry ctx) (log_run run) a (w2, l) =
      ((a', Served v), (w3, l @ attempt_events ex True a'))" for l
    using log_try_candidate [OF served(3)] admit_candidate_entry(2) [OF served(2)] by simp
  with served show ?case by (simp add: logged_post_single [of False, simplified])
next
  case (gave_up c cs trace recent until w w1 a w2 a' e w3)
  have "try_candidate (log_executor ex) (carry ctx) (log_run run) a (w2, l) =
      ((a', GaveUp e), (w3, l @ attempt_events ex False a'))" for l
    using log_try_candidate [OF gave_up(3)] admit_candidate_entry(2) [OF gave_up(2)] by simp
  with gave_up try_candidate_gave_up [OF gave_up(3)] show ?case
    by (simp add: logged_post_single [of True, simplified])
next
  case (stopped c cs trace recent until w w1 a w2 a' e w3)
  have "try_candidate (log_executor ex) (carry ctx) (log_run run) a (w2, l) =
      ((a', Failed True e), (w3, l @ attempt_events ex True a'))" for l
    using log_try_candidate [OF stopped(3)] admit_candidate_entry(2) [OF stopped(2)] by simp
  with stopped show ?case by (simp add: logged_post_single [of False, simplified])
next
  case (onward c cs trace recent until w w1 a w2 a' e w3)
  have "try_candidate (log_executor ex) (carry ctx) (log_run run) a (w2, l) =
      ((a', Failed False e), (w3, l @ attempt_events ex True a'))" for l
    using log_try_candidate [OF onward(3)] admit_candidate_entry(2) [OF onward(2)] by simp
  then have "logged_post ex ctx (trace @ [a'])
      (exec_loop ex ctx run cs (trace @ [a']) (Some e) until w3) (l @ attempt_events ex True a')
      (exec_loop (log_executor ex) (carry ctx) (log_run run) (c # cs) trace recent until (w, l))" for l
    using onward by simp
  then show ?case by (blast intro: logged_post_step)
qed

subsection \<open>Where a served value comes from\<close>

lemma try_loop_served:
  "case try_loop ex ctx run a w of ((a', out), w') \<Rightarrow>
     \<forall>v. out = Served v \<longrightarrow> (\<exists>w1 w2. run (at_candidate a) w1 = (Inr v, w2))"
proof (induction rule: try_loop_rule [of run _ ex ctx])
  case (served a w v w1)
  then show ?case by auto
qed auto

lemma exec_loop_served:
  "\<forall>v c. xr_served (fst (fst (exec_loop ex ctx run cs trace recent until w))) = Some (v, c) \<longrightarrow>
     c \<in> set cs \<and> (\<exists>w1 w2. run c w1 = (Inr v, w2))"
proof (induction rule: exec_loop_rule [of _ ex ctx run])
  case (served c cs trace recent until w w1 a w2 a' v w3)
  have "at_candidate a = c"
    using admit_candidate_entry(2) [OF served(2)] by simp
  then show ?case
    using try_loop_served [where ex = ex and ctx = ctx and run = run and a = a and w = "snd (ex_now ex w2)"] served(3)
    by (auto simp: try_candidate_def split: prod.splits)
qed auto

lemma execute_served:
  "execute ex ctx run cs w = ((res, err), w') \<Longrightarrow> xr_served res = Some (v, c) \<Longrightarrow>
     c \<in> set cs \<and> (\<exists>w1 w2. run c w1 = (Inr v, w2))"
  using exec_loop_served [of ex ctx run cs "[]" None 0 w]
  by (auto simp: execute_def split: if_splits)

subsection \<open>Executing over a health contract\<close>

text \<open>
  An executor whose health is an implementation of \<open>health_contract\<close>: its state is one part of the
  world, and the rest of the world shows the tracker's clock.
\<close>

definition contract_ops ::
    "(gtime \<Rightarrow> string \<Rightarrow> 'h \<Rightarrow> bool \<times> gtime) \<Rightarrow> (gtime \<Rightarrow> string \<Rightarrow> go_err option \<Rightarrow> 'h \<Rightarrow> 'h) \<Rightarrow>
     ('x \<Rightarrow> gtime) \<Rightarrow> ('h \<times> 'x) health_ops" where
  "contract_ops avail rec clk =
     \<lparr>hl_available = (\<lambda>k (h, x). (avail (clk x) k h, (h, x))),
      hl_record = (\<lambda>k e (h, x). (rec (clk x) k e h, x))\<rparr>"

text \<open>An effect that leaves the health state and the clock alone.\<close>

definition quiet :: "('x \<Rightarrow> gtime) \<Rightarrow> ('h \<times> 'x \<Rightarrow> 'a \<times> ('h \<times> 'x)) \<Rightarrow> bool" where
  "quiet clk f \<longleftrightarrow> (\<forall>h x r h' x'. f (h, x) = (r, (h', x')) \<longrightarrow> h' = h \<and> clk x' = clk x)"

lemma quietD: "quiet clk f \<Longrightarrow> f w = (r, w') \<Longrightarrow> fst w' = fst w \<and> clk (snd w') = clk (snd w)"
  by (cases w; cases w') (auto simp: quiet_def)

context health_contract
begin

definition quiet_executor ::
    "('x \<Rightarrow> gtime) \<Rightarrow> ('c, 'h \<times> 'x) executor \<Rightarrow> ('h \<times> 'x \<Rightarrow> go_err option \<times> ('h \<times> 'x)) \<Rightarrow>
     ('c \<Rightarrow> 'h \<times> 'x \<Rightarrow> (go_err + 'r) \<times> ('h \<times> 'x)) \<Rightarrow> bool" where
  "quiet_executor clk ex ctx run \<longleftrightarrow>
     ex_health ex = Some (contract_ops avail rec clk) \<and> quiet clk (ex_now ex) \<and>
     (\<forall>d. quiet clk (ex_sleep ex d)) \<and> quiet clk ctx \<and> (\<forall>c. quiet clk (run c))"

definition same_elsewhere :: "('x \<Rightarrow> gtime) \<Rightarrow> string \<Rightarrow> 'h \<times> 'x \<Rightarrow> 'h \<times> 'x \<Rightarrow> bool" where
  "same_elsewhere clk key w w' \<longleftrightarrow>
     clk (snd w') = clk (snd w) \<and>
     (\<forall>k t. k \<noteq> key \<longrightarrow> avail t k (fst w') = avail t k (fst w))"

lemma same_elsewhere_quiet: "quiet clk f \<Longrightarrow> f w = (r, w') \<Longrightarrow> same_elsewhere clk key w w'"
  using quietD [of clk f w r w'] by (simp add: same_elsewhere_def)

lemma same_elsewhere_trans:
  "same_elsewhere clk key w w' \<Longrightarrow> same_elsewhere clk key w' w'' \<Longrightarrow> same_elsewhere clk key w w''"
  by (simp add: same_elsewhere_def)

lemma same_elsewhere_record:
  "quiet_executor clk ex ctx run \<Longrightarrow> same_elsewhere clk key w (executor_record ex key e w)"
  by (cases w) (simp add: same_elsewhere_def quiet_executor_def executor_record_def contract_ops_def avail_frame)

lemma retry_wait_quiet:
  "quiet_executor clk ex ctx run \<Longrightarrow> quiet clk (retry_wait (ex_retry ex) (ex_sleep ex) ctx n e)"
  unfolding quiet_def retry_wait_def Let_def quiet_executor_def by (auto split: if_splits)

lemma try_loop_elsewhere:
  assumes q: "quiet_executor clk ex ctx run"
  shows "same_elsewhere clk (at_key a) w (snd (try_loop ex ctx run a w))"
proof -
  have run: "run c w = (r, w') \<Longrightarrow> same_elsewhere clk key w w'" for c w r w' key
    by (rule same_elsewhere_quiet [of clk "run c"]) (use q in \<open>simp_all add: quiet_executor_def\<close>)
  have ctx: "ctx w = (r, w') \<Longrightarrow> same_elsewhere clk key w w'" for w r w' key
    by (rule same_elsewhere_quiet [of clk ctx]) (use q in \<open>simp_all add: quiet_executor_def\<close>)
  have wait: "retry_wait (ex_retry ex) (ex_sleep ex) ctx n e w = (r, w') \<Longrightarrow> same_elsewhere clk key w w'"
    for n e w r w' key
    by (rule same_elsewhere_quiet [OF retry_wait_quiet [OF q]])
  note rec = same_elsewhere_record [OF q] and trans = same_elsewhere_trans
  show ?thesis
  proof (induction rule: try_loop_rule [where ex = ex and ctx = ctx and run = run and a = a and w = w])
    case (served a w v w1)
    show ?case using trans [OF run [OF served] rec] by simp
  next
    case (gave_up_try a w e w1 c w2)
    show ?case using trans [OF run ctx, OF gave_up_try(1,2)] by simp
  next
    case (gave_up_wait a w e w1 w2 we w3)
    show ?case using trans [OF trans [OF run ctx] wait, OF gave_up_wait(1,2,5)] by simp
  next
    case (repeat a w e w1 w2 w3)
    show ?case using trans [OF trans [OF trans [OF run ctx] wait], OF repeat(1,2,5)] repeat(6) by simp
  next
    case (failed a w e w1 w2)
    show ?case using trans [OF trans [OF run ctx] rec, OF failed(1,2)] by simp
  qed
qed

lemma try_candidate_elsewhere:
  assumes q: "quiet_executor clk ex ctx run"
    and t: "try_candidate ex ctx run a w = (r, w')"
  shows "same_elsewhere clk (at_key a) w w'"
proof -
  have now: "ex_now ex w = (r, w') \<Longrightarrow> same_elsewhere clk key w w'" for w r w' key
    by (rule same_elsewhere_quiet [of clk "ex_now ex"]) (use q in \<open>simp_all add: quiet_executor_def\<close>)
  obtain s w1 where n1: "ex_now ex w = (s, w1)" by (cases "ex_now ex w")
  obtain b o' w2 where l: "try_loop ex ctx run a w1 = ((b, o'), w2)" by (metis surj_pair)
  obtain e w3 where n2: "ex_now ex w2 = (e, w3)" by (cases "ex_now ex w2")
  have "same_elsewhere clk (at_key a) w1 w2"
    using try_loop_elsewhere [OF q, of a w1] l by simp
  moreover have "w' = w3"
    using t n1 l n2 by (simp add: try_candidate_def)
  ultimately show ?thesis
    using same_elsewhere_trans [OF same_elsewhere_trans [OF now [OF n1]] now [OF n2]] by simp
qed

text \<open>
  With distinct keys and a clock that stands still, which candidates are skipped is decided by the
  health state the execution starts in.
\<close>

lemma skipped_by_initial_health:
  assumes q: "quiet_executor clk ex ctx run" and key: "ex_key ex = Some key"
  shows "distinct (map key cs) \<longrightarrow> clk (snd w) = t \<longrightarrow>
      (\<forall>c\<in>set cs. avail t (key c) (fst w) = avail t (key c) h) \<longrightarrow>
      (\<forall>new. xr_attempts (fst (fst (exec_loop ex ctx run cs trace recent until w))) = trace @ new \<longrightarrow>
         list_all (\<lambda>a. at_unavailable a \<longleftrightarrow> \<not> fst (avail t (key (at_candidate a)) h)) new)"
proof -
  have ctx: "ctx w = (r, w') \<Longrightarrow> clk (snd w') = clk (snd w) \<and> fst w' = fst w" for w r w'
    using quietD [of clk ctx w r w'] q by (simp add: quiet_executor_def)
  have admit: "w2 = w1 \<and> at_unavailable a \<and> at_candidate a = c \<and> \<not> fst (avail (clk (snd w1)) (key c) (fst w1))"
    if "admit_candidate ex c w1 = (Inl a, w2)" for c w1 a w2
    using that q key
    by (cases w1) (auto simp: admit_candidate_def quiet_executor_def contract_ops_def new_attempt_def
        split: prod.splits if_splits)
  have admit': "w2 = w1 \<and> at_key a = key c \<and> fst (avail (clk (snd w1)) (key c) (fst w1))"
    if "admit_candidate ex c w1 = (Inr a, w2)" for c w1 a w2
    using that q key
    by (cases w1) (auto simp: admit_candidate_def quiet_executor_def contract_ops_def new_attempt_def
        split: prod.splits if_splits)
  show ?thesis
  proof (induction rule: exec_loop_rule
      [where ex = ex and ctx = ctx and run = run and cs = cs and trace = trace and recent = recent and until = until and w = w])
    case (skipped c cs trace recent until w w1 a w2)
    show ?case
    proof (intro impI allI)
      fix new
      assume d: "distinct (map key (c # cs))" and now: "clk (snd w) = t"
        and same: "\<forall>c\<in>set (c # cs). avail t (key c) (fst w) = avail t (key c) h"
        and new: "xr_attempts (fst (fst (exec_loop ex ctx run cs (trace @ [a]) recent
            (earlier until (at_until a)) w2))) = trace @ new"
      obtain rest where rest: "new = a # rest"
        using exec_loop_grows [of ex ctx run cs "trace @ [a]" recent "earlier until (at_until a)" w2] new
        by auto
      have "list_all (\<lambda>a. at_unavailable a \<longleftrightarrow> \<not> fst (avail t (key (at_candidate a)) h)) rest"
        using skipped(3) ctx [OF skipped(1)] admit [OF skipped(2)] d now same new rest by simp
      with rest ctx [OF skipped(1)] admit [OF skipped(2)] now same
      show "list_all (\<lambda>a. at_unavailable a \<longleftrightarrow> \<not> fst (avail t (key (at_candidate a)) h)) new"
        by simp
    qed
  next
    case (onward c cs trace recent until w w1 a w2 a' e w3)
    show ?case
    proof (intro impI allI)
      fix new
      assume d: "distinct (map key (c # cs))" and now: "clk (snd w) = t"
        and same: "\<forall>c\<in>set (c # cs). avail t (key c) (fst w) = avail t (key c) h"
        and new: "xr_attempts (fst (fst (exec_loop ex ctx run cs (trace @ [a']) (Some e) until w3))) = trace @ new"
      obtain rest where rest: "new = a' # rest"
        using exec_loop_grows [of ex ctx run cs "trace @ [a']" "Some e" until w3] new by auto
      have e: "same_elsewhere clk (key c) w2 w3"
        using try_candidate_elsewhere [OF q onward(3)] admit' [OF onward(2)] by simp
      have "\<forall>c\<in>set cs. avail t (key c) (fst w3) = avail t (key c) h"
        using e ctx [OF onward(1)] admit' [OF onward(2)] d same
        by (auto simp: same_elsewhere_def image_iff)
      moreover have "clk (snd w3) = t"
        using e ctx [OF onward(1)] admit' [OF onward(2)] now by (simp add: same_elsewhere_def)
      ultimately have "list_all (\<lambda>a. at_unavailable a \<longleftrightarrow> \<not> fst (avail t (key (at_candidate a)) h)) rest"
        using onward(4) d new rest by simp
      with rest ctx [OF onward(1)] admit' [OF onward(2)] now same
        admit_candidate_entry(2) [OF onward(2)] try_candidate_entry [OF onward(3)]
      show "list_all (\<lambda>a. at_unavailable a \<longleftrightarrow> \<not> fst (avail t (key (at_candidate a)) h)) new"
        by auto
    qed
  next
    case (served c cs trace recent until w w1 a w2 a' v w3)
    then show ?case
      using ctx [OF served(1)] admit' [OF served(2)] admit_candidate_entry(2) [OF served(2)]
        try_candidate_entry [OF served(3)] by auto
  next
    case (gave_up c cs trace recent until w w1 a w2 a' e w3)
    then show ?case
      using ctx [OF gave_up(1)] admit' [OF gave_up(2)] admit_candidate_entry(2) [OF gave_up(2)]
        try_candidate_entry [OF gave_up(3)] by auto
  next
    case (stopped c cs trace recent until w w1 a w2 a' e w3)
    then show ?case
      using ctx [OF stopped(1)] admit' [OF stopped(2)] admit_candidate_entry(2) [OF stopped(2)]
        try_candidate_entry [OF stopped(3)] by auto
  qed simp_all
qed

lemma execute_skips:
  assumes "quiet_executor clk ex ctx run" and "ex_key ex = Some key" and "distinct (map key cs)"
    and "execute ex ctx run cs (h, x) = ((res, err), w')"
  shows "list_all (\<lambda>a. at_unavailable a \<longleftrightarrow> \<not> fst (avail (clk x) (key (at_candidate a)) h)) (xr_attempts res)"
proof (cases "cs = []")
  case True
  with assms show ?thesis by (auto simp: execute_def split: if_splits)
next
  case False
  with assms skipped_by_initial_health [OF assms(1,2), of cs "(h, x)" "clk x" h "[]" None 0]
  show ?thesis by (simp add: execute_def)
qed

end

subsection \<open>Properties\<close>

lemma none_passed:
  "(filter (\<lambda>a. \<not> at_unavailable a \<and> at_err a = None) as = []) =
     list_all (\<lambda>a. at_unavailable a \<or> at_err a \<noteq> None) as"
  by (induction as) auto


text \<open>
  When every candidate was skipped, the error says so and until when: it is an
  \<^verbatim>\<open>UnavailableError\<close> whose instant is the earliest the health state gave for a candidate (zero
  when it gave none), with a delay that is never negative.
\<close>
theorem all_skipped_unavailable:
  assumes "execute ex ctx run cs w = ((res, err), w')" and "cs \<noteq> []"
    and "length (xr_attempts res) = length cs" and "list_all at_unavailable (xr_attempts res)"
  shows "\<exists>u ra. err = Some (UnavailableErr u ra) \<and> 0 \<le> ra \<and> (u = 0 \<longrightarrow> ra = 0) \<and>
    (u = 0 \<longleftrightarrow> list_all (\<lambda>a. at_until a = 0) (xr_attempts res)) \<and>
    (u \<noteq> 0 \<longrightarrow> u \<in> at_until ` set (xr_attempts res)) \<and>
    list_all (\<lambda>a. at_until a = 0 \<or> u \<le> at_until a) (xr_attempts res)"
proof -
  let ?as = "xr_attempts res"
  have loop: "exec_loop ex ctx run cs [] None 0 w = ((res, err), w')"
    using assms by (auto simp: execute_def split: if_splits)
  have ne: "?as \<noteq> []"
    using assms(2,3) by auto
  have "at_unavailable (last ?as)"
    using assms(4) last_in_set [OF ne] by (simp add: list_all_iff)
  then have *: "case last_error None ?as of
           Some e \<Rightarrow> err = Some e
         | None \<Rightarrow> \<exists>ra. err = Some (UnavailableErr (earliest 0 ?as) ra) \<and> 0 \<le> ra \<and> (earliest 0 ?as = 0 \<longrightarrow> ra = 0)"
    using exec_loop_exhausted [of "[]" None 0 cs ex ctx run w] assms(3)
    unfolding loop exhausted_post_def by (auto split: option.splits)
  then obtain ra where "err = Some (UnavailableErr (earliest 0 ?as) ra)" "0 \<le> ra" "earliest 0 ?as = 0 \<longrightarrow> ra = 0"
    by (auto simp: last_error_skipped [OF assms(4)])
  then show ?thesis
    using earliest_skipped [OF assms(4), of 0]
    by - (rule exI [of _ "earliest 0 ?as"], rule exI [of _ ra], auto simp: Let_def)
qed

definition demo_executor :: "(string, tracker \<times> gtime) executor" where
  "demo_executor =
     \<lparr>ex_health = Some (contract_ops (tracker_available demo_config) (tracker_record demo_config) id),
      ex_key = Some id, ex_retry = \<lparr>rt_attempts = 2, rt_delay = None\<rparr>,
      ex_now = (\<lambda>(h, t). (t, (h, t))), ex_sleep = (\<lambda>d w. (None, w))\<rparr>"

definition demo_run :: "string \<Rightarrow> tracker \<times> gtime \<Rightarrow> (go_err + nat) \<times> (tracker \<times> gtime)" where
  "demo_run c w = (if c = ''good'' then (Inr 7, w) else (Inl transport_failure, w))"

definition demo_tracker :: tracker where
  "demo_tracker =
     [''open'' \<mapsto> new_key_health\<lparr>kh_streak := 5, kh_open_until := 90\<rparr>,
      ''later'' \<mapsto> new_key_health\<lparr>kh_cool_until := 70\<rparr>]"

abbreviation demo_ctx :: "tracker \<times> gtime \<Rightarrow> go_err option \<times> (tracker \<times> gtime)" where
  "demo_ctx w \<equiv> (None, w)"

lemma execute_loop:
  "ex_health ex = None \<or> ex_key ex \<noteq> None \<Longrightarrow> cs \<noteq> [] \<Longrightarrow>
     execute ex ctx run cs w = exec_loop ex ctx run cs [] None 0 w"
  by (auto simp: execute_def)

lemma demo_executor_sel:
  "ex_health demo_executor \<noteq> None" "ex_key demo_executor \<noteq> None" "ex_now demo_executor w = (snd w, w)"
  "executor_record demo_executor k e w = (tracker_record demo_config (snd w) k e (fst w), snd w)"
  by (simp_all add: demo_executor_def executor_record_def contract_ops_def split: prod.split)

lemma demo_skips:
  "admit_candidate demo_executor ''open'' (demo_tracker, 20) =
     (Inl ((new_attempt ''open'')\<lparr>at_key := ''open'', at_unavailable := True, at_until := 90\<rparr>), (demo_tracker, 20))"
  "admit_candidate demo_executor ''later'' (demo_tracker, 20) =
     (Inl ((new_attempt ''later'')\<lparr>at_key := ''later'', at_unavailable := True, at_until := 70\<rparr>), (demo_tracker, 20))"
  "admit_candidate demo_executor ''good'' (demo_tracker, 20) =
     (Inr ((new_attempt ''good'')\<lparr>at_key := ''good''\<rparr>), (demo_tracker, 20))"
  by (simp_all add: admit_candidate_def demo_executor_def contract_ops_def demo_tracker_def
      tracker_available_def tracker_until_def later_def Let_def new_key_health_def
      default_health_policy_def default_failure_threshold_def)

theorem all_skipped_unavailable_witness:
  "\<exists>res w' ra. execute demo_executor demo_ctx demo_run [''open'', ''later''] (demo_tracker, 20) =
     ((res, Some (UnavailableErr 70 ra)), w')"
proof -
  obtain res err w' where e: "execute demo_executor demo_ctx demo_run [''open'', ''later''] (demo_tracker, 20) =
      ((res, err), w')"
    by (metis surj_pair)
  have as: "map (\<lambda>a. (at_unavailable a, at_until a)) (xr_attempts res) = [(True, 90), (True, 70)]"
    using e
    by (auto simp: execute_loop demo_skips demo_executor_sel earlier_def is_zero_time_def unavailable_error_def
        simp del: not_None_eq)
  then obtain a b where ab: "xr_attempts res = [a, b]" "at_unavailable a" "at_until a = 90"
    "at_unavailable b" "at_until b = 70"
    by auto
  show ?thesis
    using all_skipped_unavailable [OF e] ab e by auto
qed

text \<open>
  C17. Health hears exactly one outcome of every candidate tried, that of its last try, right after
  its tries and before the next candidate's; nothing is recorded for a skipped candidate, nor for a
  last one whose caller gave up, which ends the execution with an error of the context or of waiting.
\<close>
theorem recorded_once_per_candidate:
  assumes "execute (log_executor ex) (carry ctx) (log_run run) cs (w, []) = ((res, err), (w', events))"
  shows "execute ex ctx run cs w = ((res, err), w') \<and>
    (\<exists>gave_up. events = trace_events ex gave_up (xr_attempts res) \<and>
       (gave_up \<longrightarrow> (\<exists>e. err = Some e \<and> context_error ex ctx e)))"
proof (cases "ex_health ex \<noteq> None \<and> ex_key ex = None \<or> cs = []")
  case True
  with assms show ?thesis
    by (auto simp: execute_def intro: exI [of _ False] split: if_splits)
next
  case False
  then have "execute (log_executor ex) (carry ctx) (log_run run) cs (w, []) =
      exec_loop (log_executor ex) (carry ctx) (log_run run) cs [] None 0 (w, [])"
    and "execute ex ctx run cs w = exec_loop ex ctx run cs [] None 0 w"
    by (auto simp: execute_def)
  moreover have "logged_post ex ctx [] (exec_loop ex ctx run cs [] None 0 w) []
      (exec_loop (log_executor ex) (carry ctx) (log_run run) cs [] None 0 (w, []))"
    using log_exec_loop [of ex ctx "[]" run cs None 0 w] by blast
  ultimately show ?thesis
    using assms by (cases "exec_loop ex ctx run cs [] None 0 w") (auto simp: logged_post_def)
qed

theorem recorded_once_per_candidate_witness:
  "\<exists>res err w'. execute (log_executor demo_executor) (carry demo_ctx) (log_run demo_run) [''good''] ((demo_tracker, 20), []) =
      ((res, err), (w', [EvRun ''good'', EvRecord ''good'' None])) \<and>
    execute demo_executor demo_ctx demo_run [''good''] (demo_tracker, 20) = ((res, err), w')"
proof -
  obtain res err w' events where e:
    "execute (log_executor demo_executor) (carry demo_ctx) (log_run demo_run) [''good''] ((demo_tracker, 20), []) =
      ((res, err), (w', events))"
    by (metis surj_pair)
  have ev: "events = [EvRun ''good'', EvRecord ''good'' None]"
    using e
    by (auto simp: execute_loop demo_skips demo_executor_sel try_candidate_def try_loop.simps demo_run_def
        new_attempt_def Let_def simp del: not_None_eq)
  show ?thesis
    using recorded_once_per_candidate [OF e] e unfolding ev by blast
qed

text \<open>
  Over a health tracker, with distinct keys and a clock that stands still, what one candidate
  does never hides or frees another: a candidate is skipped exactly when the tracker refused its key
  before the execution began.
\<close>
theorem skipped_iff_unavailable:
  assumes "tracker.quiet_executor cfg clk ex ctx run" and "ex_key ex = Some key" and "distinct (map key cs)"
    and "execute ex ctx run cs (h, x) = ((res, err), w')"
  shows "list_all (\<lambda>a. at_unavailable a \<longleftrightarrow> \<not> fst (tracker_available cfg (clk x) (key (at_candidate a)) h))
    (xr_attempts res)"
  using assms by (rule tracker.execute_skips)

theorem skipped_iff_unavailable_witness:
  "\<exists>res err w'. execute demo_executor demo_ctx demo_run [''open'', ''good''] (demo_tracker, 20) = ((res, err), w') \<and>
     list_all (\<lambda>a. at_unavailable a \<longleftrightarrow> \<not> fst (tracker_available demo_config 20 (at_candidate a) demo_tracker))
       (xr_attempts res)"
proof -
  obtain res err w' where e:
    "execute demo_executor demo_ctx demo_run [''open'', ''good''] (demo_tracker, 20) = ((res, err), w')"
    by (metis surj_pair)
  have q: "tracker.quiet_executor demo_config id demo_executor demo_ctx demo_run"
    by (auto simp: tracker.quiet_executor_def demo_executor_def demo_run_def quiet_def)
  show ?thesis
    using skipped_iff_unavailable [OF q _ _ e] e by (simp add: demo_executor_def)
qed

end
