(* ===== verification/Streaming.thy ===== *)
theory Streaming
  imports Execution
begin

text \<open>
  \<^verbatim>\<open>execution/stream.go\<close>: a candidate serves a stream once the stream carries output. A stream is
  its three methods over the state of the world. Reading until output may never end, so
  \<open>commit_loop\<close> is a partial function, and an execution over it runs in worlds \<open>'w option\<close>, where
  \<open>None\<close> is an execution that does not return.
\<close>

subsection \<open>Streams and committing\<close>

record 'w stream =
  sm_next :: "'w \<Rightarrow> (string \<times> go_err option) \<times> 'w"
  sm_close :: "'w \<Rightarrow> go_err option \<times> 'w"
  sm_losses :: "('w \<Rightarrow> loss list) option"

definition stream_losses :: "'w stream \<Rightarrow> 'w \<Rightarrow> loss list" where
  "stream_losses s w = (case sm_losses s of Some f \<Rightarrow> f w | None \<Rightarrow> [])"

record committed =
  cm_held :: "string list"
  cm_end :: "go_err option"
  cm_closed :: "go_err option option"

definition new_committed :: "string list \<Rightarrow> go_err option \<Rightarrow> committed" where
  "new_committed held ended = \<lparr>cm_held = held, cm_end = ended, cm_closed = None\<rparr>"

definition carries_output :: "(string \<Rightarrow> bool) option \<Rightarrow> string \<Rightarrow> bool" where
  "carries_output output frame = (case output of None \<Rightarrow> True | Some f \<Rightarrow> f frame)"

partial_function (option) commit_loop ::
    "('w \<Rightarrow> go_err option \<times> 'w) \<Rightarrow> (string \<Rightarrow> bool) option \<Rightarrow> 'w stream \<Rightarrow> string list \<Rightarrow> 'w \<Rightarrow>
     ((go_err + committed) \<times> 'w) option" where
  "commit_loop ctx output s held w =
     (case ctx w of
        (Some e, w1) \<Rightarrow> Some (Inl e, snd (sm_close s w1))
      | (None, w1) \<Rightarrow>
          (case sm_next s w1 of
             ((frame, None), w2) \<Rightarrow>
               (if frame = [] then commit_loop ctx output s held w2
                else if carries_output output frame then Some (Inr (new_committed (held @ [frame]) None), w2)
                else commit_loop ctx output s (held @ [frame]) w2)
           | ((frame, Some e), w2) \<Rightarrow>
               (if err_is e IoEOF
                then Some (Inr (new_committed (if frame \<noteq> [] then held @ [frame] else held) (Some e)), w2)
                else Some (Inl e, snd (sm_close s w2)))))"

definition commit ::
    "('w \<Rightarrow> go_err option \<times> 'w) \<Rightarrow> (string \<Rightarrow> bool) option \<Rightarrow> 'w stream \<Rightarrow> 'w \<Rightarrow>
     ((go_err + committed) \<times> 'w) option" where
  "commit ctx output s w = commit_loop ctx output s [] w"

definition is_after_output :: "go_err \<Rightarrow> bool" where
  "is_after_output e = (case e of AfterOutputErr _ \<Rightarrow> True | _ \<Rightarrow> False)"

definition after_output :: "go_err \<Rightarrow> go_err" where
  "after_output e = (if list_ex is_after_output (err_chain e) then e else AfterOutputErr (Some e))"

definition committed_next :: "'w stream \<Rightarrow> committed \<times> 'w \<Rightarrow> (string \<times> go_err option) \<times> (committed \<times> 'w)" where
  "committed_next s cw =
     (case cw of (cm, w) \<Rightarrow>
        (case cm_held cm of
           frame # rest \<Rightarrow> ((frame, None), (cm\<lparr>cm_held := rest\<rparr>, w))
         | [] \<Rightarrow>
             (if cm_end cm \<noteq> None then (([], cm_end cm), (cm, w))
              else
                (case sm_next s w of
                   ((frame, err), w') \<Rightarrow>
                     ((frame,
                       case err of
                         None \<Rightarrow> None
                       | Some e \<Rightarrow> Some (if err_is e IoEOF then e else after_output e)),
                      (cm, w'))))))"

definition committed_close :: "'w stream \<Rightarrow> committed \<times> 'w \<Rightarrow> go_err option \<times> (committed \<times> 'w)" where
  "committed_close s cw =
     (case cw of (cm, w) \<Rightarrow>
        (case cm_closed cm of
           Some err \<Rightarrow> (err, (cm, w))
         | None \<Rightarrow>
             (case sm_close s w of (err, w') \<Rightarrow> (err, (cm\<lparr>cm_closed := Some err\<rparr>, w')))))"

definition committed_losses :: "'w stream \<Rightarrow> committed \<times> 'w \<Rightarrow> loss list" where
  "committed_losses s cw = stream_losses s (snd cw)"

subsection \<open>Executing over streams\<close>

definition err_no_stream :: go_err where
  "err_no_stream = Sentinel ''execution: open returned no stream''"

definition open_stream ::
    "('c \<Rightarrow> 'w \<Rightarrow> ('w stream option \<times> go_err option) \<times> 'w) \<Rightarrow> ('w \<Rightarrow> go_err option \<times> 'w) \<Rightarrow>
     (string \<Rightarrow> bool) option \<Rightarrow> 'c \<Rightarrow> 'w \<Rightarrow> ((go_err + 'w stream \<times> committed) \<times> 'w) option" where
  "open_stream open ctx output c w =
     (case open c w of
        ((so, Some e), w1) \<Rightarrow>
          Some (Inl e, (case so of Some s \<Rightarrow> snd (sm_close s w1) | None \<Rightarrow> w1))
      | ((None, None), w1) \<Rightarrow> Some (Inl err_no_stream, w1)
      | ((Some s, None), w1) \<Rightarrow>
          map_option (\<lambda>(r, w2). (map_sum id (Pair s) r, w2)) (commit ctx output s w1))"

text \<open>An effect over worlds that may not be reached: in \<open>None\<close> it answers \<open>d\<close> and stays there.\<close>

definition strictly :: "'a \<Rightarrow> ('w \<Rightarrow> 'a \<times> 'w) \<Rightarrow> 'w option \<Rightarrow> 'a \<times> 'w option" where
  "strictly d f wo =
     (case wo of None \<Rightarrow> (d, None) | Some w \<Rightarrow> (case f w of (r, w') \<Rightarrow> (r, Some w')))"

definition strict_executor :: "('c, 'w) executor \<Rightarrow> ('c, 'w option) executor" where
  "strict_executor ex =
     \<lparr>ex_health = map_option (\<lambda>h. \<lparr>hl_available = (\<lambda>k. strictly (True, 0) (hl_available h k)),
                                  hl_record = (\<lambda>k e. map_option (hl_record h k e))\<rparr>) (ex_health ex),
      ex_key = ex_key ex, ex_retry = ex_retry ex, ex_now = strictly 0 (ex_now ex),
      ex_sleep = (\<lambda>d. strictly (Some CtxCanceled) (ex_sleep ex d))\<rparr>"

definition execute_stream ::
    "('c, 'w) executor \<Rightarrow> ('w \<Rightarrow> go_err option \<times> 'w) \<Rightarrow>
     ('c \<Rightarrow> 'w \<Rightarrow> ('w stream option \<times> go_err option) \<times> 'w) \<Rightarrow> (string \<Rightarrow> bool) option \<Rightarrow> 'c list \<Rightarrow> 'w \<Rightarrow>
     (('c, 'w stream \<times> committed) exec_result \<times> go_err option) \<times> 'w option" where
  "execute_stream ex ctx open output candidates w =
     execute (strict_executor ex) (strictly (Some CtxCanceled) ctx)
       (\<lambda>c wo. case wo of
          None \<Rightarrow> (Inl CtxCanceled, None)
        | Some w1 \<Rightarrow>
            (case open_stream open ctx output c w1 of
               None \<Rightarrow> (Inl CtxCanceled, None)
             | Some (r, w2) \<Rightarrow> (r, Some w2)))
       candidates (Some w)"

subsection \<open>What committing reads\<close>

text \<open>\<open>pulls ctx s w frames w'\<close>: reading \<open>frames\<close> from the stream, with a live context before each.\<close>

inductive pulls ::
    "('w \<Rightarrow> go_err option \<times> 'w) \<Rightarrow> 'w stream \<Rightarrow> 'w \<Rightarrow> string list \<Rightarrow> 'w \<Rightarrow> bool" for ctx s where
  pulls_done: "pulls ctx s w [] w"
| pulls_frame: "ctx w = (None, w1) \<Longrightarrow> sm_next s w1 = ((frame, None), w2) \<Longrightarrow> pulls ctx s w2 frames w' \<Longrightarrow>
    pulls ctx s w (frame # frames) w'"

inductive_cases pulls_NilE: "pulls ctx s w [] w'"
inductive_cases pulls_ConsE: "pulls ctx s w (f # fs) w'"
inductive_simps pulls_Nil_iff [simp]: "pulls ctx s w [] w'"

lemma pulls_append: "pulls ctx s w fs w1 \<Longrightarrow> pulls ctx s w1 gs w2 \<Longrightarrow> pulls ctx s w (fs @ gs) w2"
  by (induction rule: pulls.induct) (auto intro: pulls.intros)

text \<open>A frame that is held back: it is empty or carries no output.\<close>

definition silent :: "(string \<Rightarrow> bool) option \<Rightarrow> string \<Rightarrow> bool" where
  "silent output frame \<longleftrightarrow> frame = [] \<or> \<not> carries_output output frame"

abbreviation real_frames :: "string list \<Rightarrow> string list" where
  "real_frames \<equiv> filter (\<lambda>f. f \<noteq> [])"

text \<open>
  How committing ends, after reading silent frames of which \<open>held\<close> were kept: it commits with the
  frame that carries output or with the end of the stream, or it fails and closes the stream.
\<close>

definition commit_ends ::
    "('w \<Rightarrow> go_err option \<times> 'w) \<Rightarrow> (string \<Rightarrow> bool) option \<Rightarrow> 'w stream \<Rightarrow> string list \<Rightarrow> 'w \<Rightarrow>
     (go_err + committed) \<times> 'w \<Rightarrow> bool" where
  "commit_ends ctx output s held w r \<longleftrightarrow>
     (case r of
        (Inr cm, w') \<Rightarrow>
          cm_closed cm = None \<and>
          (\<exists>w1 frame. ctx w = (None, w1) \<and> sm_next s w1 = ((frame, cm_end cm), w') \<and>
             cm_held cm = held @ real_frames [frame] \<and>
             (case cm_end cm of None \<Rightarrow> \<not> silent output frame | Some e \<Rightarrow> err_is e IoEOF))
      | (Inl e, w') \<Rightarrow>
          (\<exists>w1. w' = snd (sm_close s w1) \<and>
             (ctx w = (Some e, w1) \<or>
              (\<exists>w2 frame. ctx w = (None, w2) \<and> sm_next s w2 = ((frame, Some e), w1) \<and> \<not> err_is e IoEOF))))"

definition commit_post ::
    "('w \<Rightarrow> go_err option \<times> 'w) \<Rightarrow> (string \<Rightarrow> bool) option \<Rightarrow> 'w stream \<Rightarrow> string list \<Rightarrow> 'w \<Rightarrow>
     (go_err + committed) \<times> 'w \<Rightarrow> bool" where
  "commit_post ctx output s held w r \<longleftrightarrow>
     (\<exists>hush w1. pulls ctx s w hush w1 \<and> list_all (silent output) hush \<and>
        commit_ends ctx output s (held @ real_frames hush) w1 r)"

lemma commit_post_now: "commit_ends ctx output s held w r \<Longrightarrow> commit_post ctx output s held w r"
  unfolding commit_post_def by (intro exI [of _ "[]"] exI [of _ w]) simp

lemma commit_post_step:
  assumes "commit_post ctx output s (held @ real_frames [frame]) w2 r"
    and "ctx w = (None, w1)" and "sm_next s w1 = ((frame, None), w2)" and "silent output frame"
  shows "commit_post ctx output s held w r"
proof -
  from assms(1) obtain hush w3 where q: "pulls ctx s w2 hush w3" "list_all (silent output) hush"
    and r: "commit_ends ctx output s ((held @ real_frames [frame]) @ real_frames hush) w3 r"
    unfolding commit_post_def by blast
  have "pulls ctx s w (frame # hush) w3"
    using assms(2,3) q(1) by (rule pulls_frame)
  moreover have "(held @ real_frames [frame]) @ real_frames hush = held @ real_frames (frame # hush)"
    by simp
  ultimately show ?thesis
    using r q(2) assms(4) unfolding commit_post_def
    by (intro exI [of _ "frame # hush"] exI [of _ w3]) simp
qed

lemma commit_loop_post:
  assumes "commit_loop ctx output s held w = Some r"
  shows "commit_post ctx output s held w r"
proof (rule commit_loop.raw_induct [of commit_post, OF _ assms])
  fix loop :: "('w \<Rightarrow> go_err option \<times> 'w) \<Rightarrow> (string \<Rightarrow> bool) option \<Rightarrow> 'w stream \<Rightarrow> string list \<Rightarrow> 'w \<Rightarrow>
     ((go_err + committed) \<times> 'w) option"
  fix ctx :: "'w \<Rightarrow> go_err option \<times> 'w" and shows_output s held w r
  assume IH: "\<And>ctx output s held w r. loop ctx output s held w = Some r \<Longrightarrow> commit_post ctx output s held w r"
    and step: "(case ctx w of
        (None, w1) \<Rightarrow>
          (case sm_next s w1 of
             ((frame, None), w2) \<Rightarrow>
               (if frame = [] then loop ctx shows_output s held w2
                else if carries_output shows_output frame
                then Some (Inr (new_committed (held @ [frame]) None), w2)
                else loop ctx shows_output s (held @ [frame]) w2)
           | ((frame, Some e), w2) \<Rightarrow>
               (if err_is e IoEOF
                then Some (Inr (new_committed (if frame \<noteq> [] then held @ [frame] else held) (Some e)), w2)
                else Some (Inl e, snd (sm_close s w2))))
      | (Some e, w1) \<Rightarrow> Some (Inl e, snd (sm_close s w1))) = Some r"
  obtain co w1 where ctx: "ctx w = (co, w1)" by (cases "ctx w")
  obtain frame eo w2 where nx: "sm_next s w1 = ((frame, eo), w2)" by (metis surj_pair)
  consider (ended) e where "co = Some e" | (failed) e where "co = None" "eo = Some e"
    | (hush) "co = None" "eo = None" "silent shows_output frame"
    | (commits) "co = None" "eo = None" "\<not> silent shows_output frame"
    by (cases co; cases eo) auto
  then show "commit_post ctx shows_output s held w r"
  proof cases
    case ended
    with ctx step show ?thesis by (intro commit_post_now) (auto simp: commit_ends_def)
  next
    case failed
    with ctx nx step show ?thesis
      by (intro commit_post_now) (auto simp: commit_ends_def new_committed_def split: if_splits)
  next
    case hush
    then have "loop ctx shows_output s (held @ real_frames [frame]) w2 = Some r"
      using ctx nx step by (auto simp: silent_def split: if_splits)
    from commit_post_step [OF IH [OF this]] ctx nx hush show ?thesis by simp
  next
    case commits
    with ctx nx step have "r = (Inr (new_committed (held @ [frame]) None), w2)"
      by (auto simp: silent_def split: if_splits)
    with commits ctx nx show ?thesis
      by (intro commit_post_now) (auto simp: commit_ends_def new_committed_def silent_def)
  qed
qed

text \<open>Committing returns as soon as what it reads decides.\<close>

lemma commit_loop_pulls:
  "pulls ctx s w hush w1 \<Longrightarrow> list_all (silent output) hush \<Longrightarrow>
     commit_loop ctx output s held w = commit_loop ctx output s (held @ real_frames hush) w1"
proof (induction arbitrary: held rule: pulls.induct)
  case (pulls_done w)
  then show ?case by simp
next
  case (pulls_frame w w1 frame w2 frames w')
  then have "commit_loop ctx output s held w = commit_loop ctx output s (held @ real_frames [frame]) w2"
    by (subst commit_loop.simps) (auto simp: silent_def)
  with pulls_frame show ?case by simp
qed

lemma commit_loop_decides:
  assumes "pulls ctx s w hush w1" and "list_all (silent output) hush"
    and "\<exists>e w2. ctx w1 = (Some e, w2) \<or>
      (\<exists>w2 frame eo w3. ctx w1 = (None, w2) \<and> sm_next s w2 = ((frame, eo), w3) \<and> (eo \<noteq> None \<or> \<not> silent output frame))"
  shows "\<exists>r. commit_loop ctx output s held w = Some r"
  unfolding commit_loop_pulls [OF assms(1,2)]
  by (subst commit_loop.simps) (use assms(3) in \<open>auto simp: silent_def split: option.split\<close>)

subsection \<open>Reading a committed stream\<close>

fun take_frames :: "nat \<Rightarrow> 'w stream \<Rightarrow> committed \<times> 'w \<Rightarrow> (string \<times> go_err option) list \<times> (committed \<times> 'w)" where
  "take_frames 0 s cw = ([], cw)"
| "take_frames (Suc n) s cw =
     (case committed_next s cw of
        (x, cw1) \<Rightarrow> (case take_frames n s cw1 of (xs, cw2) \<Rightarrow> (x # xs, cw2)))"

lemma take_frames_held:
  "cm_held cm = held \<Longrightarrow>
     take_frames (length held) s (cm, w) = (map (\<lambda>f. (f, None)) held, (cm\<lparr>cm_held := []\<rparr>, w))"
  by (induction held arbitrary: cm) (auto simp: committed_next_def)

lemma observe_after_output [simp]:
  "observe (Some (AfterOutputErr c)) = \<lparr>ob_effect = EffectNeutral, ob_class = [], ob_retry_after = 0\<rparr>"
  by (simp add: observe_def)

lemma after_output_wraps:
  "\<not> list_ex is_after_output (err_chain e) \<Longrightarrow> after_output e = AfterOutputErr (Some e)"
  by (simp add: after_output_def)

lemma after_output_chain: "list_ex is_after_output (err_chain (after_output e))"
  by (auto simp: after_output_def is_after_output_def err_chain.simps [of "AfterOutputErr (Some e)"])

lemma commit_post_commit: "commit ctx output s w = Some r \<Longrightarrow> commit_post ctx output s [] w r"
  unfolding commit_def by (rule commit_loop_post)

lemma map_sum_Inr: "map_sum f g x = Inr y \<longleftrightarrow> (\<exists>z. x = Inr z \<and> y = g z)"
  by (cases x) auto

subsection \<open>Properties\<close>


definition demo_stream :: "string list stream" where
  "demo_stream =
     \<lparr>sm_next = (\<lambda>w. case w of [] \<Rightarrow> (([], Some IoEOF), []) | f # fs \<Rightarrow> ((f, None), fs)),
      sm_close = (\<lambda>w. (None, w)), sm_losses = None\<rparr>"

definition demo_output :: "(string \<Rightarrow> bool) option" where
  "demo_output = Some (\<lambda>f. f \<noteq> ''ping'')"


text \<open>
  C35. Committing returns as soon as it can, and closes what it drops: once the stream, after silent
  frames only, gives a frame with output, an error or its end, or the context ends, \<open>commit\<close> returns;
  and when it returns an error, that is the context's or a stream error other than its end, and
  closing the stream was its last effect.
\<close>
theorem commit_returns:
  assumes "pulls ctx s w hush w1" and "list_all (silent output) hush"
    and "ctx w1 = (co, w2)" and "sm_next s w2 = ((frame, eo), w3)"
    and "co \<noteq> None \<or> eo \<noteq> None \<or> \<not> silent output frame"
  shows "\<exists>r. commit ctx output s w = Some r \<and>
    (case r of
       (Inl e, w') \<Rightarrow>
         \<exists>w4. w' = snd (sm_close s w4) \<and>
           ((\<exists>w5. ctx w5 = (Some e, w4)) \<or> (\<exists>w5 f. sm_next s w5 = ((f, Some e), w4) \<and> \<not> err_is e IoEOF))
     | (Inr cm, w') \<Rightarrow> cm_held cm \<noteq> [] \<or> cm_end cm \<noteq> None)"
proof -
  obtain r where r: "commit ctx output s w = Some r"
    using commit_loop_decides [OF assms(1,2), of "[]"] assms(3-5) unfolding commit_def
    by (cases co) auto
  have "commit_post ctx output s [] w r"
    using r by (rule commit_post_commit)
  with r show ?thesis
    by (intro exI [of _ r])
      (auto simp: commit_post_def commit_ends_def silent_def split: sum.splits option.splits, blast+)
qed

theorem commit_returns_witness:
  "\<exists>r. commit (\<lambda>w. (None, w)) demo_output demo_stream [''ping'', ''hi''] = Some r"
proof -
  have p: "pulls (\<lambda>w. (None, w)) demo_stream [''ping'', ''hi''] [''ping''] [''hi'']"
    by (rule pulls_frame [OF _ _ pulls_done], simp, simp add: demo_stream_def)
  show ?thesis
    using commit_returns [OF p, of demo_output None "[''hi'']" "''hi''" None "[]"]
    by (auto simp: silent_def demo_output_def carries_output_def demo_stream_def)
qed

text \<open>
  C34. Nothing fails over after output: once the held frames are read, a failure of the underlying
  stream reaches the caller as an after-output error that is terminal and says nothing about health,
  whatever the failure classifies as (unless it already is an after-output error), while its end
  passes unchanged.
\<close>
theorem after_output_is_terminal:
  assumes "cm_held cm = []" and "cm_end cm = None" and "sm_next s w = ((frame, Some e), w')"
    and "\<not> list_ex is_after_output (err_chain e)"
  shows "(if err_is e IoEOF then committed_next s (cm, w) = ((frame, Some e), (cm, w'))
    else \<exists>e'. committed_next s (cm, w) = ((frame, Some e'), (cm, w')) \<and>
      disposition_of (classify_error e') = DispositionTerminal \<and>
      ob_effect (observe (Some e')) = EffectNeutral \<and> err_unwrap e' = Some e)"
  using assms by (simp add: committed_next_def after_output_wraps classify_simps)

theorem after_output_is_terminal_witness:
  "\<exists>e'. committed_next
      \<lparr>sm_next = \<lambda>w. (([], Some transport_failure), w), sm_close = Pair None, sm_losses = None\<rparr>
      (new_committed [] None, ()) = (([], Some e'), (new_committed [] None, ())) \<and>
    disposition_of (classify_error e') = DispositionTerminal"
  using after_output_is_terminal [of "new_committed [] None"
      "\<lparr>sm_next = \<lambda>w. (([], Some transport_failure), w), sm_close = Pair None, sm_losses = None\<rparr>" "()" "[]"
      transport_failure "()"]
  by (auto simp: new_committed_def transport_failure_def err_chain_unwrap err_is_def is_after_output_def)

text \<open>
  A served stream committed: when an execution over streams serves, the serving candidate's
  stream was opened without an error and committed, and the stream handed out is that one, with what
  it held.
\<close>
theorem served_stream_committed:
  assumes "execute_stream ex ctx open output cs w = ((res, err), Some w')"
    and "xr_served res = Some ((s, cm), c)"
  shows "c \<in> set cs \<and> (\<exists>w1 w2 w3. open c w1 = ((Some s, None), w2) \<and> commit ctx output s w2 = Some (Inr cm, w3))"
proof -
  let ?run = "\<lambda>c wo. case wo of
          None \<Rightarrow> (Inl CtxCanceled, None)
        | Some w1 \<Rightarrow>
            (case open_stream open ctx output c w1 of
               None \<Rightarrow> (Inl CtxCanceled, None)
             | Some (r, w2) \<Rightarrow> (r, Some w2))"
  obtain w1 w2 where c: "c \<in> set cs" and r: "?run c w1 = (Inr (s, cm), w2)"
    using execute_served [OF assms(1) [unfolded execute_stream_def] assms(2)] by blast
  then obtain v1 v2 where "w1 = Some v1" "open_stream open ctx output c v1 = Some (Inr (s, cm), v2)"
    by (auto split: option.splits)
  with c show ?thesis
    unfolding open_stream_def
    by (auto simp: map_sum_Inr split: prod.splits option.splits)
qed

definition demo_stream_executor :: "(string, string list) executor" where
  "demo_stream_executor =
     \<lparr>ex_health = None, ex_key = None, ex_retry = \<lparr>rt_attempts = 1, rt_delay = None\<rparr>,
      ex_now = (\<lambda>w. (0, w)), ex_sleep = (\<lambda>d w. (None, w))\<rparr>"

theorem served_stream_committed_witness:
  "\<exists>cm. (\<exists>res err. execute_stream demo_stream_executor (\<lambda>w. (None, w)) (\<lambda>c w. ((Some demo_stream, None), w))
        demo_output [''a''] [''ping'', ''hi''] = ((res, err), Some []) \<and> xr_served res = Some ((demo_stream, cm), ''a'')) \<and>
     (\<exists>w2 w3. commit (\<lambda>w. (None, w)) demo_output demo_stream w2 = Some (Inr cm, w3))"
proof -
  let ?ctx = "\<lambda>w. (None :: go_err option, w :: string list)"
  let ?open = "\<lambda>(c :: string) w. ((Some demo_stream, None :: go_err option), w)"
  let ?e = "execute_stream demo_stream_executor ?ctx ?open demo_output [''a''] [''ping'', ''hi'']"
  let ?cm = "new_committed [''ping'', ''hi''] None"
  have "commit ?ctx demo_output demo_stream [''ping'', ''hi''] = Some (Inr ?cm, [])"
    by (simp add: commit_def commit_loop.simps demo_stream_def demo_output_def carries_output_def)
  then have "xr_served (fst (fst ?e)) = Some ((demo_stream, ?cm), ''a'') \<and> snd ?e = Some []"
    by (simp add: execute_stream_def execute_def strict_executor_def demo_stream_executor_def strictly_def
        admit_candidate_def try_candidate_def try_loop.simps open_stream_def new_attempt_def
        executor_record_def Let_def)
  then obtain res err where e: "?e = ((res, err), Some [])" "xr_served res = Some ((demo_stream, ?cm), ''a'')"
    by (metis surj_pair fst_conv snd_conv)
  then show ?thesis
    using served_stream_committed [OF e] by blast
qed

end
