(* ===== verification/Capabilities.thy ===== *)
theory Capabilities
  imports Core_Types
begin

text \<open>
  Model capabilities: the tri-state contract of \<^verbatim>\<open>model_capabilities.go\<close>, the inference of
  \<^verbatim>\<open>capabilities_infer.go\<close> from a catalog row's untyped map and listed endpoints, and the row
  itself (\<^verbatim>\<open>ModelInfo\<close> of \<^verbatim>\<open>interfaces.go\<close>).
\<close>

subsection \<open>Decoded values\<close>

text \<open>
  A Go \<^verbatim>\<open>any\<close> as a decoded document or a product holds it. A finite float is its mantissa and
  binary exponent. An object is an association list; a Go map has each key once.
\<close>

datatype any_val =
    ANil | ABool bool | AString string
  | AInt int | AInt64 int | AFloat int int | ANumber string
  | AStrings "string list" | AList "any_val list" | AObject "(string \<times> any_val) list"

type_synonym legacy = "string \<rightharpoonup> any_val"

text \<open>A field of a decoded object; a missing field and a null one read alike.\<close>

definition field :: "(string \<times> any_val) list \<Rightarrow> string \<Rightarrow> any_val" where
  "field fs k = (case map_of fs k of None \<Rightarrow> ANil | Some v \<Rightarrow> v)"

definition text_of :: "any_val \<Rightarrow> string" where
  "text_of v = (case v of AString s \<Rightarrow> s | _ \<Rightarrow> [])"

definition fields_of :: "any_val \<Rightarrow> (string \<times> any_val) list" where
  "fields_of v = (case v of AObject fs \<Rightarrow> fs | _ \<Rightarrow> [])"

definition float_trunc :: "int \<Rightarrow> int \<Rightarrow> int" where
  "float_trunc m e =
     (if 0 \<le> e then m * 2 ^ nat e else sgn m * (\<bar>m\<bar> div 2 ^ nat (- e)))"

text \<open>
  Conversion of a float to \<^verbatim>\<open>int64\<close>; where the value does not fit Go leaves the result to the
  implementation, which is the argument \<open>overflow\<close>.
\<close>

definition float_to_int64 :: "(int \<Rightarrow> int \<Rightarrow> int) \<Rightarrow> int \<Rightarrow> int \<Rightarrow> int" where
  "float_to_int64 overflow m e =
     (let v = float_trunc m e
      in if min_int64 \<le> v \<and> v \<le> max_int64 then v else overflow m e)"

subsection \<open>The capability contract\<close>

record operation_caps =
  oc_chat :: support
  oc_embeddings :: support
  oc_image :: support
  oc_audio_in :: support
  oc_audio_out :: support
  oc_video :: support
  oc_token_count :: support

record surface_caps =
  sc_chat_completions :: support
  sc_responses :: support
  sc_messages :: support

record input_caps =
  ic_text :: support
  ic_image :: support

record capability_limits =
  lim_context :: "int option"
  lim_output :: "int option"

datatype capability_source =
    UpstreamReported | RegistryStatic | ModelsDev | Inferred | OperatorOverride | OtherSource string

datatype capability_confidence = ConfLow | ConfMedium | ConfHigh | OtherConf string

record provenance =
  pv_source :: capability_source
  pv_confidence :: capability_confidence

record freshness =
  fr_discovered :: "gtime option"
  fr_verified :: "gtime option"
  fr_expires :: "gtime option"

datatype freshness_status = FreshnessUnknown | FreshnessFresh | FreshnessExpired

definition no_freshness :: freshness where
  "no_freshness = \<lparr>fr_discovered = None, fr_verified = None, fr_expires = None\<rparr>"

definition freshness_status_at :: "freshness \<Rightarrow> gtime \<Rightarrow> freshness_status" where
  "freshness_status_at f at =
     (case fr_expires f of
        None \<Rightarrow> FreshnessUnknown
      | Some e \<Rightarrow>
          (if is_zero_time e then FreshnessUnknown
           else if \<not> at < e then FreshnessExpired
           else FreshnessFresh))"

definition is_fresh :: "freshness \<Rightarrow> gtime \<Rightarrow> bool" where
  "is_fresh f at \<longleftrightarrow> freshness_status_at f at = FreshnessFresh"

record model_capabilities =
  mc_schema :: int
  mc_operations :: operation_caps
  mc_surfaces :: surface_caps
  mc_inputs :: input_caps
  mc_tools :: support
  mc_reasoning :: support
  mc_structured :: support
  mc_streaming :: support
  mc_stateful :: support
  mc_limits :: capability_limits
  mc_provenance :: provenance
  mc_freshness :: freshness

definition capabilities_schema_version :: int where
  "capabilities_schema_version = 1"

definition operation_compatibility :: "model_capabilities \<Rightarrow> model_operation \<Rightarrow> support" where
  "operation_compatibility c operation =
     (case operation of
        OpChat \<Rightarrow> oc_chat (mc_operations c)
      | OpEmbeddings \<Rightarrow> oc_embeddings (mc_operations c)
      | OpImage \<Rightarrow> oc_image (mc_operations c)
      | OpAudioIn \<Rightarrow> oc_audio_in (mc_operations c)
      | OpAudioOut \<Rightarrow> oc_audio_out (mc_operations c)
      | OpVideo \<Rightarrow> oc_video (mc_operations c)
      | OpTokenCount \<Rightarrow> oc_token_count (mc_operations c)
      | OtherOperation _ \<Rightarrow> SupportUnknown)"

definition surface_compatibility :: "model_capabilities \<Rightarrow> model_surface \<Rightarrow> support" where
  "surface_compatibility c surface =
     (case surface of
        ChatCompletions \<Rightarrow> sc_chat_completions (mc_surfaces c)
      | Responses \<Rightarrow> sc_responses (mc_surfaces c)
      | Messages \<Rightarrow> sc_messages (mc_surfaces c)
      | _ \<Rightarrow> SupportUnknown)"

subsection \<open>Catalog rows\<close>

record model_info =
  mi_id :: string
  mi_object :: string
  mi_created :: int
  mi_owned_by :: string
  mi_description :: string
  mi_tags :: "string list"
  mi_api_eligible :: "bool option"
  mi_api_visibility :: string
  mi_supported_apis :: "string list"
  mi_capabilities :: "model_capabilities option"
  mi_display_name :: string
  mi_vendor :: string
  mi_free :: bool
  mi_legacy :: legacy

definition empty_model_info :: model_info where
  "empty_model_info =
     \<lparr>mi_id = [], mi_object = [], mi_created = 0, mi_owned_by = [], mi_description = [], mi_tags = [],
      mi_api_eligible = None, mi_api_visibility = [], mi_supported_apis = [], mi_capabilities = None,
      mi_display_name = [], mi_vendor = [], mi_free = False, mi_legacy = Map.empty\<rparr>"

subsection \<open>Reading the untyped map\<close>

fun legacy_support_from :: "bool \<Rightarrow> legacy \<Rightarrow> string list \<Rightarrow> support" where
  "legacy_support_from found vals [] = (if found then SupportUnsupported else SupportUnknown)"
| "legacy_support_from found vals (key # keys) =
     (case vals key of
        Some (ABool enabled) \<Rightarrow>
          (if enabled then SupportSupported else legacy_support_from True vals keys)
      | Some (AString s) \<Rightarrow>
          (if trim_space s \<noteq> [] then SupportSupported else legacy_support_from found vals keys)
      | Some (AStrings ss) \<Rightarrow>
          (if ss \<noteq> [] then SupportSupported else legacy_support_from found vals keys)
      | Some (AList vs) \<Rightarrow>
          (if vs \<noteq> [] then SupportSupported else legacy_support_from found vals keys)
      | _ \<Rightarrow> legacy_support_from found vals keys)"

definition legacy_support :: "legacy \<Rightarrow> string list \<Rightarrow> support" where
  "legacy_support vals keys = legacy_support_from False vals keys"

definition legacy_number :: "(int \<Rightarrow> int \<Rightarrow> int) \<Rightarrow> any_val \<Rightarrow> int" where
  "legacy_number overflow v =
     (case v of
        AInt n \<Rightarrow> n
      | AInt64 n \<Rightarrow> n
      | AFloat m e \<Rightarrow> float_to_int64 overflow m e
      | ANumber s \<Rightarrow> fst (parse_int64 s)
      | AString s \<Rightarrow> fst (parse_int64 s)
      | _ \<Rightarrow> 0)"

fun legacy_int64 :: "(int \<Rightarrow> int \<Rightarrow> int) \<Rightarrow> legacy \<Rightarrow> string list \<Rightarrow> int option" where
  "legacy_int64 overflow vals [] = None"
| "legacy_int64 overflow vals (key # keys) =
     (case vals key of
        None \<Rightarrow> legacy_int64 overflow vals keys
      | Some v \<Rightarrow>
          (let parsed = legacy_number overflow v
           in if 0 < parsed then Some parsed else legacy_int64 overflow vals keys))"

subsection \<open>Inference\<close>

text \<open>What one listed endpoint adds: a surface, and an operation it marks supported.\<close>

definition mark_operation :: "model_operation \<Rightarrow> operation_caps \<Rightarrow> operation_caps" where
  "mark_operation operation c =
     (case operation of
        OpChat \<Rightarrow> c\<lparr>oc_chat := SupportSupported\<rparr>
      | OpEmbeddings \<Rightarrow> c\<lparr>oc_embeddings := SupportSupported\<rparr>
      | OpImage \<Rightarrow> c\<lparr>oc_image := SupportSupported\<rparr>
      | OpAudioIn \<Rightarrow> c\<lparr>oc_audio_in := SupportSupported\<rparr>
      | OpAudioOut \<Rightarrow> c\<lparr>oc_audio_out := SupportSupported\<rparr>
      | OpVideo \<Rightarrow> c\<lparr>oc_video := SupportSupported\<rparr>
      | OpTokenCount \<Rightarrow> c\<lparr>oc_token_count := SupportSupported\<rparr>
      | OtherOperation _ \<Rightarrow> c)"

definition endpoint_marks :: "string \<Rightarrow> (model_surface option \<times> model_operation) option" where
  "endpoint_marks raw =
     (let surface = to_lower (trim_space raw) in
      if surface = ''/chat/completions'' \<or> surface = ''/v1/chat/completions'' then Some (Some ChatCompletions, OpChat)
      else if surface = ''/responses'' \<or> surface = ''/v1/responses'' \<or> surface = ''ws:/responses''
      then Some (Some Responses, OpChat)
      else if surface = ''/messages'' \<or> surface = ''/v1/messages'' then Some (Some Messages, OpChat)
      else if contains_sub surface ''/embeddings'' then Some (None, OpEmbeddings)
      else if contains_sub surface ''/images/'' then Some (None, OpImage)
      else if contains_sub surface ''/audio/transcriptions'' then Some (None, OpAudioIn)
      else if contains_sub surface ''/audio/speech'' then Some (None, OpAudioOut)
      else if contains_sub surface ''/videos/'' then Some (None, OpVideo)
      else if contains_sub surface ''count_tokens'' then Some (None, OpTokenCount)
      else None)"

definition mark_surface :: "model_surface option \<Rightarrow> surface_caps \<Rightarrow> surface_caps" where
  "mark_surface so c =
     (case so of
        Some ChatCompletions \<Rightarrow> c\<lparr>sc_chat_completions := SupportSupported\<rparr>
      | Some Responses \<Rightarrow> c\<lparr>sc_responses := SupportSupported\<rparr>
      | Some Messages \<Rightarrow> c\<lparr>sc_messages := SupportSupported\<rparr>
      | _ \<Rightarrow> c)"

definition apply_endpoint :: "string \<Rightarrow> model_capabilities \<Rightarrow> model_capabilities" where
  "apply_endpoint raw c =
     (case endpoint_marks raw of
        None \<Rightarrow> c
      | Some (so, operation) \<Rightarrow>
          c\<lparr>mc_surfaces := mark_surface so (mc_surfaces c),
            mc_operations := mark_operation operation (mc_operations c)\<rparr>)"

definition legacy_capabilities :: "legacy \<Rightarrow> model_capabilities" where
  "legacy_capabilities vals =
     \<lparr>mc_schema = capabilities_schema_version,
      mc_operations =
        \<lparr>oc_chat = legacy_support vals [''chat''],
         oc_embeddings = legacy_support vals [''embedding'', ''embeddings''],
         oc_image = legacy_support vals [''image''],
         oc_audio_in = legacy_support vals [''transcription'', ''stt'', ''asr'', ''audio_in''],
         oc_audio_out = legacy_support vals [''tts'', ''speech'', ''audio_out''],
         oc_video = legacy_support vals [''video''],
         oc_token_count = legacy_support vals [''token_count'']\<rparr>,
      mc_surfaces =
        \<lparr>sc_chat_completions = SupportUnknown, sc_responses = SupportUnknown, sc_messages = SupportUnknown\<rparr>,
      mc_inputs = \<lparr>ic_text = legacy_support vals [''text''], ic_image = legacy_support vals [''vision'']\<rparr>,
      mc_tools = legacy_support vals [''tool_calls'', ''tools''],
      mc_reasoning = legacy_support vals [''reasoning'', ''reasoning_effort''],
      mc_structured = legacy_support vals [''structured_outputs'', ''structured_output''],
      mc_streaming = legacy_support vals [''streaming''],
      mc_stateful = legacy_support vals [''stateful_responses''],
      mc_limits = \<lparr>lim_context = None, lim_output = None\<rparr>,
      mc_provenance = \<lparr>pv_source = Inferred, pv_confidence = ConfMedium\<rparr>,
      mc_freshness = no_freshness\<rparr>"

definition infer_text :: "model_capabilities \<Rightarrow> model_capabilities" where
  "infer_text c =
     (if oc_chat (mc_operations c) = SupportSupported \<and> ic_text (mc_inputs c) = SupportUnknown
      then c\<lparr>mc_inputs := (mc_inputs c)\<lparr>ic_text := SupportSupported\<rparr>\<rparr> else c)"

definition adapt_model_capabilities ::
    "(int \<Rightarrow> int \<Rightarrow> int) \<Rightarrow> legacy \<Rightarrow> string list \<Rightarrow> gtime \<Rightarrow> gtime \<Rightarrow> model_capabilities" where
  "adapt_model_capabilities overflow vals surfaces discovered verified =
     (infer_text (fold apply_endpoint surfaces (legacy_capabilities vals)))
       \<lparr>mc_limits :=
          \<lparr>lim_context = legacy_int64 overflow vals [''context_window'', ''context_tokens''],
           lim_output = legacy_int64 overflow vals [''max_output_tokens'']\<rparr>,
        mc_freshness :=
          \<lparr>fr_discovered = (if \<not> is_zero_time discovered then Some discovered else None),
           fr_verified = (if \<not> is_zero_time verified then Some verified else None),
           fr_expires = None\<rparr>\<rparr>"

definition infer_capabilities ::
    "(int \<Rightarrow> int \<Rightarrow> int) \<Rightarrow> model_info \<Rightarrow> gtime \<Rightarrow> gtime \<Rightarrow> model_capabilities" where
  "infer_capabilities overflow row discovered verified =
     adapt_model_capabilities overflow (mi_legacy row) (mi_supported_apis row) discovered verified"

subsection \<open>What the inference means\<close>

definition claims_support :: "any_val \<Rightarrow> bool" where
  "claims_support v =
     (case v of
        ABool b \<Rightarrow> b
      | AString s \<Rightarrow> \<not> blank s
      | AStrings ss \<Rightarrow> ss \<noteq> []
      | AList vs \<Rightarrow> vs \<noteq> []
      | _ \<Rightarrow> False)"

lemma legacy_support_from_Cons:
  "legacy_support_from found vals (key # keys) =
     (if \<exists>v. vals key = Some v \<and> claims_support v then SupportSupported
      else legacy_support_from (found \<or> vals key = Some (ABool False)) vals keys)"
proof (cases "vals key")
  case None
  then show ?thesis by simp
next
  case (Some v)
  then show ?thesis by (cases v) (simp_all add: claims_support_def blank_def)
qed

lemma legacy_support_from_spec:
  "legacy_support_from found vals keys =
     (if \<exists>k\<in>set keys. \<exists>v. vals k = Some v \<and> claims_support v then SupportSupported
      else if found \<or> (\<exists>k\<in>set keys. vals k = Some (ABool False)) then SupportUnsupported
      else SupportUnknown)"
proof (induction keys arbitrary: found)
  case Nil
  then show ?case by simp
next
  case (Cons key keys)
  show ?case
    by (cases "\<exists>v. vals key = Some v \<and> claims_support v")
      (auto simp: legacy_support_from_Cons Cons.IH simp del: legacy_support_from.simps)
qed

lemma mark_operation_compat:
  "operation_compatibility (c\<lparr>mc_surfaces := s, mc_operations := mark_operation opn (mc_operations c)\<rparr>) opn' =
     (if opn = opn' \<and> (\<forall>t. opn \<noteq> OtherOperation t) then SupportSupported else operation_compatibility c opn')"
  by (cases opn; cases opn') (simp_all add: operation_compatibility_def mark_operation_def)

lemma endpoint_marks_known: "endpoint_marks raw = Some (so, opn) \<Longrightarrow> opn \<noteq> OtherOperation t"
  by (auto simp: endpoint_marks_def Let_def split: if_splits)

lemma apply_endpoint_compat:
  "operation_compatibility (apply_endpoint raw c) opn =
     (if \<exists>so. endpoint_marks raw = Some (so, opn) then SupportSupported else operation_compatibility c opn)"
  by (auto simp: apply_endpoint_def mark_operation_compat dest: endpoint_marks_known split: option.splits)

lemma fold_endpoint_compat:
  "operation_compatibility (fold apply_endpoint surfaces c) opn =
     (if \<exists>raw\<in>set surfaces. \<exists>so. endpoint_marks raw = Some (so, opn) then SupportSupported
      else operation_compatibility c opn)"
  by (induction surfaces arbitrary: c) (auto simp: apply_endpoint_compat)

lemma infer_text_operations [simp]:
  "mc_operations (infer_text c) = mc_operations c" "mc_surfaces (infer_text c) = mc_surfaces c"
  by (simp_all add: infer_text_def)

lemma adapt_operation:
  "operation_compatibility (adapt_model_capabilities ovf vals surfaces d v) opn =
     (if \<exists>raw\<in>set surfaces. \<exists>so. endpoint_marks raw = Some (so, opn) then SupportSupported
      else operation_compatibility (legacy_capabilities vals) opn)"
proof -
  have "operation_compatibility (adapt_model_capabilities ovf vals surfaces d v) opn =
      operation_compatibility (fold apply_endpoint surfaces (legacy_capabilities vals)) opn"
    by (simp add: adapt_model_capabilities_def operation_compatibility_def split: model_operation.split)
  then show ?thesis by (simp add: fold_endpoint_compat)
qed

lemma mark_surface_compat:
  "surface_compatibility (c\<lparr>mc_surfaces := mark_surface so (mc_surfaces c), mc_operations := ops\<rparr>) sf =
     (if so = Some sf \<and> sf \<in> {ChatCompletions, Responses, Messages} then SupportSupported
      else surface_compatibility c sf)"
  by (cases sf)
    (auto simp: surface_compatibility_def mark_surface_def split: option.split model_surface.split)

lemma apply_endpoint_surface:
  "surface_compatibility (apply_endpoint raw c) sf =
     (if \<exists>opn. endpoint_marks raw = Some (Some sf, opn) \<and> sf \<in> {ChatCompletions, Responses, Messages}
      then SupportSupported else surface_compatibility c sf)"
  by (auto simp: apply_endpoint_def mark_surface_compat split: option.splits)

lemma adapt_surface:
  "surface_compatibility (adapt_model_capabilities ovf vals surfaces d v) sf =
     (if sf \<in> {ChatCompletions, Responses, Messages} \<and>
         (\<exists>raw\<in>set surfaces. \<exists>opn. endpoint_marks raw = Some (Some sf, opn))
      then SupportSupported else SupportUnknown)"
proof -
  have f: "surface_compatibility (fold apply_endpoint surfaces c) sf =
      (if sf \<in> {ChatCompletions, Responses, Messages} \<and>
          (\<exists>raw\<in>set surfaces. \<exists>opn. endpoint_marks raw = Some (Some sf, opn))
       then SupportSupported else surface_compatibility c sf)" for c
    by (induction surfaces arbitrary: c) (auto simp: apply_endpoint_surface)
  have "surface_compatibility (adapt_model_capabilities ovf vals surfaces d v) sf =
      surface_compatibility (fold apply_endpoint surfaces (legacy_capabilities vals)) sf"
    by (simp add: adapt_model_capabilities_def surface_compatibility_def split: model_surface.split)
  moreover have "surface_compatibility (legacy_capabilities vals) sf = SupportUnknown"
    by (simp add: surface_compatibility_def legacy_capabilities_def split: model_surface.split)
  ultimately show ?thesis by (simp add: f)
qed

lemma apply_endpoint_frame [simp]:
  "mc_provenance (apply_endpoint raw c) = mc_provenance c"
  "mc_schema (apply_endpoint raw c) = mc_schema c"
  "mc_inputs (apply_endpoint raw c) = mc_inputs c"
  by (simp_all add: apply_endpoint_def split: option.split prod.split)

lemma fold_endpoint_frame [simp]:
  "mc_provenance (fold apply_endpoint ss c) = mc_provenance c"
  "mc_schema (fold apply_endpoint ss c) = mc_schema c"
  "mc_inputs (fold apply_endpoint ss c) = mc_inputs c"
  by (induction ss arbitrary: c) simp_all

lemma adapt_provenance [simp]:
  "mc_provenance (adapt_model_capabilities ovf vals surfaces d v) = \<lparr>pv_source = Inferred, pv_confidence = ConfMedium\<rparr>"
  "mc_schema (adapt_model_capabilities ovf vals surfaces d v) = capabilities_schema_version"
  by (simp_all add: adapt_model_capabilities_def infer_text_def legacy_capabilities_def)

lemma legacy_int64_positive: "legacy_int64 ovf vals keys = Some n \<Longrightarrow> 0 < n"
  by (induction ovf vals keys rule: legacy_int64.induct)
    (auto simp: Let_def split: option.splits if_splits)

subsection \<open>Properties\<close>

text \<open>
  Inference is monotone in evidence and never invents a refusal: an operation is supported when a
  listed endpoint marks it or the map claims it, unsupported only when a key of it is explicitly
  false and nothing claims it, and a chat surface is known only when an endpoint names it; the result
  is always inferred, of medium confidence and without an expiry.
\<close>
theorem inferred_capabilities:
  "operation_compatibility (adapt_model_capabilities ovf vals surfaces d v) opn =
     (if (\<exists>raw\<in>set surfaces. \<exists>so. endpoint_marks raw = Some (so, opn)) then SupportSupported
      else operation_compatibility (legacy_capabilities vals) opn) \<and>
   legacy_support vals keys =
     (if \<exists>k\<in>set keys. \<exists>x. vals k = Some x \<and> claims_support x then SupportSupported
      else if \<exists>k\<in>set keys. vals k = Some (ABool False) then SupportUnsupported
      else SupportUnknown) \<and>
   (surface_compatibility (adapt_model_capabilities ovf vals surfaces d v) sf = SupportSupported \<longleftrightarrow>
     sf \<in> {ChatCompletions, Responses, Messages} \<and>
     (\<exists>raw\<in>set surfaces. \<exists>o'. endpoint_marks raw = Some (Some sf, o'))) \<and>
   mc_provenance (adapt_model_capabilities ovf vals surfaces d v) =
     \<lparr>pv_source = Inferred, pv_confidence = ConfMedium\<rparr> \<and>
   freshness_status_at (mc_freshness (adapt_model_capabilities ovf vals surfaces d v)) at = FreshnessUnknown"
proof (intro conjI)
  show "legacy_support vals keys =
     (if \<exists>k\<in>set keys. \<exists>x. vals k = Some x \<and> claims_support x then SupportSupported
      else if \<exists>k\<in>set keys. vals k = Some (ABool False) then SupportUnsupported
      else SupportUnknown)"
    by (simp add: legacy_support_def legacy_support_from_spec)
  show "freshness_status_at (mc_freshness (adapt_model_capabilities ovf vals surfaces d v)) at = FreshnessUnknown"
    by (simp add: adapt_model_capabilities_def freshness_status_at_def)
qed (simp_all only: adapt_operation adapt_surface adapt_provenance, simp split: if_split)

definition demo_legacy :: legacy where
  "demo_legacy = [''chat'' \<mapsto> ABool True, ''vision'' \<mapsto> ABool False, ''context_window'' \<mapsto> AFloat 125 10]"

theorem inferred_capabilities_witness:
  "operation_compatibility (adapt_model_capabilities (\<lambda>_ _. 0) demo_legacy [''/v1/embeddings''] 0 0) OpEmbeddings =
     SupportSupported"
proof -
  have "endpoint_marks ''/v1/embeddings'' = Some (None, OpEmbeddings)"
    by code_simp
  then show ?thesis
    using inferred_capabilities [of "\<lambda>_ _. 0" demo_legacy "[''/v1/embeddings'']" 0 0 OpEmbeddings "[]"
        ChatCompletions 0]
    by simp
qed

end
