(* ===== verification/Credentials.thy ===== *)
theory Credentials
  imports Provider_Errors "HOL-Library.Char_ord" "HOL-Library.List_Lexorder"
begin

text \<open>
  Credentials (\<^verbatim>\<open>interfaces.go\<close>) and the store that resolves them for a caller
  (\<^verbatim>\<open>credential_store.go\<close>). The token store of llm-provider-auth is not modelled; \<open>token_record\<close>
  has the fields of its \<^verbatim>\<open>Record\<close> this repository reads. Maps of strings that are printed are
  association lists, so their printing order is computed and not assumed.
\<close>

subsection \<open>Credentials and what prints of them\<close>

type_synonym string_map = "(string \<times> string) list"

record credential =
  cr_api_key :: string
  cr_token :: string
  cr_connection_id :: string
  cr_revision :: int
  cr_headers :: string_map
  cr_account_id :: string
  cr_token_type :: string
  cr_metadata :: string_map

definition empty_credential :: credential where
  "empty_credential =
     \<lparr>cr_api_key = [], cr_token = [], cr_connection_id = [], cr_revision = 0, cr_headers = [],
      cr_account_id = [], cr_token_type = [], cr_metadata = []\<rparr>"

definition presence :: "bool \<Rightarrow> string" where
  "presence b = (if b then ''redacted'' else ''absent'')"

definition redact_values :: "string_map \<Rightarrow> string_map" where
  "redact_values m = map (\<lambda>(k, v). (k, presence (v \<noteq> []))) m"

text \<open>
  The pieces \<^verbatim>\<open>fmt\<close> writes: literal text, a quoted string (\<^verbatim>\<open>%q\<close>), a number (\<^verbatim>\<open>%d\<close>), and a map
  (\<^verbatim>\<open>%v\<close>), whose entries \<^verbatim>\<open>fmt\<close> prints in key order.
\<close>

datatype piece = Lit string | Quoted string | Num int | Entries string_map

definition sorted_entries :: "string_map \<Rightarrow> string_map" where
  "sorted_entries m = sort_key fst m"

definition credential_string :: "credential \<Rightarrow> piece list" where
  "credential_string c =
     [Lit ''core.Credential{ConnectionID:'', Quoted (cr_connection_id c),
      Lit '' CredentialRevision:'', Num (cr_revision c),
      Lit '' AccountID:'', Quoted (cr_account_id c),
      Lit '' TokenType:'', Quoted (cr_token_type c),
      Lit '' APIKey:'', Lit (presence (cr_api_key c \<noteq> [])),
      Lit '' Token:'', Lit (presence (cr_token c \<noteq> [])),
      Lit '' Headers:'', Lit (presence (cr_headers c \<noteq> [])),
      Lit '' Metadata:'', Entries (sorted_entries (redact_values (cr_metadata c))), Lit ''}'']"

text \<open>
  \<^verbatim>\<open>Format\<close>: every verb prints \<open>credential_string\<close>, the five string verbs under their own format
  (\<open>Inl\<close>, with the plain one of \<open>%#v\<close> as \<open>None\<close>), any other inside \<open>fmt\<close>'s bad-verb text (\<open>Inr\<close>).
\<close>

definition credential_format :: "char \<Rightarrow> bool \<Rightarrow> credential \<Rightarrow> (char option \<times> piece list) + (char \<times> piece list)" where
  "credential_format verb sharp c =
     (if verb \<in> set ''vsqxX''
      then (if verb = CHR ''v'' \<and> sharp then Inl (None, credential_string c)
            else Inl (Some verb, credential_string c))
      else Inr (verb, credential_string c))"

record log_value =
  lv_connection_id :: string
  lv_revision :: int
  lv_account_id :: string
  lv_token_type :: string
  lv_has_api_key :: bool
  lv_has_token :: bool
  lv_has_headers :: bool
  lv_metadata_keys :: "string list"

definition credential_log_value :: "credential \<Rightarrow> log_value" where
  "credential_log_value c =
     \<lparr>lv_connection_id = cr_connection_id c, lv_revision = cr_revision c,
      lv_account_id = cr_account_id c, lv_token_type = cr_token_type c,
      lv_has_api_key = (cr_api_key c \<noteq> []), lv_has_token = (cr_token c \<noteq> []),
      lv_has_headers = (cr_headers c \<noteq> []), lv_metadata_keys = sort (map fst (cr_metadata c))\<rparr>"

text \<open>What two credentials share when only the values of their secrets differ.\<close>

definition same_public :: "credential \<Rightarrow> credential \<Rightarrow> bool" where
  "same_public a b \<longleftrightarrow>
     cr_connection_id a = cr_connection_id b \<and> cr_revision a = cr_revision b \<and>
     cr_account_id a = cr_account_id b \<and> cr_token_type a = cr_token_type b \<and>
     (cr_api_key a = [] \<longleftrightarrow> cr_api_key b = []) \<and> (cr_token a = [] \<longleftrightarrow> cr_token b = []) \<and>
     (cr_headers a = [] \<longleftrightarrow> cr_headers b = []) \<and>
     map (\<lambda>(k, v). (k, v = [])) (cr_metadata a) = map (\<lambda>(k, v). (k, v = [])) (cr_metadata b)"

lemma redact_values_presence:
  "redact_values m = map (\<lambda>(k, e). (k, presence (\<not> e))) (map (\<lambda>(k, v). (k, v = [])) m)"
  by (simp add: redact_values_def split_def)

lemma keys_presence: "map fst m = map fst (map (\<lambda>(k, v). (k, v = [])) m)"
  by (simp add: split_def)

subsection \<open>Records of the token store\<close>

record token_record =
  tr_access_token :: string
  tr_refresh_token :: string
  tr_token_type :: string
  tr_account_id :: string
  tr_metadata :: string_map
  tr_revision :: string

definition token_type_api_key :: string where
  "token_type_api_key = ''api_key''"

definition api_key_record :: "string \<Rightarrow> token_record" where
  "api_key_record key =
     \<lparr>tr_access_token = key, tr_refresh_token = [], tr_token_type = token_type_api_key,
      tr_account_id = [], tr_metadata = [], tr_revision = []\<rparr>"

definition credential_from_record :: "string \<Rightarrow> token_record \<Rightarrow> credential" where
  "credential_from_record key r =
     (let c = empty_credential\<lparr>cr_connection_id := key, cr_account_id := tr_account_id r,
                cr_token_type := tr_token_type r, cr_metadata := tr_metadata r\<rparr>
      in if tr_token_type r = token_type_api_key then c\<lparr>cr_api_key := tr_access_token r\<rparr>
         else c\<lparr>cr_token := tr_access_token r\<rparr>)"

subsection \<open>Resolution\<close>

record binding_key =
  bk_caller :: string
  bk_kind :: caller_kind
  bk_instance :: string

type_synonym bindings = "binding_key \<rightharpoonup> string"

definition bind_credential :: "caller \<Rightarrow> string \<Rightarrow> string \<Rightarrow> bindings \<Rightarrow> bindings" where
  "bind_credential c inst key b =
     b(\<lparr>bk_caller = caller_id c, bk_kind = caller_kind c, bk_instance = trim_space inst\<rparr> \<mapsto> key)"

definition bind_shared :: "string \<Rightarrow> string \<Rightarrow> bindings \<Rightarrow> bindings" where
  "bind_shared inst key b =
     b(\<lparr>bk_caller = [], bk_kind = OtherCallerKind [], bk_instance = trim_space inst\<rparr> \<mapsto> key)"

definition err_no_credential :: go_err where
  "err_no_credential = Sentinel ''core: no credential resolves for this caller and instance''"

definition resolve_credential :: "go_err option \<Rightarrow> caller \<Rightarrow> string \<Rightarrow> bindings \<Rightarrow> go_err + string" where
  "resolve_credential ctx_err c inst b =
     (case ctx_err of
        Some e \<Rightarrow> Inl e
      | None \<Rightarrow>
          (let i = trim_space inst;
               own = b \<lparr>bk_caller = caller_id c, bk_kind = caller_kind c, bk_instance = i\<rparr>;
               shared = b \<lparr>bk_caller = [], bk_kind = OtherCallerKind [], bk_instance = i\<rparr>
           in if own \<noteq> None \<and> caller_id c \<noteq> [] then Inr (the own)
              else case shared of Some key \<Rightarrow> Inr key | None \<Rightarrow> Inl err_no_credential))"

subsection \<open>What resolution means\<close>

text \<open>
  The abstract store is the history of bindings, newest first: a caller with an identity gets the
  newest binding made for it on the instance, else the newest shared one. A \<^verbatim>\<open>Bind\<close> for the zero
  caller is a shared binding, one for a caller with an empty ID and a kind serves nobody.
\<close>

datatype bind_op = Bind caller string string | BindShared string string

fun apply_bind :: "bind_op \<Rightarrow> bindings \<Rightarrow> bindings" where
  "apply_bind (Bind c inst key) b = bind_credential c inst key b"
| "apply_bind (BindShared inst key) b = bind_shared inst key b"

fun run_binds :: "bind_op list \<Rightarrow> bindings" where
  "run_binds [] = Map.empty"
| "run_binds (op # ops) = apply_bind op (run_binds ops)"

fun own_binding :: "caller \<Rightarrow> string \<Rightarrow> bind_op \<Rightarrow> string option" where
  "own_binding c inst (Bind c' inst' key) =
     (if caller_id c' = caller_id c \<and> caller_kind c' = caller_kind c \<and> trim_space inst' = trim_space inst
      then Some key else None)"
| "own_binding c inst (BindShared _ _) = None"

fun shared_binding :: "string \<Rightarrow> bind_op \<Rightarrow> string option" where
  "shared_binding inst (Bind c' inst' key) =
     (if caller_id c' = [] \<and> caller_kind c' = OtherCallerKind [] \<and> trim_space inst' = trim_space inst
      then Some key else None)"
| "shared_binding inst (BindShared inst' key) = (if trim_space inst' = trim_space inst then Some key else None)"

definition history_resolve :: "caller \<Rightarrow> string \<Rightarrow> bind_op list \<Rightarrow> go_err + string" where
  "history_resolve c inst ops =
     (case (if caller_id c = [] then None else find_first (own_binding c inst) ops) of
        Some key \<Rightarrow> Inr key
      | None \<Rightarrow>
          (case find_first (shared_binding inst) ops of Some key \<Rightarrow> Inr key | None \<Rightarrow> Inl err_no_credential))"

lemma run_binds_own:
  "caller_id c \<noteq> [] \<Longrightarrow>
     run_binds ops \<lparr>bk_caller = caller_id c, bk_kind = caller_kind c, bk_instance = trim_space inst\<rparr> =
     find_first (own_binding c inst) ops"
proof (induction ops)
  case Nil
  then show ?case by simp
next
  case (Cons op ops)
  then show ?case by (cases op) (auto simp: bind_credential_def bind_shared_def)
qed

lemma run_binds_shared:
  "run_binds ops \<lparr>bk_caller = [], bk_kind = OtherCallerKind [], bk_instance = trim_space inst\<rparr> =
     find_first (shared_binding inst) ops"
proof (induction ops)
  case Nil
  then show ?case by simp
next
  case (Cons op ops)
  then show ?case by (cases op) (auto simp: bind_credential_def bind_shared_def)
qed

lemma own_binding_no_shared: "own_binding c inst (BindShared i k) = None"
  by simp

subsection \<open>Properties\<close>



text \<open>
  C19. The store's map implements the history of bindings: after any sequence of \<^verbatim>\<open>Bind\<close> and
  \<^verbatim>\<open>BindShared\<close> a live context resolves to the newest binding of the exact caller on the instance,
  if it has an identity, else to the newest shared one, else to the missing-credential error.
\<close>
theorem resolve_refines_history:
  "resolve_credential None c inst (run_binds ops) = history_resolve c inst ops"
  by (cases "caller_id c = []")
    (simp_all add: resolve_credential_def history_resolve_def Let_def run_binds_own run_binds_shared
      split: option.split)

text \<open>
  Callers are isolated: binding a credential for one caller that has an identity changes nothing
  any other caller resolves, and a credential taken from a record puts its access token in exactly
  one of the API key (for an API-key record) and the token, and never carries the refresh token.
\<close>
theorem bindings_isolated:
  assumes "caller_id c' \<noteq> []" and "(caller_id c, caller_kind c) \<noteq> (caller_id c', caller_kind c')"
  shows "resolve_credential e c inst (bind_credential c' inst' key b) = resolve_credential e c inst b \<and>
    credential_from_record k (r\<lparr>tr_refresh_token := x\<rparr>) = credential_from_record k r \<and>
    cr_api_key (credential_from_record k (api_key_record v)) = v \<and>
    cr_token (credential_from_record k (api_key_record v)) = []"
  using assms
  by (auto simp: resolve_credential_def bind_credential_def Let_def credential_from_record_def
      api_key_record_def empty_credential_def split: option.split)

theorem bindings_isolated_witness:
  "resolve_credential None local_caller ''openai''
     (bind_credential \<lparr>caller_id = ''u1'', caller_kind = CallerHuman, caller_project = []\<rparr> ''openai'' ''k1''
       (bind_shared '' openai '' ''shared'' Map.empty)) = Inr ''shared''"
proof -
  let ?u = "\<lparr>caller_id = ''u1'', caller_kind = CallerHuman, caller_project = []\<rparr>"
  have "resolve_credential None local_caller ''openai'' (bind_shared '' openai '' ''shared'' Map.empty) = Inr ''shared''"
  proof -
    have "trim_space '' openai '' = trim_space ''openai''" by code_simp
    then show ?thesis
      by (simp add: resolve_credential_def bind_shared_def local_caller_def Let_def)
  qed
  then show ?thesis
    using bindings_isolated [of ?u local_caller None "''openai''" "''openai''" "''k1''"
        "bind_shared '' openai '' ''shared'' Map.empty" "[]" "[]" "api_key_record []" "[]"]
    by (simp add: local_caller_def)
qed

end
