(* ===== verification/Transport.thy ===== *)
theory Transport
  imports Capabilities Credentials
begin

text \<open>
  How a request reaches a provider: what a chain of decorators preserves
  (\<^verbatim>\<open>wire_preserving.go\<close>, \<^verbatim>\<open>wire_credential.go\<close>, \<^verbatim>\<open>token_count.go\<close>), the transport decision
  (\<^verbatim>\<open>transport_plan.go\<close>), the evidence it decides over (\<^verbatim>\<open>transport_evidence.go\<close>) and the labels
  products show (\<^verbatim>\<open>transport_labels.go\<close>). llm-translate's \<^verbatim>\<open>Report.HasMaterialLoss\<close> is the
  argument \<open>material\<close>.
\<close>

subsection \<open>Requests\<close>

record request =
  rq_surface :: model_surface
  rq_model :: string
  rq_body :: string
  rq_content_type :: string
  rq_credential :: "credential option"

datatype request_error = UnknownRequestSurface model_surface | RequestNoModel | RequestNoContentType

definition request_validate :: "request \<Rightarrow> request_error option" where
  "request_validate r =
     (if \<not> known_model_surface (rq_surface r) then Some (UnknownRequestSurface (rq_surface r))
      else if trim_space (rq_model r) = [] then Some RequestNoModel
      else if rq_body r \<noteq> [] \<and> trim_space (rq_content_type r) = [] then Some RequestNoContentType
      else None)"

subsection \<open>Decorated providers\<close>

text \<open>
  A provider is its chain of layers, outermost first, each the value the one before unwraps to; the
  empty chain is a nil provider. A layer says what it serves natively and, for each optional
  interface, what it answers if it implements it. A chain that unwraps to itself is not modelled.
\<close>

record 'c layer =
  ly_native :: "string \<Rightarrow> model_surface list"
  ly_preserves :: "(string \<Rightarrow> model_surface \<Rightarrow> bool) option"
  ly_preserves_for :: "(credential option \<Rightarrow> string \<Rightarrow> model_surface \<Rightarrow> bool) option"
  ly_counter :: "'c option"

definition layer_serves :: "'c layer \<Rightarrow> string \<Rightarrow> model_surface \<Rightarrow> bool" where
  "layer_serves l model surface \<longleftrightarrow> surface \<in> set (ly_native l model)"

definition serves_natively :: "'c layer list \<Rightarrow> string \<Rightarrow> model_surface \<Rightarrow> bool" where
  "serves_natively p model surface = (case p of [] \<Rightarrow> False | l # _ \<Rightarrow> layer_serves l model surface)"

fun preserves_wire :: "'c layer list \<Rightarrow> string \<Rightarrow> model_surface \<Rightarrow> bool" where
  "preserves_wire [] model surface = False"
| "preserves_wire (l # inner) model surface =
     (if \<not> layer_serves l model surface then False
      else case ly_preserves l of
        Some f \<Rightarrow> f model surface
      | None \<Rightarrow> preserves_wire inner model surface)"

fun preserves_wire_for :: "'c layer list \<Rightarrow> credential option \<Rightarrow> string \<Rightarrow> model_surface \<Rightarrow> bool" where
  "preserves_wire_for [] cred model surface = False"
| "preserves_wire_for (l # inner) cred model surface =
     (if \<not> layer_serves l model surface then False
      else case ly_preserves_for l of
        Some f \<Rightarrow> f cred model surface
      | None \<Rightarrow>
          (case ly_preserves l of
             Some f \<Rightarrow> f model surface
           | None \<Rightarrow> preserves_wire_for inner cred model surface))"

definition err_token_count_unsupported :: go_err where
  "err_token_count_unsupported = Sentinel ''core: the provider cannot count tokens natively''"

fun count_tokens :: "('rq \<Rightarrow> go_err + int) layer list \<Rightarrow> 'rq \<Rightarrow> go_err + int" where
  "count_tokens [] rq = Inl err_token_count_unsupported"
| "count_tokens (l # inner) rq =
     (case ly_counter l of Some count \<Rightarrow> count rq | None \<Rightarrow> count_tokens inner rq)"

subsection \<open>Planning\<close>

datatype requirement = ReqAny | ReqNative | ReqTransparent | OtherRequirement string

record transport_interface =
  ti_surface :: model_surface
  ti_native :: support

record loss_report =
  rp_losses :: "loss list"

record plan_request =
  pq_operation :: model_operation
  pq_surface :: model_surface
  pq_evaluated_at :: gtime
  pq_exact_target :: bool
  pq_capabilities :: model_capabilities
  pq_interfaces :: "transport_interface list"
  pq_requirement :: requirement
  pq_translation_evaluated :: bool
  pq_translation :: loss_report

datatype transport_disposition = TransportNative | TransportAdapted | TransportReject

datatype transport_confidence = TransportLow | TransportMedium | TransportHigh

record transport_plan =
  tp_disposition :: transport_disposition
  tp_surface :: model_surface
  tp_confidence :: transport_confidence
  tp_losses :: "loss list"
  tp_reason :: "reject_reason option"

definition transport_capability_evidence :: "plan_request \<Rightarrow> bool \<times> bool" where
  "transport_capability_evidence r =
     (let c = pq_capabilities r in
      if mc_schema c \<noteq> capabilities_schema_version \<or> is_zero_time (pq_evaluated_at r) \<or>
         freshness_status_at (mc_freshness c) (pq_evaluated_at r) \<noteq> FreshnessFresh
      then (False, False)
      else
        (let source_known = (pv_source (mc_provenance c) \<in>
               {UpstreamReported, RegistryStatic, ModelsDev, Inferred, OperatorOverride});
             confidence_known = (pv_confidence (mc_provenance c) \<in> {ConfLow, ConfMedium, ConfHigh})
         in (True, source_known \<and> confidence_known \<and> pv_confidence (mc_provenance c) = ConfHigh)))"

definition evidence_confidence :: "bool \<Rightarrow> transport_confidence" where
  "evidence_confidence trusted = (if trusted then TransportHigh else TransportLow)"

definition reject_transport ::
    "model_surface \<Rightarrow> transport_confidence \<Rightarrow> reject_reason \<Rightarrow> loss list \<Rightarrow> transport_plan" where
  "reject_transport surface confidence reason losses =
     \<lparr>tp_disposition = TransportReject, tp_surface = surface, tp_confidence = confidence,
      tp_losses = losses, tp_reason = Some reason\<rparr>"

definition native_transport :: "model_surface \<Rightarrow> support \<Rightarrow> bool \<Rightarrow> bool \<Rightarrow> transport_plan" where
  "native_transport surface operation_support confirmed trusted =
     \<lparr>tp_disposition = TransportNative, tp_surface = surface,
      tp_confidence =
        (if trusted \<and> confirmed \<and> operation_support = SupportSupported then TransportHigh else TransportLow),
      tp_losses = [], tp_reason = None\<rparr>"

definition has_unsupported_loss :: "loss list \<Rightarrow> bool" where
  "has_unsupported_loss losses \<longleftrightarrow> (\<exists>l\<in>set losses. loss_class l = LossUnsupported)"

text \<open>
  The first confirmed, unknown and adapted interface, in the order of the list, and whether there
  is any; each is kept once found.
\<close>

definition first_of :: "'a option \<Rightarrow> 'a \<Rightarrow> 'a option" where
  "first_of found x = (case found of None \<Rightarrow> Some x | Some y \<Rightarrow> Some y)"

fun classify_interfaces ::
    "model_surface \<Rightarrow> support \<Rightarrow> transport_interface list \<Rightarrow>
     transport_interface option \<times> transport_interface option \<times> transport_interface option \<times> bool \<Rightarrow>
     transport_interface option \<times> transport_interface option \<times> transport_interface option \<times> bool" where
  "classify_interfaces surface requested [] acc = acc"
| "classify_interfaces surface requested (i # is) (confirmed, unknown, adapted, has) =
     classify_interfaces surface requested is
       (if ti_surface i \<noteq> surface then (confirmed, unknown, first_of adapted i, True)
        else if ti_native i = SupportUnsupported \<or> requested = SupportUnsupported
        then (confirmed, unknown, first_of adapted i, True)
        else if ti_native i = SupportSupported \<or> requested = SupportSupported
        then (first_of confirmed i, unknown, adapted, True)
        else (confirmed, first_of unknown i, adapted, True))"

definition classify_transport_interfaces ::
    "plan_request \<Rightarrow> bool \<Rightarrow>
     transport_interface option \<times> transport_interface option \<times> transport_interface option \<times> bool" where
  "classify_transport_interfaces r usable =
     classify_interfaces (pq_surface r)
       (if usable then surface_compatibility (pq_capabilities r) (pq_surface r) else SupportUnknown)
       (pq_interfaces r) (None, None, None, False)"

definition plan_transport :: "(loss_report \<Rightarrow> bool) \<Rightarrow> plan_request \<Rightarrow> transport_plan" where
  "plan_transport material r =
     (let (usable, trusted) = transport_capability_evidence r;
          operation = (if usable then operation_compatibility (pq_capabilities r) (pq_operation r)
                       else SupportUnknown)
      in
      if operation = SupportUnsupported
      then reject_transport (pq_surface r) (evidence_confidence trusted) RejectOperationUnsupported []
      else if pq_requirement r \<noteq> OtherRequirement [] \<and> pq_requirement r \<noteq> ReqAny \<and>
              pq_requirement r \<noteq> ReqNative \<and> pq_requirement r \<noteq> ReqTransparent
      then reject_transport (pq_surface r) TransportHigh RejectInvalidRequirement []
      else
        (let (confirmed, unknown, adapted, has) = classify_transport_interfaces r usable in
         if pq_requirement r = ReqTransparent
         then
           (if \<not> pq_exact_target r
            then reject_transport (pq_surface r) TransportHigh RejectExactTargetRequired []
            else if trusted \<and> confirmed \<noteq> None \<and> operation = SupportSupported
            then native_transport (ti_surface (the confirmed)) operation True True
            else reject_transport (pq_surface r)
                   (evidence_confidence (trusted \<and> operation \<noteq> SupportUnknown \<and> unknown = None))
                   RejectNativeUnconfirmed [])
         else
           (case confirmed of
              Some i \<Rightarrow> native_transport (ti_surface i) operation True trusted
            | None \<Rightarrow>
           (case unknown of
              Some i \<Rightarrow> native_transport (ti_surface i) operation False trusted
            | None \<Rightarrow>
           (if pq_requirement r = ReqNative
            then reject_transport (pq_surface r) (evidence_confidence trusted) RejectNativeRequired []
            else
              (case (has, adapted) of
                 (True, Some i) \<Rightarrow>
                   (if \<not> pq_translation_evaluated r
                    then reject_transport (ti_surface i) (evidence_confidence trusted)
                           RejectTranslationUnevaluated []
                    else
                      (let losses = rp_losses (pq_translation r) in
                       if material (pq_translation r) \<or> has_unsupported_loss losses
                       then reject_transport (ti_surface i) (evidence_confidence trusted)
                              RejectTranslationLoss losses
                       else
                         \<lparr>tp_disposition = TransportAdapted, tp_surface = ti_surface i,
                          tp_confidence =
                            (if operation = SupportUnknown \<or> \<not> trusted then TransportLow else TransportMedium),
                          tp_losses = losses, tp_reason = None\<rparr>))
               | _ \<Rightarrow>
                   reject_transport (pq_surface r) (evidence_confidence trusted) RejectNoInterface []))))))"

subsection \<open>Evidence\<close>

record transport_evidence =
  te_row :: model_info
  te_refreshed_at :: gtime
  te_fresh_for :: duration

definition default_transport_freshness :: duration where
  "default_transport_freshness = seconds 3600"

definition evidence_capabilities :: "(int \<Rightarrow> int \<Rightarrow> int) \<Rightarrow> transport_evidence \<Rightarrow> model_capabilities" where
  "evidence_capabilities overflow e =
     (let inferred = infer_capabilities overflow (te_row e) (te_refreshed_at e) 0;
          c = (case mi_capabilities (te_row e) of Some reported \<Rightarrow> reported | None \<Rightarrow> inferred)
      in if is_zero_time (te_refreshed_at e) then c\<lparr>mc_freshness := no_freshness\<rparr>
         else
           (let fresh_for = (if te_fresh_for e \<le> 0 then default_transport_freshness else te_fresh_for e)
            in c\<lparr>mc_freshness := (mc_freshness c)\<lparr>fr_discovered := Some (te_refreshed_at e),
                   fr_expires := Some (te_refreshed_at e + fresh_for)\<rparr>\<rparr>))"

definition parse_surface_path :: "string \<Rightarrow> model_surface" where
  "parse_surface_path path =
     (let s = to_lower (trim_prefix (trim_space path) ''/v1'') in
      if s = ''/chat/completions'' then ChatCompletions
      else if s = ''/responses'' then Responses
      else if s = ''/messages'' then Messages
      else no_surface)"

definition surface_path :: "model_surface \<Rightarrow> string" where
  "surface_path s =
     (case s of
        ChatCompletions \<Rightarrow> ''/v1/chat/completions''
      | Responses \<Rightarrow> ''/v1/responses''
      | Messages \<Rightarrow> ''/v1/messages''
      | Embeddings \<Rightarrow> ''/v1/embeddings''
      | AudioTranscriptions \<Rightarrow> ''/v1/audio/transcriptions''
      | AudioSpeech \<Rightarrow> ''/v1/audio/speech''
      | Images \<Rightarrow> ''/v1/images/generations''
      | Videos \<Rightarrow> ''/v1/videos/generations''
      | OtherSurface _ \<Rightarrow> [])"

fun transport_interfaces ::
    "'c layer list \<Rightarrow> credential option \<Rightarrow> string \<Rightarrow> string list \<Rightarrow> transport_interface list" where
  "transport_interfaces p cred model [] = []"
| "transport_interfaces p cred model (candidate # rest) =
     (if p = [] \<or> parse_surface_path candidate = no_surface then transport_interfaces p cred model rest
      else
        \<lparr>ti_surface = parse_surface_path candidate,
         ti_native = (if preserves_wire_for p cred model (parse_surface_path candidate)
                      then SupportSupported else SupportUnsupported)\<rparr>
        # transport_interfaces p cred model rest)"

definition parse_transport_requirement :: "string \<Rightarrow> go_err + requirement" where
  "parse_transport_requirement v =
     (let s = to_lower (trim_space v) in
      if s = [] then Inr ReqAny
      else if s = ''transparent'' then Inr ReqTransparent
      else Inl (Sentinel ''core: a requested transport must be transparent when present''))"

subsection \<open>Labels\<close>

definition listing_labels :: "string list" where
  "listing_labels = [''/v1/chat/completions'', ''/v1/responses'', ''/v1/messages'']"

definition any_plan ::
    "(loss_report \<Rightarrow> bool) \<Rightarrow> (int \<Rightarrow> int \<Rightarrow> int) \<Rightarrow> 'c layer list \<Rightarrow> credential option \<Rightarrow> string \<Rightarrow>
     model_surface \<Rightarrow> transport_evidence \<Rightarrow> gtime \<Rightarrow> transport_plan" where
  "any_plan material overflow p cred model surface e at =
     plan_transport material
       \<lparr>pq_operation = OpChat, pq_surface = surface, pq_evaluated_at = at, pq_exact_target = True,
        pq_capabilities = evidence_capabilities overflow e,
        pq_interfaces = transport_interfaces p cred model (mi_supported_apis (te_row e)),
        pq_requirement = ReqAny, pq_translation_evaluated = True, pq_translation = \<lparr>rp_losses = []\<rparr>\<rparr>"

definition lists_chat :: "model_info \<Rightarrow> bool" where
  "lists_chat row \<longleftrightarrow>
     mi_legacy row ''chat'' = Some (ABool True) \<or>
     list_ex (\<lambda>s. parse_surface_path s \<noteq> no_surface) (mi_supported_apis row)"

fun sort_labels :: "(string \<Rightarrow> transport_disposition) \<Rightarrow> string list \<Rightarrow> string list \<times> string list \<times> string list" where
  "sort_labels d [] = ([], [], [])"
| "sort_labels d (label # labels) =
     (case sort_labels d labels of
        (native, emulated, unknown) \<Rightarrow>
          (case d label of
             TransportNative \<Rightarrow> (label # native, emulated, unknown)
           | TransportAdapted \<Rightarrow> (native, label # emulated, unknown)
           | TransportReject \<Rightarrow> (native, emulated, label # unknown)))"

text \<open>The three lists; \<open>None\<close> is the three nil slices of a row that classifies nothing.\<close>

definition listing_surfaces ::
    "(loss_report \<Rightarrow> bool) \<Rightarrow> (int \<Rightarrow> int \<Rightarrow> int) \<Rightarrow> 'c layer list \<Rightarrow> credential option \<Rightarrow>
     transport_evidence \<Rightarrow> gtime \<Rightarrow> (string list \<times> string list \<times> string list) option" where
  "listing_surfaces material overflow p cred e at =
     (if \<not> lists_chat (te_row e) then None
      else Some (sort_labels
        (\<lambda>label. tp_disposition
           (any_plan material overflow p cred (mi_id (te_row e)) (parse_surface_path label) e at))
        listing_labels))"

datatype transport_mode = ModeNative | ModeTranslated | ModeTransparent

definition response_transport_mode ::
    "(loss_report \<Rightarrow> bool) \<Rightarrow> (int \<Rightarrow> int \<Rightarrow> int) \<Rightarrow> 'c layer list \<Rightarrow> credential option \<Rightarrow> string \<Rightarrow>
     model_surface \<Rightarrow> transport_evidence option \<Rightarrow> gtime \<Rightarrow> transport_mode" where
  "response_transport_mode material overflow p cred model surface evidence at =
     (case evidence of
        Some e \<Rightarrow>
          (if p \<noteq> []
           then (if tp_disposition (any_plan material overflow p cred model surface e at) = TransportNative
                 then ModeNative else ModeTranslated)
           else ModeTranslated)
      | None \<Rightarrow>
          (if p \<noteq> [] \<and> preserves_wire_for p cred model surface then ModeNative else ModeTranslated))"

subsection \<open>Facts about planning\<close>

definition confirms :: "model_surface \<Rightarrow> support \<Rightarrow> transport_interface \<Rightarrow> bool" where
  "confirms surface requested i \<longleftrightarrow>
     ti_surface i = surface \<and> ti_native i \<noteq> SupportUnsupported \<and> requested \<noteq> SupportUnsupported \<and>
     (ti_native i = SupportSupported \<or> requested = SupportSupported)"

definition unsure :: "model_surface \<Rightarrow> support \<Rightarrow> transport_interface \<Rightarrow> bool" where
  "unsure surface requested i \<longleftrightarrow>
     ti_surface i = surface \<and> ti_native i \<notin> {SupportUnsupported, SupportSupported} \<and>
     requested \<notin> {SupportUnsupported, SupportSupported}"

definition adaptable :: "model_surface \<Rightarrow> support \<Rightarrow> transport_interface \<Rightarrow> bool" where
  "adaptable surface requested i \<longleftrightarrow>
     ti_surface i \<noteq> surface \<or> ti_native i = SupportUnsupported \<or> requested = SupportUnsupported"

lemma interface_trichotomy:
  "confirms s q i \<or> unsure s q i \<or> adaptable s q i"
  by (auto simp: confirms_def unsure_def adaptable_def)

definition keep_or :: "'a option \<Rightarrow> 'a option \<Rightarrow> 'a option" where
  "keep_or a b = (case a of None \<Rightarrow> b | Some x \<Rightarrow> Some x)"

lemma keep_or_first [simp]:
  "keep_or (first_of a x) b = keep_or a (Some x)" "keep_or None b = b"
  by (simp_all add: keep_or_def first_of_def split: option.split)

lemma classify_interfaces_spec:
  "classify_interfaces s q is (c, u, a, h) =
     (keep_or c (find (confirms s q) is), keep_or u (find (unsure s q) is),
      keep_or a (find (adaptable s q) is), h \<or> is \<noteq> [])"
proof (induction "is" arbitrary: c u a h)
  case Nil
  then show ?case by (simp add: keep_or_def split: option.split)
next
  case (Cons i "is")
  consider (other) "ti_surface i \<noteq> s"
    | (adapt) "ti_surface i = s" "ti_native i = SupportUnsupported \<or> q = SupportUnsupported"
    | (conf) "ti_surface i = s" "\<not> (ti_native i = SupportUnsupported \<or> q = SupportUnsupported)"
        "ti_native i = SupportSupported \<or> q = SupportSupported"
    | (unk) "ti_surface i = s" "\<not> (ti_native i = SupportUnsupported \<or> q = SupportUnsupported)"
        "\<not> (ti_native i = SupportSupported \<or> q = SupportSupported)"
    by blast
  then show ?case
  proof cases
    case other
    then show ?thesis by (simp add: Cons.IH confirms_def unsure_def adaptable_def)
  next
    case adapt
    then have "\<not> confirms s q i" "\<not> unsure s q i" "adaptable s q i"
      by (auto simp: confirms_def unsure_def adaptable_def)
    with adapt show ?thesis by (simp add: Cons.IH)
  next
    case conf
    then have "confirms s q i" "\<not> unsure s q i" "\<not> adaptable s q i"
      by (auto simp: confirms_def unsure_def adaptable_def)
    with conf show ?thesis by (simp add: Cons.IH)
  next
    case unk
    then have "\<not> confirms s q i" "unsure s q i" "\<not> adaptable s q i"
      by (auto simp: confirms_def unsure_def adaptable_def)
    with unk show ?thesis by (simp add: Cons.IH)
  qed
qed

text \<open>The support of the requested surface and operation a plan reads, and its two verdicts on evidence.\<close>

definition evidence_usable :: "plan_request \<Rightarrow> bool" where
  "evidence_usable r \<longleftrightarrow>
     mc_schema (pq_capabilities r) = capabilities_schema_version \<and> \<not> is_zero_time (pq_evaluated_at r) \<and>
     is_fresh (mc_freshness (pq_capabilities r)) (pq_evaluated_at r)"

definition evidence_trusted :: "plan_request \<Rightarrow> bool" where
  "evidence_trusted r \<longleftrightarrow>
     evidence_usable r \<and> (\<forall>t. pv_source (mc_provenance (pq_capabilities r)) \<noteq> OtherSource t) \<and>
     pv_confidence (mc_provenance (pq_capabilities r)) = ConfHigh"

definition surface_evidence :: "plan_request \<Rightarrow> support" where
  "surface_evidence r =
     (if evidence_usable r then surface_compatibility (pq_capabilities r) (pq_surface r) else SupportUnknown)"

definition operation_evidence :: "plan_request \<Rightarrow> support" where
  "operation_evidence r =
     (if evidence_usable r then operation_compatibility (pq_capabilities r) (pq_operation r) else SupportUnknown)"

lemma transport_capability_evidence_eq:
  "transport_capability_evidence r = (evidence_usable r, evidence_trusted r)"
  by (cases "pv_source (mc_provenance (pq_capabilities r))")
    (auto simp: transport_capability_evidence_def evidence_usable_def evidence_trusted_def is_fresh_def Let_def)

lemma trusted_usable: "evidence_trusted r \<Longrightarrow> evidence_usable r"
  by (simp add: evidence_trusted_def)

lemma classify_transport_interfaces_eq:
  "classify_transport_interfaces r (evidence_usable r) =
     (find (confirms (pq_surface r) (surface_evidence r)) (pq_interfaces r),
      find (unsure (pq_surface r) (surface_evidence r)) (pq_interfaces r),
      find (adaptable (pq_surface r) (surface_evidence r)) (pq_interfaces r),
      pq_interfaces r \<noteq> [])"
  by (simp add: classify_transport_interfaces_def classify_interfaces_spec surface_evidence_def)

text \<open>The plan over these verdicts, with the three interfaces it may use as arguments.\<close>

lemma plan_transport_unfold:
  "plan_transport material r =
     (let operation = operation_evidence r; trusted = evidence_trusted r;
          confirmed = find (confirms (pq_surface r) (surface_evidence r)) (pq_interfaces r);
          unknown = find (unsure (pq_surface r) (surface_evidence r)) (pq_interfaces r);
          adapted = find (adaptable (pq_surface r) (surface_evidence r)) (pq_interfaces r)
      in
      if operation = SupportUnsupported
      then reject_transport (pq_surface r) (evidence_confidence trusted) RejectOperationUnsupported []
      else if pq_requirement r \<notin> {OtherRequirement [], ReqAny, ReqNative, ReqTransparent}
      then reject_transport (pq_surface r) TransportHigh RejectInvalidRequirement []
      else if pq_requirement r = ReqTransparent
      then (if \<not> pq_exact_target r then reject_transport (pq_surface r) TransportHigh RejectExactTargetRequired []
            else if trusted \<and> confirmed \<noteq> None \<and> operation = SupportSupported
            then native_transport (ti_surface (the confirmed)) operation True True
            else reject_transport (pq_surface r)
                   (evidence_confidence (trusted \<and> operation \<noteq> SupportUnknown \<and> unknown = None))
                   RejectNativeUnconfirmed [])
      else if confirmed \<noteq> None then native_transport (ti_surface (the confirmed)) operation True trusted
      else if unknown \<noteq> None then native_transport (ti_surface (the unknown)) operation False trusted
      else if pq_requirement r = ReqNative
      then reject_transport (pq_surface r) (evidence_confidence trusted) RejectNativeRequired []
      else if adapted = None
      then reject_transport (pq_surface r) (evidence_confidence trusted) RejectNoInterface []
      else if \<not> pq_translation_evaluated r
      then reject_transport (ti_surface (the adapted)) (evidence_confidence trusted) RejectTranslationUnevaluated []
      else if material (pq_translation r) \<or> has_unsupported_loss (rp_losses (pq_translation r))
      then reject_transport (ti_surface (the adapted)) (evidence_confidence trusted) RejectTranslationLoss
             (rp_losses (pq_translation r))
      else \<lparr>tp_disposition = TransportAdapted, tp_surface = ti_surface (the adapted),
            tp_confidence = (if operation = SupportUnknown \<or> \<not> trusted then TransportLow else TransportMedium),
            tp_losses = rp_losses (pq_translation r), tp_reason = None\<rparr>)"
proof -
  define c u a where "c = find (confirms (pq_surface r) (surface_evidence r)) (pq_interfaces r)"
    and "u = find (unsure (pq_surface r) (surface_evidence r)) (pq_interfaces r)"
    and "a = find (adaptable (pq_surface r) (surface_evidence r)) (pq_interfaces r)"
  have interfaces: "a = Some i \<Longrightarrow> pq_interfaces r \<noteq> []" for i
    by (auto simp: a_def)
  show ?thesis
    unfolding plan_transport_def transport_capability_evidence_eq classify_transport_interfaces_eq
      operation_evidence_def [symmetric] c_def [symmetric] u_def [symmetric] a_def [symmetric]
      Let_def prod.case
    using interfaces
    by (cases c; cases u; cases a; cases "pq_interfaces r") simp_all
qed

lemma find_surface:
  "find (confirms s q) is = Some i \<Longrightarrow> ti_surface i = s"
  "find (unsure s q) is = Some j \<Longrightarrow> ti_surface j = s"
  by (auto simp: find_Some_iff confirms_def unsure_def)

lemmas plan_record_simps = reject_transport_def native_transport_def

lemma find_not_None: "find P xs \<noteq> None \<longleftrightarrow> (\<exists>x\<in>set xs. P x)"
  by (auto simp: find_None_iff)

lemma transparent_plan_unfold:
  "pq_requirement r = ReqTransparent \<Longrightarrow>
     plan_transport material r =
       (if operation_evidence r = SupportUnsupported
        then reject_transport (pq_surface r) (evidence_confidence (evidence_trusted r)) RejectOperationUnsupported []
        else if \<not> pq_exact_target r then reject_transport (pq_surface r) TransportHigh RejectExactTargetRequired []
        else if evidence_trusted r \<and> operation_evidence r = SupportSupported \<and>
                (\<exists>i\<in>set (pq_interfaces r). confirms (pq_surface r) (surface_evidence r) i)
        then native_transport (pq_surface r) SupportSupported True True
        else reject_transport (pq_surface r)
               (evidence_confidence (evidence_trusted r \<and> operation_evidence r \<noteq> SupportUnknown \<and>
                  find (unsure (pq_surface r) (surface_evidence r)) (pq_interfaces r) = None))
               RejectNativeUnconfirmed [])"
proof (cases "find (confirms (pq_surface r) (surface_evidence r)) (pq_interfaces r)")
  case None
  assume req: "pq_requirement r = ReqTransparent"
  have "\<not> (\<exists>i\<in>set (pq_interfaces r). confirms (pq_surface r) (surface_evidence r) i)"
    using None by (simp add: find_None_iff)
  with None req show ?thesis
    by (simp add: plan_transport_unfold Let_def)
next
  case (Some i)
  assume req: "pq_requirement r = ReqTransparent"
  have "\<exists>i\<in>set (pq_interfaces r). confirms (pq_surface r) (surface_evidence r) i"
    using Some find_not_None [of "confirms (pq_surface r) (surface_evidence r)" "pq_interfaces r"] by simp
  with Some req find_surface(1) [OF Some] show ?thesis
    by (simp add: plan_transport_unfold Let_def)
qed

lemma transparent_native:
  assumes "pq_requirement r = ReqTransparent"
  shows "tp_disposition (plan_transport material r) = TransportNative \<longleftrightarrow>
    pq_exact_target r \<and> evidence_trusted r \<and>
    operation_compatibility (pq_capabilities r) (pq_operation r) = SupportSupported \<and>
    (\<exists>i\<in>set (pq_interfaces r). confirms (pq_surface r)
       (surface_compatibility (pq_capabilities r) (pq_surface r)) i)"
  using assms trusted_usable [of r]
  by (cases "evidence_trusted r")
    (simp_all add: transparent_plan_unfold plan_record_simps operation_evidence_def surface_evidence_def)

lemma transparent_not_adapted:
  "pq_requirement r = ReqTransparent \<Longrightarrow> tp_disposition (plan_transport material r) \<noteq> TransportAdapted"
  by (cases "evidence_trusted r")
    (simp_all add: transparent_plan_unfold plan_record_simps)

lemma transport_interfaces_native:
  "i \<in> set (transport_interfaces p cred model apis) \<Longrightarrow>
     ti_surface i \<in> parse_surface_path ` set apis \<and> p \<noteq> [] \<and>
     ti_native i = (if preserves_wire_for p cred model (ti_surface i) then SupportSupported else SupportUnsupported)"
  by (induction apis) (auto split: if_splits)

lemma evidence_capabilities_provenance:
  "mi_capabilities (te_row e) = None \<Longrightarrow>
     mc_provenance (evidence_capabilities ovf e) = \<lparr>pv_source = Inferred, pv_confidence = ConfMedium\<rparr>"
  by (simp add: evidence_capabilities_def infer_capabilities_def Let_def)

lemma evidence_capabilities_expired:
  "te_fresh_for e \<le> 0 \<Longrightarrow> te_refreshed_at e + default_transport_freshness \<le> at \<Longrightarrow>
     0 < te_refreshed_at e \<Longrightarrow> \<not> is_fresh (mc_freshness (evidence_capabilities ovf e)) at"
  by (simp add: evidence_capabilities_def is_fresh_def freshness_status_at_def is_zero_time_def
      default_transport_freshness_def Let_def)

lemma sort_labels_filter:
  "sort_labels d ls =
     (filter (\<lambda>l. d l = TransportNative) ls, filter (\<lambda>l. d l = TransportAdapted) ls,
      filter (\<lambda>l. d l = TransportReject) ls)"
  by (induction ls) (auto split: transport_disposition.split)

lemma listing_labels_parse:
  "map parse_surface_path listing_labels = [ChatCompletions, Responses, Messages]"
  by code_simp

lemma surface_path_lowered:
  "map (\<lambda>s. to_lower (trim_space (surface_path s)))
     [ChatCompletions, Responses, Messages, Embeddings, AudioTranscriptions, AudioSpeech, Images, Videos] =
   map surface_path
     [ChatCompletions, Responses, Messages, Embeddings, AudioTranscriptions, AudioSpeech, Images, Videos]"
  by code_simp

lemma surface_path_parse:
  "map (parse_surface_path \<circ> surface_path) [ChatCompletions, Responses, Messages] =
     [ChatCompletions, Responses, Messages]"
  by code_simp

lemma surface_path_parse_bare:
  "map (\<lambda>s. parse_surface_path (drop 3 (surface_path s))) [ChatCompletions, Responses, Messages] =
     [ChatCompletions, Responses, Messages]"
  by code_simp

lemma surface_path_upper:
  "parse_surface_path ''/V1/responses'' = no_surface"
  "endpoint_marks ''/V1/responses'' = Some (Some Responses, OpChat)"
  by code_simp+

lemma surface_path_marks:
  "map (endpoint_marks \<circ> surface_path)
     [ChatCompletions, Responses, Messages, Embeddings, AudioTranscriptions, AudioSpeech, Images, Videos] =
   map Some [(Some ChatCompletions, OpChat), (Some Responses, OpChat), (Some Messages, OpChat),
     (None, OpEmbeddings), (None, OpAudioIn), (None, OpAudioOut), (None, OpImage), (None, OpVideo)]"
  using surface_path_lowered by (simp add: endpoint_marks_def surface_path_def)

lemma wire_for_without_credentials:
  "list_all (\<lambda>l. ly_preserves_for l = None) p \<Longrightarrow> preserves_wire_for p cred m s = preserves_wire p m s"
  by (induction p) (auto split: option.split)

text \<open>What the nearest layer that declares anything says, \<open>None\<close> if it declares nothing.\<close>

definition declared_for :: "'c layer \<Rightarrow> credential option \<Rightarrow> string \<Rightarrow> model_surface \<Rightarrow> bool option" where
  "declared_for l cred m s =
     (case ly_preserves_for l of
        Some f \<Rightarrow> Some (f cred m s)
      | None \<Rightarrow> map_option (\<lambda>f. f m s) (ly_preserves l))"

lemma preserves_wire_for_step:
  "preserves_wire_for (l # inner) cred m s \<longleftrightarrow>
     layer_serves l m s \<and>
     (case declared_for l cred m s of Some b \<Rightarrow> b | None \<Rightarrow> preserves_wire_for inner cred m s)"
  by (simp add: declared_for_def split: option.split)

subsection \<open>Properties\<close>

text \<open>
  C21. A transparent request is carried natively exactly when the target is exact, the stored
  evidence is trusted (current schema, fresh at the instant of the plan, from a known source at high
  confidence), the operation is supported, and an interface of the requested surface is confirmed
  native; a request that requires transparency is otherwise refused, whatever the translation, and
  never adapted.
\<close>
theorem transparent_needs_trusted_evidence:
  assumes "pq_requirement r = ReqTransparent"
  shows "(tp_disposition (plan_transport material r) = TransportNative \<longleftrightarrow>
       pq_exact_target r \<and> evidence_trusted r \<and>
       operation_compatibility (pq_capabilities r) (pq_operation r) = SupportSupported \<and>
       (\<exists>i\<in>set (pq_interfaces r). confirms (pq_surface r)
          (surface_compatibility (pq_capabilities r) (pq_surface r)) i)) \<and>
     tp_disposition (plan_transport material r) \<noteq> TransportAdapted"
  by (simp only: transparent_native [OF assms] transparent_not_adapted [OF assms] not_False_eq_True simp_thms)

definition demo_capabilities :: model_capabilities where
  "demo_capabilities =
     (legacy_capabilities [''chat'' \<mapsto> ABool True])
       \<lparr>mc_provenance := \<lparr>pv_source = OperatorOverride, pv_confidence = ConfHigh\<rparr>,
        mc_freshness := \<lparr>fr_discovered = Some 5, fr_verified = None, fr_expires = Some 100\<rparr>\<rparr>"

definition demo_plan_request :: plan_request where
  "demo_plan_request =
     \<lparr>pq_operation = OpChat, pq_surface = Responses, pq_evaluated_at = 50, pq_exact_target = True,
      pq_capabilities = demo_capabilities,
      pq_interfaces = [\<lparr>ti_surface = Messages, ti_native = SupportSupported\<rparr>,
                       \<lparr>ti_surface = Responses, ti_native = SupportSupported\<rparr>],
      pq_requirement = ReqTransparent, pq_translation_evaluated = True,
      pq_translation = \<lparr>rp_losses = []\<rparr>\<rparr>"

lemma demo_plan_evidence:
  "evidence_trusted demo_plan_request"
  "operation_compatibility demo_capabilities OpChat = SupportSupported"
  "surface_compatibility demo_capabilities Responses = SupportUnknown"
  by (simp_all add: evidence_trusted_def evidence_usable_def demo_plan_request_def demo_capabilities_def
      legacy_capabilities_def is_fresh_def freshness_status_at_def is_zero_time_def
      operation_compatibility_def surface_compatibility_def legacy_support_def)

theorem transparent_needs_trusted_evidence_witness:
  "tp_disposition (plan_transport (\<lambda>_. False) demo_plan_request) = TransportNative \<and>
   tp_disposition (plan_transport (\<lambda>_. False) (demo_plan_request\<lparr>pq_exact_target := False\<rparr>)) = TransportReject"
proof -
  let ?q = "demo_plan_request\<lparr>pq_exact_target := False\<rparr>"
  have "tp_disposition (plan_transport (\<lambda>_. False) demo_plan_request) = TransportNative"
    using transparent_needs_trusted_evidence [of demo_plan_request "\<lambda>_. False"] demo_plan_evidence
    by (simp add: demo_plan_request_def confirms_def)
  moreover have "tp_disposition (plan_transport (\<lambda>_. False) ?q) \<noteq> TransportNative"
    and "tp_disposition (plan_transport (\<lambda>_. False) ?q) \<noteq> TransportAdapted"
    using transparent_needs_trusted_evidence [of ?q "\<lambda>_. False"]
    by (simp_all add: demo_plan_request_def)
  ultimately show ?thesis
    by (cases "tp_disposition (plan_transport (\<lambda>_. False) ?q)") simp_all
qed

text \<open>
  A plan adapts a request only when no interface could carry it natively, the translation was
  evaluated and lost nothing material or unsupported, and the request does not demand native
  transport; it reports every loss of the translation, uses the first adaptable interface, and
  never claims high confidence.
\<close>
theorem adapted_plan_is_lossless:
  assumes "tp_disposition (plan_transport material r) = TransportAdapted"
  shows "pq_requirement r \<in> {OtherRequirement [], ReqAny} \<and> pq_translation_evaluated r \<and>
    \<not> material (pq_translation r) \<and> \<not> has_unsupported_loss (rp_losses (pq_translation r)) \<and>
    tp_losses (plan_transport material r) = rp_losses (pq_translation r) \<and>
    tp_confidence (plan_transport material r) \<noteq> TransportHigh \<and>
    list_all (adaptable (pq_surface r) (surface_evidence r)) (pq_interfaces r) \<and>
    tp_surface (plan_transport material r) = ti_surface (hd (pq_interfaces r))"
proof -
  let ?P = "confirms (pq_surface r) (surface_evidence r)"
  let ?U = "unsure (pq_surface r) (surface_evidence r)"
  let ?A = "adaptable (pq_surface r) (surface_evidence r)"
  from assms have none: "find ?P (pq_interfaces r) = None" "find ?U (pq_interfaces r) = None"
    and some: "find ?A (pq_interfaces r) \<noteq> None"
    by (auto simp: plan_transport_unfold plan_record_simps Let_def split: if_splits)
  have all: "list_all ?A (pq_interfaces r)"
    using none interface_trichotomy [of "pq_surface r" "surface_evidence r"]
    by (auto simp: find_None_iff list_all_iff)
  with some have hd: "find ?A (pq_interfaces r) = Some (hd (pq_interfaces r))"
    by (cases "pq_interfaces r") simp_all
  show ?thesis
    using assms none hd all
    by (simp add: plan_transport_unfold plan_record_simps Let_def split: if_splits)
qed

theorem adapted_plan_is_lossless_witness:
  "tp_confidence (plan_transport (\<lambda>_. False)
      (demo_plan_request\<lparr>pq_requirement := ReqAny,
         pq_interfaces := [\<lparr>ti_surface = Messages, ti_native = SupportSupported\<rparr>]\<rparr>)) \<noteq> TransportHigh"
  (is "tp_confidence (plan_transport _ ?q) \<noteq> _")
proof -
  have "tp_disposition (plan_transport (\<lambda>_. False) ?q) = TransportAdapted"
    by code_simp
  then show ?thesis
    using adapted_plan_is_lossless [of "\<lambda>_. False" ?q] by simp
qed

text \<open>
  Inferred evidence never earns high confidence: when the capabilities a plan reads come from a
  catalog row that reported none, a native plan is of low confidence, an adapted one too, and a
  transparent request is refused.
\<close>
theorem inferred_evidence_is_never_trusted:
  assumes "mi_capabilities (te_row e) = None" and "pq_capabilities r = evidence_capabilities overflow e"
  shows "(tp_disposition (plan_transport material r) \<noteq> TransportReject \<longrightarrow>
       tp_confidence (plan_transport material r) = TransportLow) \<and>
     (pq_requirement r = ReqTransparent \<longrightarrow> tp_disposition (plan_transport material r) = TransportReject)"
proof -
  have "\<not> evidence_trusted r"
    using assms by (simp add: evidence_trusted_def evidence_capabilities_provenance)
  then show ?thesis
    by (auto simp: plan_transport_unfold plan_record_simps Let_def)
qed

theorem inferred_evidence_is_never_trusted_witness:
  "tp_disposition (plan_transport (\<lambda>_. False)
     (demo_plan_request\<lparr>pq_capabilities := evidence_capabilities (\<lambda>_ _. 0)
        \<lparr>te_row = empty_model_info, te_refreshed_at = 5, te_fresh_for = 0\<rparr>\<rparr>)) = TransportReject"
  (is "tp_disposition (plan_transport _ ?q) = _")
  using inferred_evidence_is_never_trusted
    [of "\<lparr>te_row = empty_model_info, te_refreshed_at = 5, te_fresh_for = 0\<rparr>" ?q "\<lambda>_ _. 0" "\<lambda>_. False"]
  by (simp add: empty_model_info_def demo_plan_request_def)

text \<open>
  A model list classifies every chat surface exactly once and in their fixed order, or nothing at
  all for a row that neither claims chat nor lists a chat endpoint: the three lists are the labels
  whose plan is native, adapted and refused.
\<close>
theorem listing_surfaces_partition:
  "listing_surfaces material overflow p cred e at =
     (if lists_chat (te_row e)
      then (let d = (\<lambda>l. tp_disposition (any_plan material overflow p cred (mi_id (te_row e))
                           (parse_surface_path l) e at))
            in Some (filter (\<lambda>l. d l = TransportNative) listing_labels,
                     filter (\<lambda>l. d l = TransportAdapted) listing_labels,
                     filter (\<lambda>l. d l = TransportReject) listing_labels))
      else None) \<and>
   map parse_surface_path listing_labels = [ChatCompletions, Responses, Messages]"
  using listing_labels_parse by (simp add: listing_surfaces_def sort_labels_filter Let_def)

text \<open>
  Preserving a wire takes the whole chain down to the layer that speaks for it: a provider
  preserves a surface exactly when some layer declares that it does (for the credential, if it
  distinguishes credentials), that layer and every decorator outside it serve the surface natively,
  and none of those decorators declares anything.
\<close>
theorem preserves_wire_nearest:
  "preserves_wire_for p cred m s \<longleftrightarrow>
     (\<exists>pre l post. p = pre @ l # post \<and> list_all (\<lambda>x. layer_serves x m s \<and> declared_for x cred m s = None) pre \<and>
        layer_serves l m s \<and> declared_for l cred m s = Some True)"
proof (induction p)
  case Nil
  then show ?case by simp
next
  case (Cons x p)
  let ?skip = "\<lambda>x. layer_serves x m s \<and> declared_for x cred m s = None"
  let ?hit = "\<lambda>p. \<exists>pre l post. p = pre @ l # post \<and> list_all ?skip pre \<and> layer_serves l m s \<and>
    declared_for l cred m s = Some True"
  have step: "?hit (x # p) \<longleftrightarrow>
      (layer_serves x m s \<and> declared_for x cred m s = Some True) \<or> (?skip x \<and> ?hit p)"
  proof
    assume "?hit (x # p)"
    then obtain pre l post where d: "x # p = pre @ l # post" and sk: "list_all ?skip pre"
      and h: "layer_serves l m s" "declared_for l cred m s = Some True"
      by blast
    show "(layer_serves x m s \<and> declared_for x cred m s = Some True) \<or> (?skip x \<and> ?hit p)"
    proof (cases pre)
      case Nil
      with d h show ?thesis by simp
    next
      case (Cons y ys)
      with d sk have "p = ys @ l # post" "?skip x" "list_all ?skip ys" by simp_all
      with h show ?thesis by blast
    qed
  next
    assume "(layer_serves x m s \<and> declared_for x cred m s = Some True) \<or> (?skip x \<and> ?hit p)"
    then show "?hit (x # p)"
    proof
      assume "layer_serves x m s \<and> declared_for x cred m s = Some True"
      then show ?thesis by (intro exI [of _ "[]"] exI [of _ x] exI [of _ p]) simp
    next
      assume a: "?skip x \<and> ?hit p"
      then obtain pre l post where "p = pre @ l # post" "list_all ?skip pre"
        "layer_serves l m s" "declared_for l cred m s = Some True"
        by blast
      with a show ?thesis by (intro exI [of _ "x # pre"] exI [of _ l] exI [of _ post]) simp
    qed
  qed
  show ?case
    unfolding step preserves_wire_for_step Cons.IH [symmetric]
    by (cases "declared_for x cred m s") auto
qed

text \<open>
  A surface's canonical path reads back as that surface, for the planner and for capability
  inference: the path of a chat surface parses to it with and without the \<^verbatim>\<open>/v1\<close> prefix, and every
  defined surface's path marks its operation.
\<close>
theorem surface_path_roundtrip:
  "map (parse_surface_path \<circ> surface_path) [ChatCompletions, Responses, Messages] =
     [ChatCompletions, Responses, Messages] \<and>
   map (\<lambda>s. parse_surface_path (drop 3 (surface_path s))) [ChatCompletions, Responses, Messages] =
     [ChatCompletions, Responses, Messages] \<and>
   map (endpoint_marks \<circ> surface_path)
     [ChatCompletions, Responses, Messages, Embeddings, AudioTranscriptions, AudioSpeech, Images, Videos] =
   map Some [(Some ChatCompletions, OpChat), (Some Responses, OpChat), (Some Messages, OpChat),
     (None, OpEmbeddings), (None, OpAudioIn), (None, OpAudioOut), (None, OpImage), (None, OpVideo)] \<and>
   parse_surface_path ''/V1/responses'' = no_surface \<and>
   endpoint_marks ''/V1/responses'' = Some (Some Responses, OpChat)"
  by (intro conjI surface_path_parse surface_path_parse_bare surface_path_marks surface_path_upper)

end
