(* ===== verification/Resilience.thy ===== *)
theory Resilience
  imports Streaming Transport
begin

text \<open>
  \<^verbatim>\<open>execution/resilient*.go\<close>: a provider guarded by a policy. Every guarded operation is one call
  of \<open>guard\<close>, over the same state-passing effects as \<open>Execution\<close>. What the wrapper passes
  through unchanged (\<^verbatim>\<open>NativeSurfaces\<close>, \<^verbatim>\<open>ListModels\<close>, \<^verbatim>\<open>Unwrap\<close>) is a layer that declares nothing.
  The floating-point \<^verbatim>\<open>ExponentialBackoff\<close> is one possible \<^verbatim>\<open>Retry.Delay\<close> and is not modelled.
\<close>

subsection \<open>Policies\<close>

record 'w policy =
  pl_retry :: retry
  pl_health :: "'w health_ops option"
  pl_classify :: "(go_err \<Rightarrow> classification) option"
  pl_repeatable :: "(request \<Rightarrow> bool) option"
  pl_now :: "'w \<Rightarrow> gtime \<times> 'w"
  pl_sleep :: "duration \<Rightarrow> 'w \<Rightarrow> go_err option \<times> 'w"

definition transient_status :: "int \<Rightarrow> bool" where
  "transient_status status \<longleftrightarrow> status \<in> {408, 429, 500, 502, 503, 504}"

definition transient_classification :: "go_err \<Rightarrow> classification" where
  "transient_classification e =
     (let c = classify_error e;
          status = cl_status c;
          c1 = (if status \<noteq> 0 \<and> (status < 200 \<or> 299 < status) \<and> \<not> canceled e
                then c\<lparr>cl_retryable := transient_status status, cl_circuit := transient_status status\<rparr> else c)
      in c1\<lparr>cl_circuit := cl_circuit c1 \<or> cl_retryable c1\<rparr>)"

definition policy_view :: "'w policy \<Rightarrow> go_err \<Rightarrow> go_err" where
  "policy_view p e = (case pl_classify p of None \<Rightarrow> e | Some f \<Rightarrow> ClassifiedErr e (f e))"

definition policy_record :: "'w policy \<Rightarrow> string \<Rightarrow> go_err option \<Rightarrow> 'w \<Rightarrow> 'w" where
  "policy_record p key err w = (case pl_health p of None \<Rightarrow> w | Some h \<Rightarrow> hl_record h key err w)"

definition admit :: "'w policy \<Rightarrow> string \<Rightarrow> 'w \<Rightarrow> go_err option \<times> 'w" where
  "admit p key w =
     (case pl_health p of
        None \<Rightarrow> (None, w)
      | Some h \<Rightarrow>
          (case hl_available h key w of
             ((available, until), w1) \<Rightarrow>
               (if available then (None, w1)
                else if is_zero_time until then (Some (CircuitOpenErr key until 0), w1)
                else
                  (case pl_now p w1 of
                     (now, w2) \<Rightarrow> (Some (CircuitOpenErr key until (max 0 (time_sub until now))), w2)))))"

subsection \<open>The guard\<close>

text \<open>
  A try returns a value and an error, either of which may be missing; \<open>discard\<close> releases the value
  of a failed or abandoned one (closing a stream, say), with \<open>None\<close> for operations without one.
\<close>

type_synonym ('v, 'w) discard = "('v option \<Rightarrow> 'w \<Rightarrow> 'w) option"

definition discarded :: "('v, 'w) discard \<Rightarrow> 'v option \<Rightarrow> 'w \<Rightarrow> 'w" where
  "discarded discard v w = (case discard of None \<Rightarrow> w | Some f \<Rightarrow> f v w)"

function (sequential) guard_loop ::
    "'w policy \<Rightarrow> ('w \<Rightarrow> go_err option \<times> 'w) \<Rightarrow> string \<Rightarrow> ('w \<Rightarrow> ('v option \<times> go_err option) \<times> 'w) \<Rightarrow>
     ('v, 'w) discard \<Rightarrow> int \<Rightarrow> int \<Rightarrow> 'w \<Rightarrow> (go_err + 'v option) \<times> 'w" where
  "guard_loop p ctx key call discard attempts tries w =
     (case call w of
        ((v, err), w1) \<Rightarrow>
          (case ctx w1 of
             (Some c, w2) \<Rightarrow> (Inl c, discarded discard v w2)
           | (None, w2) \<Rightarrow>
               (case err of
                  None \<Rightarrow> (Inr v, policy_record p key None w2)
                | Some e \<Rightarrow>
                    (let w3 = discarded discard v w2;
                         view = policy_view p e
                     in if tries < attempts \<and> cl_retryable (classify_error view)
                        then
                          (case retry_wait (pl_retry p) (pl_sleep p) ctx tries view w3 of
                             (Some we, w4) \<Rightarrow> (Inl we, w4)
                           | (None, w4) \<Rightarrow> guard_loop p ctx key call discard attempts (tries + 1) w4)
                        else (Inl e, policy_record p key (Some view) w3)))))"
  by pat_completeness auto
termination
  by (relation "measure (\<lambda>(p, ctx, key, call, discard, attempts, tries, w). nat (attempts - tries))") auto

declare guard_loop.simps [simp del]

definition guard_attempts :: "'w policy \<Rightarrow> bool \<Rightarrow> int" where
  "guard_attempts p repeatable = (if repeatable then max 1 (rt_attempts (pl_retry p)) else 1)"

definition guard ::
    "'w policy \<Rightarrow> ('w \<Rightarrow> go_err option \<times> 'w) \<Rightarrow> string \<Rightarrow> bool \<Rightarrow>
     ('w \<Rightarrow> ('v option \<times> go_err option) \<times> 'w) \<Rightarrow> ('v, 'w) discard \<Rightarrow> 'w \<Rightarrow> (go_err + 'v option) \<times> 'w" where
  "guard p ctx key repeatable call discard w =
     (case ctx w of
        (Some e, w1) \<Rightarrow> (Inl e, w1)
      | (None, w1) \<Rightarrow>
          (case admit p key w1 of
             (Some e, w2) \<Rightarrow> (Inl e, w2)
           | (None, w2) \<Rightarrow> guard_loop p ctx key call discard (guard_attempts p repeatable) 1 w2))"

subsection \<open>Which requests repeat\<close>

text \<open>
  The gateway's reading of a decoded Responses payload: a JSON object is its fields, each key once.
\<close>

definition stateful_item_types :: "string list" where
  "stateful_item_types =
     [''item_reference'', ''reasoning'', ''compaction'', ''computer_call'', ''computer_call_output'',
      ''local_shell_call'', ''local_shell_call_output'', ''mcp_approval_response'', ''mcp_call'',
      ''mcp_list_tools'']"

definition stateful_object :: "(string \<times> any_val) list \<Rightarrow> bool" where
  "stateful_object fs \<longleftrightarrow>
     (let item_type = text_of (field fs ''type'') in
      item_type \<in> set stateful_item_types \<or>
      field fs ''encrypted_content'' \<noteq> ANil \<or> field fs ''file_id'' \<noteq> ANil \<or>
      (field fs ''id'' \<noteq> ANil \<and> item_type \<noteq> [] \<and> item_type \<noteq> ''message''))"

fun stateful_responses_value :: "any_val \<Rightarrow> bool" where
  "stateful_responses_value (AList vs) = list_ex stateful_responses_value vs"
| "stateful_responses_value (AObject fs) =
     (stateful_object fs \<or> list_ex (\<lambda>kv. stateful_responses_value (snd kv)) fs)"
| "stateful_responses_value _ = False"

definition stateful_tool :: "any_val \<Rightarrow> bool" where
  "stateful_tool tool \<longleftrightarrow>
     (let fs = fields_of tool; tool_type = text_of (field fs ''type'') in
      (tool_type \<noteq> [] \<and> tool_type \<noteq> ''function'') \<or>
      (case field fs ''vector_store_ids'' of AList ids \<Rightarrow> ids \<noteq> [] | _ \<Rightarrow> False) \<or>
      field fs ''container'' \<noteq> ANil)"

definition stateful_responses :: "(string \<times> any_val) list \<Rightarrow> bool" where
  "stateful_responses payload \<longleftrightarrow>
     field payload ''store'' = ABool True \<or>
     (field payload ''previous_response_id'' \<noteq> ANil \<and> field payload ''previous_response_id'' \<noteq> AString []) \<or>
     field payload ''conversation'' \<noteq> ANil \<or>
     (case field payload ''prompt'' of AObject fs \<Rightarrow> field fs ''id'' \<noteq> ANil | _ \<Rightarrow> False) \<or>
     (case field payload ''tools'' of AList tools \<Rightarrow> list_ex stateful_tool tools | _ \<Rightarrow> False) \<or>
     stateful_responses_value (field payload ''input'')"

text \<open>
  \<open>decode\<close> is \<^verbatim>\<open>encoding/json\<close>'s reading of a body into a map: \<open>None\<close> when it fails or the body
  is null.
\<close>

definition repeatable_request :: "(string \<Rightarrow> (string \<times> any_val) list option) \<Rightarrow> request \<Rightarrow> bool" where
  "repeatable_request decode r =
     (case rq_surface r of
        ChatCompletions \<Rightarrow> True
      | Messages \<Rightarrow> True
      | AudioSpeech \<Rightarrow> True
      | Responses \<Rightarrow>
          (case decode (rq_body r) of
             None \<Rightarrow> False
           | Some payload \<Rightarrow> \<not> stateful_responses payload)
      | _ \<Rightarrow> False)"

definition policy_repeatable ::
    "(string \<Rightarrow> (string \<times> any_val) list option) \<Rightarrow> 'w policy \<Rightarrow> request \<Rightarrow> bool" where
  "policy_repeatable decode p r =
     (case pl_repeatable p of Some f \<Rightarrow> f r | None \<Rightarrow> repeatable_request decode r)"

subsection \<open>The guarded operations\<close>

definition resilient_invoke ::
    "(string \<Rightarrow> (string \<times> any_val) list option) \<Rightarrow> 'w policy \<Rightarrow> ('w \<Rightarrow> go_err option \<times> 'w) \<Rightarrow> string \<Rightarrow>
     (request \<Rightarrow> 'w \<Rightarrow> ('v option \<times> go_err option) \<times> 'w) \<Rightarrow> request \<Rightarrow> 'w \<Rightarrow> (go_err + 'v option) \<times> 'w" where
  "resilient_invoke decode p ctx key invoke rq w =
     guard p ctx key (policy_repeatable decode p rq) (invoke rq) None w"

definition close_stream :: "'w stream option \<Rightarrow> 'w \<Rightarrow> 'w" where
  "close_stream so w = (case so of None \<Rightarrow> w | Some s \<Rightarrow> snd (sm_close s w))"

definition resilient_stream ::
    "(string \<Rightarrow> (string \<times> any_val) list option) \<Rightarrow> 'w policy \<Rightarrow> ('w \<Rightarrow> go_err option \<times> 'w) \<Rightarrow> string \<Rightarrow>
     (request \<Rightarrow> 'w \<Rightarrow> ('w stream option \<times> go_err option) \<times> 'w) \<Rightarrow> request \<Rightarrow> 'w \<Rightarrow>
     (go_err + 'w stream option) \<times> 'w" where
  "resilient_stream decode p ctx key open rq w =
     guard p ctx key (policy_repeatable decode p rq) (open rq) (Some close_stream) w"

definition resilient_count_tokens ::
    "'w policy \<Rightarrow> ('w \<Rightarrow> go_err option \<times> 'w) \<Rightarrow> string \<Rightarrow>
     ('w \<Rightarrow> (int option \<times> go_err option) \<times> 'w) \<Rightarrow> 'w \<Rightarrow> (go_err + int option) \<times> 'w" where
  "resilient_count_tokens p ctx key count w = guard p ctx key True count None w"

definition counts_tokens :: "'c layer list \<Rightarrow> bool" where
  "counts_tokens provider \<longleftrightarrow> list_ex (\<lambda>l. ly_counter l \<noteq> None) provider"

text \<open>The layer \<^verbatim>\<open>Resilient\<close> puts around a provider: it counts only if the provider can.\<close>

definition resilient_layer :: "'c \<Rightarrow> 'c layer list \<Rightarrow> 'c layer list" where
  "resilient_layer count provider =
     (case provider of
        [] \<Rightarrow> []
      | inner # _ \<Rightarrow>
          \<lparr>ly_native = ly_native inner, ly_preserves = None, ly_preserves_for = None,
           ly_counter = (if counts_tokens provider then Some count else None)\<rparr> # provider)"

subsection \<open>A rule for the guard's loop\<close>

lemma guard_loop_rule [case_names gave_up served wait_ended repeat failed]:
  assumes gave_up: "\<And>n w v err w1 c w2. call w = ((v, err), w1) \<Longrightarrow> ctx w1 = (Some c, w2) \<Longrightarrow>
      P n w (Inl c, discarded discard v w2)"
    and served: "\<And>n w v w1 w2. call w = ((v, None), w1) \<Longrightarrow> ctx w1 = (None, w2) \<Longrightarrow>
      P n w (Inr v, policy_record p key None w2)"
    and wait_ended: "\<And>n w v e w1 w2 we w4. call w = ((v, Some e), w1) \<Longrightarrow> ctx w1 = (None, w2) \<Longrightarrow>
      n < attempts \<Longrightarrow> cl_retryable (classify_error (policy_view p e)) \<Longrightarrow>
      retry_wait (pl_retry p) (pl_sleep p) ctx n (policy_view p e) (discarded discard v w2) = (Some we, w4) \<Longrightarrow>
      P n w (Inl we, w4)"
    and repeat: "\<And>n w v e w1 w2 w4. call w = ((v, Some e), w1) \<Longrightarrow> ctx w1 = (None, w2) \<Longrightarrow>
      n < attempts \<Longrightarrow> cl_retryable (classify_error (policy_view p e)) \<Longrightarrow>
      retry_wait (pl_retry p) (pl_sleep p) ctx n (policy_view p e) (discarded discard v w2) = (None, w4) \<Longrightarrow>
      P (n + 1) w4 (guard_loop p ctx key call discard attempts (n + 1) w4) \<Longrightarrow>
      P n w (guard_loop p ctx key call discard attempts (n + 1) w4)"
    and failed: "\<And>n w v e w1 w2. call w = ((v, Some e), w1) \<Longrightarrow> ctx w1 = (None, w2) \<Longrightarrow>
      \<not> (n < attempts \<and> cl_retryable (classify_error (policy_view p e))) \<Longrightarrow>
      P n w (Inl e, policy_record p key (Some (policy_view p e)) (discarded discard v w2))"
  shows "P n w (guard_loop p ctx key call discard attempts n w)"
proof (induction "nat (attempts - n)" arbitrary: n w rule: less_induct)
  case less
  obtain v err w1 where t: "call w = ((v, err), w1)" by (metis surj_pair)
  obtain co w2 where c: "ctx w1 = (co, w2)" by (cases "ctx w1")
  note unfold = guard_loop.simps [of p ctx key call discard attempts n w]
  consider (gone) e where "co = Some e" | (ok) "co = None" "err = None"
    | (bad) e where "co = None" "err = Some e"
    by (cases co; cases err) auto
  then show ?case
  proof cases
    case gone
    with t c gave_up show ?thesis by (simp add: unfold)
  next
    case ok
    with t c served show ?thesis by (simp add: unfold)
  next
    case bad
    let ?view = "policy_view p e"
    obtain wo w4 where wt: "retry_wait (pl_retry p) (pl_sleep p) ctx n ?view (discarded discard v w2) = (wo, w4)"
      by (cases "retry_wait (pl_retry p) (pl_sleep p) ctx n ?view (discarded discard v w2)")
    show ?thesis
    proof (cases "n < attempts \<and> cl_retryable (classify_error ?view)")
      case False
      with t c bad failed [of w v e w1 w2 n] show ?thesis by (auto simp: unfold Let_def)
    next
      case True
      have "P (n + 1) w4 (guard_loop p ctx key call discard attempts (n + 1) w4)"
        using True by (intro less) simp
      with t c bad True wt wait_ended [of w v e w1 w2 n _ w4] repeat [of w v e w1 w2 n w4] show ?thesis
        by (cases wo) (simp_all add: unfold Let_def)
    qed
  qed
qed

subsection \<open>What is tried and recorded\<close>

datatype guard_event = EvTry | EvOutcome string "go_err option"

definition log_try :: "('w \<Rightarrow> 'a \<times> 'w) \<Rightarrow> 'w \<times> guard_event list \<Rightarrow> 'a \<times> ('w \<times> guard_event list)" where
  "log_try f wl = (case wl of (w, l) \<Rightarrow> (case f w of (r, w') \<Rightarrow> (r, (w', l @ [EvTry]))))"

definition log_policy :: "'w policy \<Rightarrow> ('w \<times> guard_event list) policy" where
  "log_policy p =
     \<lparr>pl_retry = pl_retry p,
      pl_health = map_option (\<lambda>h. \<lparr>hl_available = (\<lambda>k. carry (hl_available h k)),
                                   hl_record = (\<lambda>k e (w, l). (hl_record h k e w, l @ [EvOutcome k e]))\<rparr>)
                    (pl_health p),
      pl_classify = pl_classify p, pl_repeatable = pl_repeatable p, pl_now = carry (pl_now p),
      pl_sleep = (\<lambda>d. carry (pl_sleep p d))\<rparr>"

definition log_discard :: "('v, 'w) discard \<Rightarrow> ('v, 'w \<times> 'l) discard" where
  "log_discard = map_option (\<lambda>f v (w, l). (f v w, l))"

definition outcome_event :: "'w policy \<Rightarrow> string \<Rightarrow> go_err option \<Rightarrow> guard_event list" where
  "outcome_event p key err = (if pl_health p = None then [] else [EvOutcome key err])"

lemma log_try_eq [simp]: "log_try f (w, l) = (fst (f w), (snd (f w), l @ [EvTry]))"
  by (simp add: log_try_def split: prod.split)

lemma log_policy_sel [simp]:
  "pl_retry (log_policy p) = pl_retry p" "pl_sleep (log_policy p) = (\<lambda>d. carry (pl_sleep p d))"
  "policy_view (log_policy p) = policy_view p" "pl_now (log_policy p) = carry (pl_now p)"
  by (simp_all add: log_policy_def policy_view_def fun_eq_iff)

lemma log_policy_record [simp]:
  "policy_record (log_policy p) k e (w, l) = (policy_record p k e w, l @ outcome_event p k e)"
  by (simp add: policy_record_def log_policy_def outcome_event_def split: option.split)

lemma log_discarded [simp]: "discarded (log_discard d) v (w, l) = (discarded d v w, l)"
  by (simp add: discarded_def log_discard_def split: option.split)

lemma log_admit_eq [simp]: "admit (log_policy p) key (w, l) = (fst (admit p key w), (snd (admit p key w), l))"
  by (simp add: admit_def log_policy_def split: option.split prod.split)

text \<open>The events after the tries: one outcome unless the caller gave up.\<close>

definition guard_events ::
    "'w policy \<Rightarrow> ('w \<Rightarrow> go_err option \<times> 'w) \<Rightarrow> string \<Rightarrow> go_err + 'v option \<Rightarrow> guard_event list \<Rightarrow> bool" where
  "guard_events p ctx key r l \<longleftrightarrow>
     (case r of
        Inr v \<Rightarrow> l = outcome_event p key None
      | Inl e \<Rightarrow>
          l = outcome_event p key (Some (policy_view p e)) \<or>
          (l = [] \<and> ((\<exists>w. fst (ctx w) = Some e) \<or> (\<exists>d w. fst (pl_sleep p d w) = Some e))))"

lemma retry_wait_error:
  "retry_wait rt sleep ctx n e w = (Some we, w') \<Longrightarrow>
     (\<exists>w. fst (ctx w) = Some we) \<or> (\<exists>d w. fst (sleep d w) = Some we)"
  by (auto simp: retry_wait_def Let_def split: if_splits) (metis fst_conv)+

definition guard_loop_post ::
    "'w policy \<Rightarrow> ('w \<Rightarrow> go_err option \<times> 'w) \<Rightarrow> string \<Rightarrow> int \<Rightarrow> int \<Rightarrow> (go_err + 'v option) \<times> 'w \<Rightarrow>
     guard_event list \<Rightarrow> (go_err + 'v option) \<times> ('w \<times> guard_event list) \<Rightarrow> bool" where
  "guard_loop_post p ctx key attempts n r l r' \<longleftrightarrow>
     (\<exists>k tail. r' = (fst r, (snd r, l @ replicate k EvTry @ tail)) \<and> 1 \<le> k \<and>
        int k \<le> max 1 (attempts - n + 1) \<and> guard_events p ctx key (fst r) tail)"

lemma log_guard_loop:
  "\<forall>l. guard_loop_post p ctx key attempts n (guard_loop p ctx key call discard attempts n w) l
     (guard_loop (log_policy p) (carry ctx) key (log_try call) (log_discard discard) attempts n (w, l))"
proof (induction rule: guard_loop_rule [where p = p and ctx = ctx and key = key and call = call
      and discard = discard and attempts = attempts and n = n and w = w])
  case (gave_up n w v err w1 c w2)
  then show ?case
    by (auto simp: guard_loop.simps [of "log_policy p"] guard_loop_post_def guard_events_def
        intro!: exI [of _ "1::nat"] exI [of _ "[]"]) (metis fst_conv)
next
  case (served n w v w1 w2)
  then show ?case
    by (auto simp: guard_loop.simps [of "log_policy p"] guard_loop_post_def guard_events_def
        intro!: exI [of _ "1::nat"])
next
  case (wait_ended n w v e w1 w2 we w4)
  then show ?case
    using retry_wait_error [OF wait_ended(5)]
    by (auto simp: guard_loop.simps [of "log_policy p"] guard_loop_post_def guard_events_def Let_def
        intro!: exI [of _ "1::nat"] exI [of _ "[]"])
next
  case (repeat n w v e w1 w2 w4)
  show ?case
  proof
    fix l
    obtain k tail where *: "guard_loop (log_policy p) (carry ctx) key (log_try call) (log_discard discard) attempts (n + 1)
          (w4, l @ [EvTry]) =
        (fst (guard_loop p ctx key call discard attempts (n + 1) w4),
         (snd (guard_loop p ctx key call discard attempts (n + 1) w4), (l @ [EvTry]) @ replicate k EvTry @ tail))"
      "1 \<le> k" "int k \<le> max 1 (attempts - (n + 1) + 1)"
      "guard_events p ctx key (fst (guard_loop p ctx key call discard attempts (n + 1) w4)) tail"
      using repeat(6) unfolding guard_loop_post_def by blast
    with repeat show "guard_loop_post p ctx key attempts n (guard_loop p ctx key call discard attempts (n + 1) w4) l
       (guard_loop (log_policy p) (carry ctx) key (log_try call) (log_discard discard) attempts n (w, l))"
      unfolding guard_loop_post_def
      by (intro exI [of _ "Suc k"] exI [of _ tail])
        (simp add: guard_loop.simps [of "log_policy p" _ _ _ _ _ n] Let_def)
  qed
next
  case (failed n w v e w1 w2)
  then show ?case
    by (auto simp: guard_loop.simps [of "log_policy p"] guard_loop_post_def guard_events_def Let_def
        intro!: exI [of _ "1::nat"])
qed

subsection \<open>The guard over a health contract\<close>

context health_contract
begin

lemma guard_while_refused:
  assumes "pl_health p = Some (contract_ops avail rec clk)" and "pl_now p = (\<lambda>w. (clk (snd w), w))"
    and "\<And>w. ctx w = (None, w)" and "avail (clk x) key h = (False, u)" and "0 \<le> clk x"
  shows "guard p ctx key rep call d (h, x) =
      (Inl (CircuitOpenErr key u (max 0 (time_sub u (clk x)))), (h, x))"
    and "u \<le> clk x' \<Longrightarrow> guard p ctx key rep call d (h, x') =
      guard_loop p ctx key call d (guard_attempts p rep) 1 (h, x')"
proof -
  have "0 < u"
    using refused_before [OF assms(4)] assms(5) by simp
  then show "guard p ctx key rep call d (h, x) =
      (Inl (CircuitOpenErr key u (max 0 (time_sub u (clk x)))), (h, x))"
    using assms by (simp add: guard_def admit_def contract_ops_def is_zero_time_def)
  show "u \<le> clk x' \<Longrightarrow> guard p ctx key rep call d (h, x') =
      guard_loop p ctx key call d (guard_attempts p rep) 1 (h, x')"
    using assms admitted_from [OF assms(4), of "clk x'"]
    by (simp add: guard_def admit_def contract_ops_def)
qed

end

subsection \<open>What a stateful payload holds\<close>

text \<open>A value and everything nested in it.\<close>

fun nested :: "any_val \<Rightarrow> any_val list" where
  "nested (AList vs) = AList vs # concat (map nested vs)"
| "nested (AObject fs) = AObject fs # concat (map (\<lambda>kv. nested (snd kv)) fs)"
| "nested v = [v]"

lemma stateful_value_nested:
  "stateful_responses_value v \<longleftrightarrow> (\<exists>fs. AObject fs \<in> set (nested v) \<and> stateful_object fs)"
proof (induction v rule: stateful_responses_value.induct)
  case (1 vs)
  then show ?case by (auto simp: list_ex_iff)
next
  case (2 fs)
  have "list_ex (\<lambda>kv. stateful_responses_value (snd kv)) fs \<longleftrightarrow>
      (\<exists>kv\<in>set fs. \<exists>gs. AObject gs \<in> set (nested (snd kv)) \<and> stateful_object gs)"
    using 2 by (auto simp: list_ex_iff)
  then show ?case by (auto simp: list_ex_iff)
qed simp_all

lemma counts_tokens_count:
  "count_tokens p rq = Inl err_token_count_unsupported \<or> counts_tokens p"
  "\<not> counts_tokens p \<Longrightarrow> count_tokens p rq = Inl err_token_count_unsupported"
  by (induction p) (auto simp: counts_tokens_def split: option.split)

subsection \<open>Properties\<close>


definition demo_policy :: "(tracker \<times> gtime) policy" where
  "demo_policy =
     \<lparr>pl_retry = \<lparr>rt_attempts = 2, rt_delay = None\<rparr>,
      pl_health = Some (contract_ops (tracker_available demo_config) (tracker_record demo_config) id),
      pl_classify = Some transient_classification, pl_repeatable = None,
      pl_now = (\<lambda>w. (snd w, w)), pl_sleep = (\<lambda>d w. (None, w))\<rparr>"


text \<open>
  While the tracker refuses a key, every guarded operation is refused at once with a circuit-open
  error that names when the key is available again, sends and records nothing, permits failover and
  forbids a repeat; from that instant on the operation is tried.
\<close>
theorem open_circuit_refuses:
  assumes "pl_health p = Some (contract_ops (tracker_available cfg) (tracker_record cfg) clk)"
    and "pl_now p = (\<lambda>w. (clk (snd w), w))" and "\<And>w. ctx w = (None, w)"
    and "tracker_available cfg (clk x) key h = (False, u)" and "0 \<le> clk x" and "u \<le> clk x'"
  shows "\<exists>e. guard p ctx key rep call d (h, x) = (Inl e, (h, x)) \<and>
      e = CircuitOpenErr key u (max 0 (time_sub u (clk x))) \<and>
      disposition_of (classify_error e) = DispositionFailover \<and> cl_status (classify_error e) = 503 \<and>
      cl_retry_after (classify_error e) = max 0 (time_sub u (clk x)) \<and>
    guard p ctx key rep call d (h, x') = guard_loop p ctx key call d (guard_attempts p rep) 1 (h, x')"
  using assms(6)
  by (simp add: tracker.guard_while_refused [OF assms(1-5)] disposition_of_def)

theorem open_circuit_refuses_witness:
  "\<exists>e. guard demo_policy (Pair None) ''open'' True (\<lambda>w. ((Some (), None), w)) None (demo_tracker, 20) =
     (Inl e, (demo_tracker, 20)) \<and> e = CircuitOpenErr ''open'' 90 70"
proof -
  have "tracker_available demo_config (id 20) ''open'' demo_tracker = (False, 90)"
    by (simp add: demo_tracker_def tracker_available_def tracker_until_def later_def Let_def
        new_key_health_def default_health_policy_def default_failure_threshold_def)
  then show ?thesis
    using open_circuit_refuses [of demo_policy demo_config id "Pair None" 20 "''open''" demo_tracker 90 90 True
        "\<lambda>w. ((Some (), None), w)" None]
    by (auto simp: demo_policy_def time_sub_def min_int64_def max_int64_def)
qed

text \<open>
  Under the gateway's reading, an operation error its caller did not cause repeats exactly for the
  six transient statuses and for a transport failure, and every error that repeats counts against the
  circuit; besides those only an answer that could not be used (a 2xx with an error, or no status and
  no error) does, so a definitive refusal never opens it.
\<close>
theorem transient_reading:
  assumes "pl_classify p = Some transient_classification"
    and "\<not> canceled (OperationErr op status ra t cause)"
  shows "(let view = policy_view p (OperationErr op status ra t cause);
              transient = (transient_status status \<or> (status = 0 \<and> cause \<noteq> None))
          in cl_retryable (classify_error view) = transient \<and>
             (ob_effect (observe (Some view)) = EffectFailure) =
               (transient \<or> (status = 0 \<and> cause = None) \<or> (200 \<le> status \<and> status < 300 \<and> cause \<noteq> None)))"
  using assms
  by (auto simp: policy_view_def transient_classification_def operation_classification_def
      failure_verdict_def transient_status_def observe_def Let_def simp del: canceled_simps(8))

theorem transient_reading_witness:
  "\<not> cl_retryable (classify_error (policy_view demo_policy (OperationErr ''chat'' 501 [] 0 None)))"
  using transient_reading [of demo_policy "''chat''" 501 "[]" 0 None]
  by (simp add: demo_policy_def transient_status_def Let_def)


text \<open>
  The wrapper invents no capability and hides none: around a provider it preserves, for every
  credential, exactly the wires the provider preserves, serves the same surfaces natively, and counts
  tokens only when the provider can.
\<close>
theorem resilient_keeps_declarations:
  "preserves_wire_for (resilient_layer count p) cred m s = preserves_wire_for p cred m s \<and>
   serves_natively (resilient_layer count p) m s = serves_natively p m s \<and>
   counts_tokens (resilient_layer count p) = counts_tokens p"
  by (cases p) (auto simp: resilient_layer_def serves_natively_def layer_serves_def counts_tokens_def)

end
