(* ===== verification/Catalog_Store.thy ===== *)
theory Catalog_Store
  imports Capabilities Provider_Errors
begin

text \<open>
  Stored catalogs (\<^verbatim>\<open>catalog_store.go\<close> and the evidence types of \<^verbatim>\<open>provider_contracts.go\<close>). The
  interfaces \<^verbatim>\<open>CatalogStore\<close> and \<^verbatim>\<open>ConditionalCatalogStore\<close> are the locales \<open>catalog_store\<close> and
  \<open>conditional_store\<close>; the memory store interprets both. Each operation runs under the store's lock
  and is one step.
\<close>

subsection \<open>Evidence and records\<close>

datatype catalog_status = CatalogNotProbed | CatalogDiscovered | CatalogEmpty | CatalogFailed | OtherCatalogStatus string

record catalog_evidence =
  ce_status :: catalog_status
  ce_models :: "model_info list"
  ce_observed_at :: gtime
  ce_schema :: int

record catalog_key =
  ck_instance :: string
  ck_credential :: string

record catalog_record =
  cr_evidence :: catalog_evidence
  cr_revision :: string

definition zero_evidence :: catalog_evidence where
  "zero_evidence = \<lparr>ce_status = OtherCatalogStatus [], ce_models = [], ce_observed_at = 0, ce_schema = 0\<rparr>"

definition zero_record :: catalog_record where
  "zero_record = \<lparr>cr_evidence = zero_evidence, cr_revision = []\<rparr>"

definition normalize_key :: "catalog_key \<Rightarrow> catalog_key" where
  "normalize_key k = \<lparr>ck_instance = trim_space (ck_instance k), ck_credential = trim_space (ck_credential k)\<rparr>"

lemma normalize_key_idem [simp]: "normalize_key (normalize_key k) = normalize_key k"
  by (simp add: normalize_key_def)

subsection \<open>The memory store\<close>

record memory_store =
  ms_records :: "catalog_key \<rightharpoonup> catalog_record"
  ms_deleted :: "catalog_key \<rightharpoonup> string"
  ms_revision :: u64

definition err_catalog_not_found :: go_err where
  "err_catalog_not_found = Sentinel ''core: catalog not found''"

definition err_catalog_conflict :: go_err where
  "err_catalog_conflict = Sentinel ''core: catalog revision conflict''"

definition new_memory_store :: memory_store where
  "new_memory_store = \<lparr>ms_records = Map.empty, ms_deleted = Map.empty, ms_revision = 0\<rparr>"

definition deleted_revision :: "memory_store \<Rightarrow> catalog_key \<Rightarrow> string" where
  "deleted_revision s k = (case ms_deleted s k of None \<Rightarrow> [] | Some r \<Rightarrow> r)"

definition revision_locked :: "memory_store \<Rightarrow> catalog_key \<Rightarrow> string" where
  "revision_locked s k = (case ms_records s k of Some r \<Rightarrow> cr_revision r | None \<Rightarrow> deleted_revision s k)"

definition next_revision :: "memory_store \<Rightarrow> string \<times> memory_store" where
  "next_revision s = (format_uint (ms_revision s + 1), s\<lparr>ms_revision := ms_revision s + 1\<rparr>)"

definition save_locked :: "catalog_key \<Rightarrow> catalog_evidence \<Rightarrow> memory_store \<Rightarrow> string \<times> memory_store" where
  "save_locked k e s =
     (case next_revision s of
        (revision, s1) \<Rightarrow>
          (revision,
           s1\<lparr>ms_deleted := (ms_deleted s1)(k := None),
              ms_records := (ms_records s1)(k \<mapsto> \<lparr>cr_evidence = e, cr_revision = revision\<rparr>)\<rparr>))"

text \<open>
  The operations; \<open>ctx_err\<close> is the context's error at the call. \<open>Load\<close> returns a record beside the
  not-found error, which carries the revision a deletion left.
\<close>

definition memory_load ::
    "go_err option \<Rightarrow> catalog_key \<Rightarrow> memory_store \<Rightarrow> catalog_record \<times> go_err option" where
  "memory_load ctx_err key s =
     (case ctx_err of
        Some e \<Rightarrow> (zero_record, Some e)
      | None \<Rightarrow>
          (let k = normalize_key key in
           case ms_records s k of
             None \<Rightarrow> (zero_record\<lparr>cr_revision := deleted_revision s k\<rparr>, Some err_catalog_not_found)
           | Some r \<Rightarrow> (r, None)))"

definition memory_save ::
    "go_err option \<Rightarrow> catalog_key \<Rightarrow> catalog_evidence \<Rightarrow> memory_store \<Rightarrow> (go_err + string) \<times> memory_store" where
  "memory_save ctx_err key e s =
     (case ctx_err of
        Some err \<Rightarrow> (Inl err, s)
      | None \<Rightarrow> (case save_locked (normalize_key key) e s of (r, s') \<Rightarrow> (Inr r, s')))"

definition memory_save_if ::
    "go_err option \<Rightarrow> catalog_key \<Rightarrow> catalog_evidence \<Rightarrow> string \<Rightarrow> memory_store \<Rightarrow>
     (go_err + string) \<times> memory_store" where
  "memory_save_if ctx_err key e expected s =
     (case ctx_err of
        Some err \<Rightarrow> (Inl err, s)
      | None \<Rightarrow>
          (let k = normalize_key key in
           if revision_locked s k \<noteq> expected then (Inl err_catalog_conflict, s)
           else case save_locked k e s of (r, s') \<Rightarrow> (Inr r, s')))"

definition memory_delete :: "go_err option \<Rightarrow> catalog_key \<Rightarrow> memory_store \<Rightarrow> go_err option \<times> memory_store" where
  "memory_delete ctx_err key s =
     (case ctx_err of
        Some err \<Rightarrow> (Some err, s)
      | None \<Rightarrow>
          (let k = normalize_key key; s1 = s\<lparr>ms_records := (ms_records s)(k := None)\<rparr> in
           case next_revision s1 of
             (r, s2) \<Rightarrow> (None, s2\<lparr>ms_deleted := (ms_deleted s2)(k \<mapsto> r)\<rparr>)))"

subsection \<open>The interfaces\<close>

text \<open>
  A store a reader sees through \<open>load\<close> (the record of a key) and \<open>rev\<close> (its revision), on states
  that are \<open>ok\<close>. \<open>known\<close> holds every revision a key of the state has or had; a write gives its key
  one that is not among them.
\<close>

locale catalog_store =
  fixes load :: "catalog_key \<Rightarrow> 's \<Rightarrow> catalog_record option"
    and rev :: "catalog_key \<Rightarrow> 's \<Rightarrow> string"
    and save :: "catalog_key \<Rightarrow> catalog_evidence \<Rightarrow> 's \<Rightarrow> string \<times> 's"
    and known :: "'s \<Rightarrow> string set"
    and ok :: "'s \<Rightarrow> bool"
  assumes load_save: "ok s \<Longrightarrow> save k e s = (r, s') \<Longrightarrow>
      load k s' = Some \<lparr>cr_evidence = e, cr_revision = r\<rparr>"
    and load_save_other: "ok s \<Longrightarrow> save k e s = (r, s') \<Longrightarrow> normalize_key k' \<noteq> normalize_key k \<Longrightarrow>
      load k' s' = load k' s \<and> rev k' s' = rev k' s"
    and rev_load: "load k s = Some x \<Longrightarrow> rev k s = cr_revision x"
    and rev_known: "ok s \<Longrightarrow> rev k s \<in> known s"
    and save_fresh: "ok s \<Longrightarrow> save k e s = (r, s') \<Longrightarrow> r \<notin> known s"
    and save_known: "ok s \<Longrightarrow> save k e s = (r, s') \<Longrightarrow> known s \<subseteq> known s'"
begin

lemma rev_save: "ok s \<Longrightarrow> save k e s = (r, s') \<Longrightarrow> rev k s' = r"
  using load_save rev_load by fastforce

lemma save_new_revision: "ok s \<Longrightarrow> save k e s = (r, s') \<Longrightarrow> rev k s' \<noteq> rev k s"
  using rev_save save_fresh rev_known by metis

end

locale conditional_store = catalog_store load rev save known ok
  for load :: "catalog_key \<Rightarrow> 's \<Rightarrow> catalog_record option"
    and rev :: "catalog_key \<Rightarrow> 's \<Rightarrow> string"
    and save :: "catalog_key \<Rightarrow> catalog_evidence \<Rightarrow> 's \<Rightarrow> string \<times> 's"
    and known :: "'s \<Rightarrow> string set"
    and ok :: "'s \<Rightarrow> bool" +
  fixes save_if :: "catalog_key \<Rightarrow> catalog_evidence \<Rightarrow> string \<Rightarrow> 's \<Rightarrow> (go_err + string) \<times> 's"
    and delete :: "catalog_key \<Rightarrow> 's \<Rightarrow> 's"
  assumes save_if_match: "rev k s = x \<Longrightarrow> save k e s = (r, s') \<Longrightarrow> save_if k e x s = (Inr r, s')"
    and save_if_conflict: "rev k s \<noteq> x \<Longrightarrow> save_if k e x s = (Inl err_catalog_conflict, s)"
    and delete_load: "ok s \<Longrightarrow> load k (delete k s) = None"
    and delete_other: "ok s \<Longrightarrow> normalize_key k' \<noteq> normalize_key k \<Longrightarrow>
      load k' (delete k s) = load k' s \<and> rev k' (delete k s) = rev k' s"
    and delete_fresh: "ok s \<Longrightarrow> rev k (delete k s) \<notin> known s"
    and delete_known: "ok s \<Longrightarrow> known s \<subseteq> known (delete k s)"
    and same_key: "normalize_key k = normalize_key k' \<Longrightarrow> load k s = load k' s \<and> rev k s = rev k' s"
begin

text \<open>What any user of the store may do, and the keys it writes.\<close>

inductive store_step :: "catalog_key set \<Rightarrow> 's \<Rightarrow> 's \<Rightarrow> bool" where
  step_save: "ok s \<Longrightarrow> save k e s = (r, s') \<Longrightarrow> store_step {normalize_key k} s s'"
| step_save_if: "ok s \<Longrightarrow> save_if k e x s = (Inr r, s') \<Longrightarrow> store_step {normalize_key k} s s'"
| step_conflict: "ok s \<Longrightarrow> save_if k e x s = (Inl err, s') \<Longrightarrow> store_step {} s s'"
| step_delete: "ok s \<Longrightarrow> store_step {normalize_key k} s (delete k s)"

inductive store_run :: "catalog_key set \<Rightarrow> 's \<Rightarrow> 's \<Rightarrow> bool" where
  run_refl: "store_run {} s s"
| run_step: "store_run K s s' \<Longrightarrow> store_step L s' s'' \<Longrightarrow> ok s' \<Longrightarrow> store_run (K \<union> L) s s''"

lemma save_if_saves:
  "save_if k e x s = (Inr r, s') \<Longrightarrow> rev k s = x \<and> save k e s = (r, s')"
  using save_if_match [of k s x e] save_if_conflict [of k s x e]
  by (cases "rev k s = x"; cases "save k e s") auto

lemma save_if_fails: "save_if k e x s = (Inl err, s') \<Longrightarrow> err = err_catalog_conflict \<and> s' = s \<and> rev k s \<noteq> x"
  using save_if_match [of k s x e] save_if_conflict [of k s x e]
  by (cases "rev k s = x"; cases "save k e s") auto

definition write_effect :: "catalog_key set \<Rightarrow> 's \<Rightarrow> 's \<Rightarrow> bool" where
  "write_effect K s s' \<longleftrightarrow>
     known s \<subseteq> known s' \<and>
     (\<forall>k. if normalize_key k \<in> K then rev k s' \<notin> known s else rev k s' = rev k s \<and> load k s' = load k s)"

lemma write_effect_key:
  assumes "known s \<subseteq> known s'" and "rev k s' \<notin> known s"
    and "\<And>k'. normalize_key k' \<noteq> normalize_key k \<Longrightarrow> load k' s' = load k' s \<and> rev k' s' = rev k' s"
  shows "write_effect {normalize_key k} s s'"
  unfolding write_effect_def
proof (intro conjI allI)
  fix k'
  show "if normalize_key k' \<in> {normalize_key k} then rev k' s' \<notin> known s
      else rev k' s' = rev k' s \<and> load k' s' = load k' s"
    using assms(2,3) same_key [of k' k s'] by auto
qed (rule assms(1))

lemma write_effect_save: "ok s \<Longrightarrow> save k e s = (r, s') \<Longrightarrow> write_effect {normalize_key k} s s'"
  using save_known [of s k e r s'] save_fresh [of s k e r s'] rev_save [of s k e r s']
    load_save_other [of s k e r s']
  by (intro write_effect_key) auto

lemma step_effect: "store_step K s s' \<Longrightarrow> write_effect K s s'"
proof (induction rule: store_step.induct)
  case (step_save s k e r s')
  then show ?case by (rule write_effect_save)
next
  case (step_save_if s k e x r s')
  then show ?case using save_if_saves write_effect_save by blast
next
  case (step_conflict s k e x err s')
  then show ?case using save_if_fails [OF step_conflict(2)] by (auto simp: write_effect_def)
next
  case (step_delete s k)
  then show ?case
    using delete_known delete_fresh delete_other by (intro write_effect_key) auto
qed

lemma run_effect: "store_run K s s' \<Longrightarrow> ok s \<Longrightarrow> write_effect K s s'"
proof (induction rule: store_run.induct)
  case (run_refl s)
  then show ?case by (simp add: write_effect_def)
next
  case (run_step K s s' L s'')
  note e = step_effect [OF run_step(2), unfolded write_effect_def]
    and i = run_step.IH [OF run_step.prems, unfolded write_effect_def]
  have "if normalize_key k \<in> K \<union> L then rev k s'' \<notin> known s else rev k s'' = rev k s \<and> load k s'' = load k s" for k
    using e [THEN conjunct2, THEN spec, of k] i [THEN conjunct2, THEN spec, of k] i [THEN conjunct1]
    by (auto split: if_splits)
  with e i show ?case by (auto simp: write_effect_def)
qed

text \<open>A conditional save that expects what a key's revision was conflicts once the key was written.\<close>

lemma stale_save_conflicts:
  assumes "store_run K s s'" and "ok s" and "normalize_key k \<in> K"
  shows "save_if k e (rev k s) s' = (Inl err_catalog_conflict, s')"
  using run_effect [OF assms(1,2), unfolded write_effect_def, THEN conjunct2, THEN spec, of k] assms(3)
    rev_known [OF assms(2), of k]
  by (intro save_if_conflict) auto

lemma current_save_succeeds:
  assumes "store_run K s s'" and "ok s" and "ok s'" and "normalize_key k \<notin> K"
  shows "\<exists>r s''. save_if k e (rev k s) s' = (Inr r, s'') \<and>
    load k s'' = Some \<lparr>cr_evidence = e, cr_revision = r\<rparr>"
proof -
  obtain r s'' where sv: "save k e s' = (r, s'')" by (cases "save k e s'")
  have "rev k s' = rev k s"
    using run_effect [OF assms(1,2), unfolded write_effect_def] assms(4) by auto
  with sv load_save [OF assms(3) sv] save_if_match [of k s' "rev k s" e] show ?thesis
    by auto
qed

end

subsection \<open>The memory store provides them\<close>

definition mem_load :: "catalog_key \<Rightarrow> memory_store \<Rightarrow> catalog_record option" where
  "mem_load k s = (case memory_load None k s of (r, None) \<Rightarrow> Some r | (_, Some _) \<Rightarrow> None)"

definition mem_rev :: "catalog_key \<Rightarrow> memory_store \<Rightarrow> string" where
  "mem_rev k s = cr_revision (fst (memory_load None k s))"

definition mem_save :: "catalog_key \<Rightarrow> catalog_evidence \<Rightarrow> memory_store \<Rightarrow> string \<times> memory_store" where
  "mem_save k e s = (case memory_save None k e s of (Inr r, s') \<Rightarrow> (r, s') | (Inl _, s') \<Rightarrow> ([], s'))"

definition mem_delete :: "catalog_key \<Rightarrow> memory_store \<Rightarrow> memory_store" where
  "mem_delete k s = snd (memory_delete None k s)"

definition mem_known :: "memory_store \<Rightarrow> string set" where
  "mem_known s = insert [] (format_uint ` {r. r \<le> ms_revision s})"

text \<open>
  States in which the counter can still grow and no key has a revision beyond it. The counter has
  64 bits; after \<^verbatim>\<open>2^64 - 1\<close> writes it would repeat.
\<close>

definition mem_ok :: "memory_store \<Rightarrow> bool" where
  "mem_ok s \<longleftrightarrow>
     ms_revision s \<noteq> - 1 \<and>
     (\<forall>k r. ms_records s k = Some r \<longrightarrow> cr_revision r \<in> mem_known s) \<and>
     (\<forall>k r. ms_deleted s k = Some r \<longrightarrow> r \<in> mem_known s)"

lemma mem_save_eq: "mem_save k e s = save_locked (normalize_key k) e s"
  by (simp add: mem_save_def memory_save_def split: prod.split)

lemma mem_rev_eq: "mem_rev k s = revision_locked s (normalize_key k)"
  by (simp add: mem_rev_def memory_load_def revision_locked_def Let_def zero_record_def split: option.split)

lemma mem_load_eq: "mem_load k s = ms_records s (normalize_key k)"
  by (simp add: mem_load_def memory_load_def Let_def split: option.split)

lemma incr_above: "(r :: u64) \<noteq> - 1 \<Longrightarrow> r < r + 1"
  using unat_incr [of r] by (simp add: word_less_nat_alt)

lemma known_incr:
  "ms_revision s \<noteq> - 1 \<Longrightarrow> format_uint (ms_revision s + 1) \<notin> mem_known s"
  "ms_revision s \<noteq> - 1 \<Longrightarrow> ms_revision s' = ms_revision s + 1 \<Longrightarrow> mem_known s \<subseteq> mem_known s'"
proof -
  assume ne: "ms_revision s \<noteq> - 1"
  note lt = incr_above [OF ne]
  show "format_uint (ms_revision s + 1) \<notin> mem_known s"
    using lt by (auto simp: mem_known_def)
  show "mem_known s \<subseteq> mem_known s'" if "ms_revision s' = ms_revision s + 1"
    using that lt by (auto simp: mem_known_def)
qed

lemma mem_save_state:
  "mem_save k e s = (r, s') \<longleftrightarrow>
     r = format_uint (ms_revision s + 1) \<and>
     s' = \<lparr>ms_records = (ms_records s)(normalize_key k \<mapsto> \<lparr>cr_evidence = e, cr_revision = r\<rparr>),
           ms_deleted = (ms_deleted s)(normalize_key k := None), ms_revision = ms_revision s + 1\<rparr>"
  by (auto simp: mem_save_eq save_locked_def next_revision_def)

lemma mem_delete_state:
  "mem_delete k s =
     \<lparr>ms_records = (ms_records s)(normalize_key k := None),
      ms_deleted = (ms_deleted s)(normalize_key k \<mapsto> format_uint (ms_revision s + 1)),
      ms_revision = ms_revision s + 1\<rparr>"
  by (simp add: mem_delete_def memory_delete_def next_revision_def Let_def)

lemma mem_ok_rev: "mem_ok s \<Longrightarrow> mem_rev k s \<in> mem_known s"
  by (auto simp: mem_ok_def mem_rev_eq revision_locked_def deleted_revision_def mem_known_def split: option.split)

interpretation memory: catalog_store mem_load mem_rev mem_save mem_known mem_ok
proof
  fix s k e r s'
  assume ok: "mem_ok s" and save: "mem_save k e s = (r, s')"
  show "mem_load k s' = Some \<lparr>cr_evidence = e, cr_revision = r\<rparr>"
    using save by (simp add: mem_save_state mem_load_eq)
  show "r \<notin> mem_known s" and "mem_known s \<subseteq> mem_known s'"
    using save ok known_incr [of s] by (auto simp: mem_save_state mem_ok_def)
  fix k' assume "normalize_key k' \<noteq> normalize_key k"
  with save show "mem_load k' s' = mem_load k' s \<and> mem_rev k' s' = mem_rev k' s"
    by (simp add: mem_save_state mem_load_eq mem_rev_eq revision_locked_def deleted_revision_def split: option.split)
next
  fix k s x
  assume "mem_load k s = Some x"
  then show "mem_rev k s = cr_revision x"
    by (simp add: mem_load_eq mem_rev_eq revision_locked_def)
qed (rule mem_ok_rev)

interpretation memory: conditional_store mem_load mem_rev mem_save mem_known mem_ok "memory_save_if None" mem_delete
proof
  fix k e x r and s s' :: memory_store
  show "mem_rev k s = x \<Longrightarrow> mem_save k e s = (r, s') \<Longrightarrow> memory_save_if None k e x s = (Inr r, s')"
    by (simp add: memory_save_if_def mem_rev_eq mem_save_eq Let_def)
  show "mem_rev k s \<noteq> x \<Longrightarrow> memory_save_if None k e x s = (Inl err_catalog_conflict, s)"
    by (simp add: memory_save_if_def mem_rev_eq Let_def)
next
  fix s k
  assume ok: "mem_ok s"
  show "mem_load k (mem_delete k s) = None"
    by (simp add: mem_load_eq mem_delete_state)
  show "mem_rev k (mem_delete k s) \<notin> mem_known s" and "mem_known s \<subseteq> mem_known (mem_delete k s)"
    using ok known_incr [of s]
    by (auto simp: mem_delete_state mem_rev_eq revision_locked_def deleted_revision_def mem_ok_def)
  fix k' assume "normalize_key k' \<noteq> normalize_key k"
  then show "mem_load k' (mem_delete k s) = mem_load k' s \<and> mem_rev k' (mem_delete k s) = mem_rev k' s"
    by (simp add: mem_delete_state mem_load_eq mem_rev_eq revision_locked_def deleted_revision_def split: option.split)
qed (simp add: mem_load_eq mem_rev_eq)

lemma mem_ok_step:
  "mem_ok s \<Longrightarrow> memory.store_step K s s' \<Longrightarrow> ms_revision s' \<noteq> - 1 \<Longrightarrow> mem_ok s'"
proof -
  assume ok: "mem_ok s" and step: "memory.store_step K s s'" and ne: "ms_revision s' \<noteq> - 1"
  have last: "ms_revision s' = r \<Longrightarrow> format_uint r \<in> mem_known s'" for r
    by (simp add: mem_known_def)
  have save: "mem_ok s'" if "mem_save k e s = (r, s')" for k e r
    using that ok ne known_incr(2) [of s s'] last unfolding mem_save_state mem_ok_def
    by (auto split: if_splits)
  from step show ?thesis
  proof cases
    case (step_save k e r)
    then show ?thesis using save by simp
  next
    case (step_save_if k e x r)
    then show ?thesis using save memory.save_if_saves by blast
  next
    case (step_conflict k e x err)
    then show ?thesis using ok memory.save_if_fails by blast
  next
    case (step_delete k)
    then show ?thesis
      using ok ne known_incr(2) [of s s'] last unfolding mem_delete_state mem_ok_def
      by (auto split: if_splits)
  qed
qed

lemma mem_load_Some: "mem_load k s = Some r \<Longrightarrow> memory_load None k s = (r, None)"
  by (auto simp: mem_load_def split: prod.splits option.splits)

lemma mem_load_None:
  "mem_load k s = None \<Longrightarrow> memory_load None k s = (zero_record\<lparr>cr_revision := mem_rev k s\<rparr>, Some err_catalog_not_found)"
  by (auto simp: mem_load_eq mem_rev_eq memory_load_def revision_locked_def Let_def)

text \<open>How a conditional save ends that expects the revision \<open>k\<close> had in \<open>s\<close>.\<close>

definition conditional_outcome ::
    "catalog_key set \<Rightarrow> memory_store \<Rightarrow> memory_store \<Rightarrow> catalog_key \<Rightarrow> catalog_evidence \<Rightarrow>
     (go_err + string) \<times> memory_store \<Rightarrow> bool" where
  "conditional_outcome K s s' k e result \<longleftrightarrow>
     (if normalize_key k \<in> K then result = (Inl err_catalog_conflict, s')
      else \<exists>r s''. result = (Inr r, s'') \<and> r \<noteq> mem_rev k s \<and> mem_load k s'' = Some \<lparr>cr_evidence = e, cr_revision = r\<rparr>)"

lemma conditional_save:
  assumes "memory.store_run K s s'" and "mem_ok s" and "mem_ok s'"
  shows "conditional_outcome K s s' k e (memory_save_if None k e (mem_rev k s) s')"
proof (cases "normalize_key k \<in> K")
  case True
  then show ?thesis
    using memory.stale_save_conflicts [OF assms(1,2)] by (simp add: conditional_outcome_def)
next
  case False
  obtain r s'' where *: "memory_save_if None k e (mem_rev k s) s' = (Inr r, s'')"
    "mem_load k s'' = Some \<lparr>cr_evidence = e, cr_revision = r\<rparr>"
    using memory.current_save_succeeds [OF assms False] by blast
  have "r \<noteq> mem_rev k s"
    using memory.save_if_saves [OF *(1)] memory.save_fresh [OF assms(3)] memory.rev_known [OF assms(3), of k]
    by metis
  with * False show ?thesis
    by (simp add: conditional_outcome_def)
qed

subsection \<open>Properties\<close>

text \<open>
  C29. A conditional save never overwrites what it did not see: if any user of the memory store wrote
  or deleted the key since its revision was read, however many other operations came before or after,
  the save conflicts and changes nothing; if nobody did, it stores the evidence under a new revision.
\<close>
theorem conditional_save_fences:
  assumes "memory.store_run K s s'" and "mem_ok s" and "mem_ok s'"
  shows "if normalize_key k \<in> K
    then memory_save_if None k e (mem_rev k s) s' = (Inl err_catalog_conflict, s')
    else \<exists>r s''. memory_save_if None k e (mem_rev k s) s' = (Inr r, s'') \<and> r \<noteq> mem_rev k s \<and>
      memory_load None k s'' = (\<lparr>cr_evidence = e, cr_revision = r\<rparr>, None)"
  using conditional_save [OF assms, of k e]
  by (auto simp: conditional_outcome_def dest: mem_load_Some split: if_splits)

definition demo_key :: catalog_key where
  "demo_key = \<lparr>ck_instance = ''openai'', ck_credential = ''k1''\<rparr>"

lemma mem_ok_new: "mem_ok new_memory_store"
  by (simp add: mem_ok_def new_memory_store_def)

theorem conditional_save_fences_witness:
  "memory_save_if None demo_key zero_evidence (mem_rev demo_key new_memory_store)
     (mem_delete demo_key new_memory_store) = (Inl err_catalog_conflict, mem_delete demo_key new_memory_store)"
proof -
  have r: "memory.store_run ({} \<union> {normalize_key demo_key}) new_memory_store (mem_delete demo_key new_memory_store)"
    by (rule memory.run_step [OF memory.run_refl memory.step_delete]) (rule mem_ok_new)+
  have "ms_revision (mem_delete demo_key new_memory_store) \<noteq> - 1"
    by (simp add: mem_delete_state new_memory_store_def)
  then have "mem_ok (mem_delete demo_key new_memory_store)"
    using mem_ok_step [OF mem_ok_new memory.step_delete [OF mem_ok_new]] by blast
  from conditional_save_fences [OF r mem_ok_new this, of demo_key zero_evidence] show ?thesis
    by simp
qed

text \<open>
  The memory store is a map of normalized keys: what a save stored is what a load of the same key
  returns, whatever white space surrounds the key's parts, until the key is written again; deleting a
  key leaves nothing but a revision no key ever had; and no operation touches another key.
\<close>
theorem memory_store_map:
  assumes "mem_ok s" and "memory_save None k e s = (res, s')"
  shows "\<exists>r. res = Inr r \<and> memory_load None (normalize_key k) s' = (\<lparr>cr_evidence = e, cr_revision = r\<rparr>, None) \<and>
    memory_load None k s' = (\<lparr>cr_evidence = e, cr_revision = r\<rparr>, None) \<and>
    snd (memory_load None k (mem_delete k s)) = Some err_catalog_not_found \<and>
    mem_rev k (mem_delete k s) \<notin> mem_known s \<and>
    (normalize_key k' \<noteq> normalize_key k \<longrightarrow>
       memory_load None k' s' = memory_load None k' s \<and>
       memory_load None k' (mem_delete k s) = memory_load None k' s)"
proof -
  obtain r where r: "res = Inr r" and save: "mem_save k e s = (r, s')"
    using assms(2) by (auto simp: memory_save_def mem_save_eq split: prod.splits)
  have "mem_rev k (mem_delete k s) \<notin> mem_known s"
    using assms(1) by (rule memory.delete_fresh)
  with r save show ?thesis
    by (auto simp: mem_save_state mem_delete_state memory_load_def deleted_revision_def Let_def
        split: option.splits)
qed

theorem memory_store_map_witness:
  "memory_load None \<lparr>ck_instance = '' openai'', ck_credential = ''k1''\<rparr>
     (snd (memory_save None \<lparr>ck_instance = '' openai'', ck_credential = ''k1''\<rparr> zero_evidence new_memory_store)) =
   (\<lparr>cr_evidence = zero_evidence, cr_revision = ''1''\<rparr>, None)"
proof -
  let ?k = "\<lparr>ck_instance = '' openai'', ck_credential = ''k1''\<rparr>"
  obtain res s' where m: "memory_save None ?k zero_evidence new_memory_store = (res, s')"
    by (cases "memory_save None ?k zero_evidence new_memory_store")
  have "format_uint 1 = ''1''" by code_simp
  with m have "res = Inr ''1''"
    by (auto simp: memory_save_def save_locked_def next_revision_def new_memory_store_def)
  then show ?thesis
    using memory_store_map [OF mem_ok_new m] m by auto
qed

end
