(* ===== verification/Catalog_Service.thy ===== *)
theory Catalog_Service
  imports Catalog_Store
begin

text \<open>
  The catalog service (\<^verbatim>\<open>catalog/*.go\<close>): reads that serve a stored catalog while it is fresh and
  otherwise discover it, and discoveries fenced against invalidations. The world of a service is
  what it keeps per key (\<open>cw_keys\<close>) and everything else (\<open>cw_rest\<close>: the store, the clock, the
  context), on which the store's operations act. A discovery runs without the write lock, so it is a
  function of the whole world: whatever happens to the service meanwhile, other users' operations
  included, is part of its effect. The sections under a lock are single steps; discoveries of one
  key are serialized by its discovery lock.
\<close>

subsection \<open>Services\<close>

record key_state =
  ks_hard :: u64
  ks_soft :: u64

record 'x cworld =
  cw_keys :: "catalog_key \<rightharpoonup> key_state"
  cw_rest :: 'x

record 'x conditional_ops =
  co_save_if :: "catalog_key \<Rightarrow> catalog_evidence \<Rightarrow> string \<Rightarrow> 'x \<Rightarrow> (go_err + string) \<times> 'x"
  co_delete :: "catalog_key \<Rightarrow> 'x \<Rightarrow> go_err option \<times> 'x"

record 'x service =
  sv_load :: "catalog_key \<Rightarrow> 'x \<Rightarrow> (catalog_record \<times> go_err option) \<times> 'x"
  sv_save :: "catalog_key \<Rightarrow> catalog_evidence \<Rightarrow> 'x \<Rightarrow> (go_err + string) \<times> 'x"
  sv_conditional :: "'x conditional_ops option"
  sv_ttl :: duration
  sv_instance_ttl :: "(string \<Rightarrow> duration) option"
  sv_schema :: int
  sv_keep_stale :: bool
  sv_now :: "'x \<Rightarrow> gtime \<times> 'x"

definition default_ttl :: duration where
  "default_ttl = seconds 900"

definition new_service :: "'x service \<Rightarrow> 'x service" where
  "new_service opts = opts\<lparr>sv_ttl := (if sv_ttl opts \<le> 0 then default_ttl else sv_ttl opts)\<rparr>"

record 'x catalog_request =
  qr_key :: catalog_key
  qr_discover :: "'x cworld \<Rightarrow> (go_err + model_info list) \<times> 'x cworld"
  qr_not_before :: gtime
  qr_rebase :: "('x \<Rightarrow> bool \<times> 'x) option"

datatype read_status = StatusSynced | StatusNotSynced | StatusEmpty | StatusError

record diagnostics =
  dg_status :: read_status
  dg_code :: string
  dg_detail :: string
  dg_upstream :: int
  dg_stale :: bool
  dg_from_cache :: bool

record catalog_read =
  rd_record :: catalog_record
  rd_diagnostics :: diagnostics
  rd_err :: "go_err option"

definition err_state_changed :: go_err where
  "err_state_changed = Sentinel ''catalog: the catalog changed during discovery''"

definition instance_ttl :: "'x service \<Rightarrow> string \<Rightarrow> duration" where
  "instance_ttl sv inst =
     (case sv_instance_ttl sv of
        Some f \<Rightarrow> (if 0 < f inst then f inst else sv_ttl sv)
      | None \<Rightarrow> sv_ttl sv)"

definition key_state_of :: "'x cworld \<Rightarrow> catalog_key \<Rightarrow> key_state" where
  "key_state_of w k = (case cw_keys w k of None \<Rightarrow> \<lparr>ks_hard = 0, ks_soft = 0\<rparr> | Some s \<Rightarrow> s)"

definition service_state :: "catalog_key \<Rightarrow> 'x cworld \<Rightarrow> catalog_key \<times> 'x cworld" where
  "service_state key w =
     (let k = normalize_key key in (k, w\<lparr>cw_keys := (cw_keys w)(k \<mapsto> key_state_of w k)\<rparr>))"

subsection \<open>Diagnostics\<close>

definition catalog_error :: "go_err \<Rightarrow> (string \<times> int) option" where
  "catalog_error e = (case e of CatalogErr code _ status _ _ \<Rightarrow> Some (code, status) | _ \<Rightarrow> None)"

definition provider_message :: "go_err \<Rightarrow> string option" where
  "provider_message e = (case e of ProviderErr m _ _ _ \<Rightarrow> Some m | _ \<Rightarrow> None)"

definition failure :: "go_err \<Rightarrow> string \<times> string \<times> int" where
  "failure err =
     (if err_is err err_state_changed
      then (''state_changed'', ''Provider configuration changed during catalog refresh.'', 0)
      else
        (let (code, status) = (case find_first catalog_error (err_chain err) of
               Some (c, st) \<Rightarrow> (c, st)
             | None \<Rightarrow> (''failed'', cl_status (classify_error err)));
             detail = (case find_first provider_message (err_chain err) of
               Some m \<Rightarrow> (if m \<noteq> [] then m else ''Provider catalog failed.'')
             | None \<Rightarrow> ''Provider catalog failed.'')
         in (code, detail, status)))"

definition failed_read :: "go_err \<Rightarrow> catalog_read" where
  "failed_read err =
     (case failure err of
        (code, detail, status) \<Rightarrow>
          \<lparr>rd_record = zero_record,
           rd_diagnostics = \<lparr>dg_status = StatusError, dg_code = code, dg_detail = detail, dg_upstream = status,
                             dg_stale = False, dg_from_cache = False\<rparr>,
           rd_err = Some err\<rparr>)"

subsection \<open>Loading and freshness\<close>

record loaded =
  ld_record :: catalog_record
  ld_found :: bool
  ld_fence :: string
  ld_err :: "go_err option"

definition served :: "'x service \<Rightarrow> catalog_record \<Rightarrow> bool" where
  "served sv r \<longleftrightarrow>
     ce_status (cr_evidence r) \<in> {CatalogDiscovered, CatalogEmpty} \<and> ce_schema (cr_evidence r) = sv_schema sv"

definition service_load :: "'x service \<Rightarrow> catalog_key \<Rightarrow> 'x cworld \<Rightarrow> loaded \<times> 'x cworld" where
  "service_load sv key w =
     (case sv_load sv key (cw_rest w) of
        ((r, err), x) \<Rightarrow>
          ((case err of
              Some e \<Rightarrow>
                (if err_is e err_catalog_not_found
                 then \<lparr>ld_record = zero_record, ld_found = False, ld_fence = cr_revision r, ld_err = None\<rparr>
                 else \<lparr>ld_record = zero_record, ld_found = False, ld_fence = [], ld_err = Some e\<rparr>)
            | None \<Rightarrow>
                (if \<not> served sv r
                 then \<lparr>ld_record = zero_record, ld_found = False, ld_fence = cr_revision r, ld_err = None\<rparr>
                 else \<lparr>ld_record = r, ld_found = True, ld_fence = cr_revision r, ld_err = None\<rparr>)),
           w\<lparr>cw_rest := x\<rparr>))"

definition service_now :: "'x service \<Rightarrow> 'x cworld \<Rightarrow> gtime \<times> 'x cworld" where
  "service_now sv w = (case sv_now sv (cw_rest w) of (t, x) \<Rightarrow> (t, w\<lparr>cw_rest := x\<rparr>))"

definition service_fresh ::
    "'x service \<Rightarrow> catalog_key \<Rightarrow> catalog_record \<Rightarrow> gtime \<Rightarrow> 'x cworld \<Rightarrow> bool \<times> 'x cworld" where
  "service_fresh sv key r not_before w =
     (let observed = ce_observed_at (cr_evidence r) in
      if is_zero_time observed \<or> (\<not> is_zero_time not_before \<and> observed < not_before) then (False, w)
      else (case service_now sv w of
              (now, w') \<Rightarrow> (time_sub now observed < instance_ttl sv (ck_instance key), w')))"

definition service_result ::
    "'x service \<Rightarrow> catalog_key \<Rightarrow> catalog_record \<Rightarrow> bool \<Rightarrow> bool \<Rightarrow> go_err option \<Rightarrow> 'x cworld \<Rightarrow>
     catalog_read \<times> 'x cworld" where
  "service_result sv key r found from_cache err w =
     (let (status, code, detail, upstream) =
            (case err of
               Some e \<Rightarrow> (StatusError, failure e)
             | None \<Rightarrow>
                 (if \<not> found then StatusNotSynced
                  else if ce_models (cr_evidence r) = [] then StatusEmpty else StatusSynced, [], [], 0));
          observed = ce_observed_at (cr_evidence r);
          (stale, w') =
            (if found \<and> \<not> is_zero_time observed
             then (case service_now sv w of
                     (now, w') \<Rightarrow> (instance_ttl sv (ck_instance key) \<le> time_sub now observed, w'))
             else (False, w))
      in (\<lparr>rd_record = r,
           rd_diagnostics = \<lparr>dg_status = status, dg_code = code, dg_detail = detail, dg_upstream = upstream,
                             dg_stale = stale, dg_from_cache = from_cache\<rparr>,
           rd_err = err\<rparr>, w'))"

subsection \<open>Invalidating, discovering and saving\<close>

datatype invalidation = Hard | Soft

definition bump_generation :: "invalidation \<Rightarrow> key_state \<Rightarrow> key_state" where
  "bump_generation mode s =
     (case mode of
        Soft \<Rightarrow> s\<lparr>ks_soft := ks_soft s + 1\<rparr>
      | Hard \<Rightarrow> s\<lparr>ks_hard := ks_hard s + 1\<rparr>)"

definition invalidate ::
    "'x service \<Rightarrow> catalog_key \<Rightarrow> invalidation \<Rightarrow> 'x cworld \<Rightarrow> go_err option \<times> 'x cworld" where
  "invalidate sv key0 mode w0 =
     (case service_state key0 w0 of
        (key, w) \<Rightarrow>
          (let w1 = w\<lparr>cw_keys := (cw_keys w)(key \<mapsto> bump_generation mode (key_state_of w key))\<rparr> in
           case sv_conditional sv of
             Some co \<Rightarrow> (case co_delete co key (cw_rest w1) of (err, x) \<Rightarrow> (err, w1\<lparr>cw_rest := x\<rparr>))
           | None \<Rightarrow>
               (case sv_save sv key
                  (zero_evidence\<lparr>ce_status := CatalogNotProbed, ce_schema := sv_schema sv\<rparr>) (cw_rest w1) of
                  (res, x) \<Rightarrow> ((case res of Inl e \<Rightarrow> Some e | Inr _ \<Rightarrow> None), w1\<lparr>cw_rest := x\<rparr>))))"

text \<open>\<^verbatim>\<open>save\<close>: the fence, the write, and what is returned when another write won.\<close>

definition service_write ::
    "'x service \<Rightarrow> catalog_key \<Rightarrow> catalog_evidence \<Rightarrow> string \<Rightarrow> 'x cworld \<Rightarrow> (go_err + string) \<times> 'x cworld" where
  "service_write sv key e fence w =
     (case (case sv_conditional sv of
              Some co \<Rightarrow> co_save_if co key e fence (cw_rest w)
            | None \<Rightarrow> sv_save sv key e (cw_rest w)) of
        (res, x) \<Rightarrow> (res, w\<lparr>cw_rest := x\<rparr>))"

definition service_save ::
    "'x service \<Rightarrow> 'x catalog_request \<Rightarrow> key_state \<Rightarrow> string \<Rightarrow> catalog_evidence \<Rightarrow> 'x cworld \<Rightarrow>
     (go_err + catalog_record) \<times> 'x cworld" where
  "service_save sv rq started fence e w =
     (let state = key_state_of w (qr_key rq);
          soft = (ks_soft state \<noteq> ks_soft started) in
      case (if ks_hard state = ks_hard started then (Some soft, w)
            else if ks_hard state = ks_hard started + 1
            then (case qr_rebase rq of
                    None \<Rightarrow> (None, w)
                  | Some f \<Rightarrow>
                      (case f (cw_rest w) of
                         (yes, x) \<Rightarrow> (if yes then Some True else None, w\<lparr>cw_rest := x\<rparr>)))
            else (None, w)) of
        (None, w1) \<Rightarrow> (Inl err_state_changed, w1)
      | (Some latest, w1) \<Rightarrow>
          (case (if latest then (case service_load sv (qr_key rq) w1 of
                                   (ld, w2) \<Rightarrow> (case ld_err ld of
                                                  Some err \<Rightarrow> (Inl err, w2)
                                                | None \<Rightarrow> (Inr (ld_fence ld), w2)))
                 else (Inr fence, w1)) of
             (Inl err, w2) \<Rightarrow> (Inl err, w2)
           | (Inr fence', w2) \<Rightarrow>
               (case service_write sv (qr_key rq) e fence' w2 of
                  (Inl err, w3) \<Rightarrow>
                    (if err_is err err_catalog_conflict
                     then (case service_load sv (qr_key rq) w3 of
                             (ld, w4) \<Rightarrow>
                               (case ld_err ld of
                                  Some err' \<Rightarrow> (Inl err', w4)
                                | None \<Rightarrow>
                                    (if \<not> ld_found ld then (Inl err_state_changed, w4)
                                     else (Inr (ld_record ld), w4))))
                     else (Inl err, w3))
                | (Inr revision, w3) \<Rightarrow> (Inr \<lparr>cr_evidence = e, cr_revision = revision\<rparr>, w3))))"

definition service_refresh ::
    "'x service \<Rightarrow> 'x catalog_request \<Rightarrow> string \<Rightarrow> 'x cworld \<Rightarrow> (go_err + catalog_record) \<times> 'x cworld" where
  "service_refresh sv rq fence w =
     (let started = key_state_of w (qr_key rq) in
      case qr_discover rq w of
        (Inl err, w1) \<Rightarrow> (Inl err, w1)
      | (Inr models, w1) \<Rightarrow>
          (let status = (if models = [] then CatalogEmpty else CatalogDiscovered) in
           case service_now sv w1 of
             (now, w2) \<Rightarrow>
               service_save sv rq started fence
                 \<lparr>ce_status = status, ce_models = models, ce_observed_at = now, ce_schema = sv_schema sv\<rparr> w2))"

definition refresh :: "'x service \<Rightarrow> 'x catalog_request \<Rightarrow> 'x cworld \<Rightarrow> (go_err + catalog_record) \<times> 'x cworld" where
  "refresh sv rq0 w0 =
     (case service_state (qr_key rq0) w0 of
        (key, w) \<Rightarrow>
          (case service_load sv key w of
             (ld, w1) \<Rightarrow>
               (case ld_err ld of
                  Some err \<Rightarrow> (Inl err, w1)
                | None \<Rightarrow> service_refresh sv (rq0\<lparr>qr_key := key\<rparr>) (ld_fence ld) w1)))"

subsection \<open>Reading\<close>

definition read :: "'x service \<Rightarrow> 'x catalog_request \<Rightarrow> 'x cworld \<Rightarrow> catalog_read \<times> 'x cworld" where
  "read sv rq0 w0 =
     (case service_state (qr_key rq0) w0 of
        (key, w) \<Rightarrow>
          (case service_load sv key w of
             (ld, w1) \<Rightarrow>
               (case ld_err ld of
                  Some err \<Rightarrow> service_result sv key zero_record False False (Some err) w1
                | None \<Rightarrow>
                    (case (if ld_found ld then service_fresh sv key (ld_record ld) (qr_not_before rq0) w1
                           else (False, w1)) of
                       (True, w2) \<Rightarrow> service_result sv key (ld_record ld) True True None w2
                     | (False, w2) \<Rightarrow>
                         (case service_refresh sv (rq0\<lparr>qr_key := key\<rparr>) (ld_fence ld) w2 of
                            (res, w3) \<Rightarrow>
                              (case service_load sv key w3 of
                                 (cur, w4) \<Rightarrow>
                                   (case (ld_err cur, res) of
                                      (Some err, _) \<Rightarrow> service_result sv key zero_record False False (Some err) w4
                                    | (None, Inl err) \<Rightarrow>
                                        (if ld_found cur \<and> sv_keep_stale sv
                                         then service_result sv key (ld_record cur) True True (Some err) w4
                                         else service_result sv key zero_record False False (Some err) w4)
                                    | (None, Inr _) \<Rightarrow>
                                        (if \<not> ld_found cur
                                         then service_result sv key zero_record False False (Some err_state_changed) w4
                                         else service_result sv key (ld_record cur) True False None w4))))))))"

definition cached :: "'x service \<Rightarrow> catalog_key \<Rightarrow> 'x cworld \<Rightarrow> catalog_read \<times> 'x cworld" where
  "cached sv key0 w0 =
     (case service_state key0 w0 of
        (key, w) \<Rightarrow>
          (case service_load sv key w of
             (ld, w1) \<Rightarrow>
               service_result sv key (if ld_found ld then ld_record ld else zero_record) (ld_found ld) True
                 (ld_err ld) w1))"

definition find_row :: "catalog_record \<Rightarrow> string \<Rightarrow> model_info option" where
  "find_row r model = find (\<lambda>row. mi_id row = model) (ce_models (cr_evidence r))"

definition lookup_row ::
    "'x service \<Rightarrow> 'x catalog_request \<Rightarrow> string \<Rightarrow> 'x cworld \<Rightarrow> (model_info option \<times> go_err option) \<times> 'x cworld" where
  "lookup_row sv rq model w =
     (case read sv rq w of (rd, w') \<Rightarrow> ((find_row (rd_record rd) model, rd_err rd), w'))"

definition cached_lookup ::
    "'x service \<Rightarrow> catalog_key \<Rightarrow> string \<Rightarrow> 'x cworld \<Rightarrow> model_info option \<times> 'x cworld" where
  "cached_lookup sv key model w =
     (case cached sv key w of (rd, w') \<Rightarrow> (find_row (rd_record rd) model, w'))"

subsection \<open>What loading finds\<close>

lemma service_load_keys [simp]: "cw_keys (snd (service_load sv key w)) = cw_keys w"
  by (simp add: service_load_def split: prod.split)

lemma service_load_found:
  "service_load sv key w = (ld, w') \<Longrightarrow>
     (ld_found ld \<longrightarrow> served sv (ld_record ld) \<and> ld_err ld = None) \<and>
     (\<not> ld_found ld \<longrightarrow> ld_record ld = zero_record)"
  by (auto simp: service_load_def split: prod.splits option.splits if_splits)

lemma service_result_read:
  "service_result sv key r found fc err w = (rd, w') \<Longrightarrow>
     rd_record rd = r \<and> rd_err rd = err \<and> dg_from_cache (rd_diagnostics rd) = fc \<and>
     (dg_status (rd_diagnostics rd) = StatusError \<longleftrightarrow> err \<noteq> None) \<and>
     (err = None \<longrightarrow> (dg_status (rd_diagnostics rd) = StatusNotSynced \<longleftrightarrow> \<not> found)) \<and>
     (dg_stale (rd_diagnostics rd) \<longrightarrow> found)"
  by (auto simp: service_result_def Let_def split: option.splits prod.splits if_splits)

text \<open>The shape of every read: nothing and an error, or a record the service serves.\<close>

definition read_ok :: "'x service \<Rightarrow> catalog_read \<Rightarrow> bool" where
  "read_ok sv rd \<longleftrightarrow>
     (dg_status (rd_diagnostics rd) = StatusError \<longleftrightarrow> rd_err rd \<noteq> None) \<and>
     (rd_record rd = zero_record \<and> \<not> dg_stale (rd_diagnostics rd) \<and>
        (rd_err rd = None \<longrightarrow> dg_status (rd_diagnostics rd) = StatusNotSynced) \<or>
      served sv (rd_record rd) \<and> dg_status (rd_diagnostics rd) \<noteq> StatusNotSynced \<and>
        (rd_err rd \<noteq> None \<longrightarrow> sv_keep_stale sv \<and> dg_from_cache (rd_diagnostics rd)))"

lemma read_ok_error:
  "service_result sv key zero_record False fc (Some e) w = (rd, w') \<Longrightarrow> read_ok sv rd"
  using service_result_read [of sv key zero_record False fc "Some e" w rd w'] by (auto simp: read_ok_def)

lemma read_ok_none:
  "service_result sv key zero_record False fc None w = (rd, w') \<Longrightarrow> read_ok sv rd"
  using service_result_read [of sv key zero_record False fc None w rd w'] by (auto simp: read_ok_def)

lemma read_ok_served:
  "service_result sv key r True fc None w = (rd, w') \<Longrightarrow> served sv r \<Longrightarrow> read_ok sv rd"
  using service_result_read [of sv key r True fc None w rd w'] by (auto simp: read_ok_def)

lemma read_ok_stale:
  "service_result sv key r True True (Some e) w = (rd, w') \<Longrightarrow> served sv r \<Longrightarrow> sv_keep_stale sv \<Longrightarrow> read_ok sv rd"
  using service_result_read [of sv key r True True "Some e" w rd w'] by (auto simp: read_ok_def)

lemma read_ok_read: "read sv rq w = (rd, w') \<Longrightarrow> read_ok sv rd"
  unfolding read_def
  by (auto split: prod.splits option.splits sum.splits bool.splits if_splits
      dest!: service_load_found intro: read_ok_error read_ok_served read_ok_stale)

lemma read_ok_cached: "cached sv key w = (rd, w') \<Longrightarrow> read_ok sv rd"
  unfolding cached_def
  by (auto split: prod.splits if_splits dest!: service_load_found
      intro: read_ok_error read_ok_none read_ok_served)
    (metis not_Some_eq read_ok_error read_ok_none)

subsection \<open>Fencing\<close>

lemma service_save_fenced:
  assumes "ks_hard (key_state_of w (qr_key rq)) \<noteq> ks_hard started"
    and "qr_rebase rq = None \<or> ks_hard (key_state_of w (qr_key rq)) \<noteq> ks_hard started + 1"
  shows "service_save sv rq started fence e w = (Inl err_state_changed, w)"
  using assms by (auto simp: service_save_def Let_def)

lemma service_save_current:
  assumes "key_state_of w (qr_key rq) = started"
  shows "service_save sv rq started fence e w =
    (case service_write sv (qr_key rq) e fence w of
       (Inl err, w3) \<Rightarrow>
         (if err_is err err_catalog_conflict
          then (case service_load sv (qr_key rq) w3 of
                  (ld, w4) \<Rightarrow>
                    (case ld_err ld of
                       Some err' \<Rightarrow> (Inl err', w4)
                     | None \<Rightarrow> (if \<not> ld_found ld then (Inl err_state_changed, w4) else (Inr (ld_record ld), w4))))
          else (Inl err, w3))
     | (Inr revision, w3) \<Rightarrow> (Inr \<lparr>cr_evidence = e, cr_revision = revision\<rparr>, w3))"
  using assms by (simp add: service_save_def Let_def)

lemma service_now_keys [simp]: "key_state_of (snd (service_now sv w)) k = key_state_of w k"
  by (simp add: service_now_def key_state_of_def split: prod.split)

lemma invalidate_generation:
  "invalidate sv key mode w = (err, w') \<Longrightarrow>
     key_state_of w' k =
       (if k = normalize_key key then bump_generation mode (key_state_of w k) else key_state_of w k)"
  by (auto simp: invalidate_def service_state_def key_state_of_def Let_def split: option.splits prod.splits)

fun invalidate_all :: "'x service \<Rightarrow> (catalog_key \<times> invalidation) list \<Rightarrow> 'x cworld \<Rightarrow> 'x cworld" where
  "invalidate_all sv [] w = w"
| "invalidate_all sv ((key, mode) # rest) w = invalidate_all sv rest (snd (invalidate sv key mode w))"

definition hard_count :: "catalog_key \<Rightarrow> (catalog_key \<times> invalidation) list \<Rightarrow> nat" where
  "hard_count k ops = length (filter (\<lambda>(key, mode). normalize_key key = k \<and> mode = Hard) ops)"

lemma invalidate_all_hard:
  "ks_hard (key_state_of (invalidate_all sv ops w) k) = ks_hard (key_state_of w k) + of_nat (hard_count k ops)"
proof (induction ops arbitrary: w)
  case Nil
  then show ?case by (simp add: hard_count_def)
next
  case (Cons op ops)
  obtain key mode where op: "op = (key, mode)" by (cases op)
  obtain err w' where i: "invalidate sv key mode w = (err, w')" by (cases "invalidate sv key mode w")
  have "ks_hard (key_state_of w' k) =
      ks_hard (key_state_of w k) + (if normalize_key key = k \<and> mode = Hard then 1 else 0)"
    using invalidate_generation [OF i, of k] by (auto simp: bump_generation_def split: invalidation.splits)
  with op i Cons.IH [of w'] show ?case by (auto simp: hard_count_def)
qed

lemma of_nat_small_nonzero: "0 < n \<Longrightarrow> n < 2 ^ 64 \<Longrightarrow> (of_nat n :: u64) \<noteq> 0"
  by (simp add: word_of_nat_eq_0_iff)
    (metis dvd_imp_le leD)

subsection \<open>A service over the memory store\<close>

text \<open>The rest of the world is the store and what shows the context's error and the time.\<close>

definition memory_service ::
    "('y \<Rightarrow> go_err option) \<Rightarrow> ('y \<Rightarrow> gtime) \<Rightarrow> duration \<Rightarrow> int \<Rightarrow> bool \<Rightarrow> (memory_store \<times> 'y) service" where
  "memory_service ctx clk ttl schema keep_stale =
     new_service
       \<lparr>sv_load = (\<lambda>k (s, y). (memory_load (ctx y) k s, (s, y))),
        sv_save = (\<lambda>k e (s, y). case memory_save (ctx y) k e s of (r, s') \<Rightarrow> (r, (s', y))),
        sv_conditional = Some
          \<lparr>co_save_if = (\<lambda>k e x (s, y). case memory_save_if (ctx y) k e x s of (r, s') \<Rightarrow> (r, (s', y))),
           co_delete = (\<lambda>k (s, y). case memory_delete (ctx y) k s of (r, s') \<Rightarrow> (r, (s', y)))\<rparr>,
        sv_ttl = ttl, sv_instance_ttl = None, sv_schema = schema, sv_keep_stale = keep_stale,
        sv_now = (\<lambda>(s, y). (clk y, (s, y)))\<rparr>"

lemma memory_service_sel:
  "sv_load (memory_service ctx clk ttl schema ks) k (s, y) = (memory_load (ctx y) k s, (s, y))"
  "sv_conditional (memory_service ctx clk ttl schema ks) = Some
     \<lparr>co_save_if = (\<lambda>k e x (s, y). case memory_save_if (ctx y) k e x s of (r, s') \<Rightarrow> (r, (s', y))),
      co_delete = (\<lambda>k (s, y). case memory_delete (ctx y) k s of (r, s') \<Rightarrow> (r, (s', y)))\<rparr>"
  "sv_schema (memory_service ctx clk ttl schema ks) = schema"
  "sv_now (memory_service ctx clk ttl schema ks) (s, y) = (clk y, (s, y))"
  by (simp_all add: memory_service_def new_service_def)

lemma memory_service_load:
  assumes "cw_rest w = (s, y)" and "ctx y = None"
  shows "service_load (memory_service ctx clk ttl schema ks) k w =
    ((case mem_load k s of
        Some r \<Rightarrow>
          (if served (memory_service ctx clk ttl schema ks) r
           then \<lparr>ld_record = r, ld_found = True, ld_fence = cr_revision r, ld_err = None\<rparr>
           else \<lparr>ld_record = zero_record, ld_found = False, ld_fence = cr_revision r, ld_err = None\<rparr>)
      | None \<Rightarrow> \<lparr>ld_record = zero_record, ld_found = False, ld_fence = mem_rev k s, ld_err = None\<rparr>), w)"
  using assms
  by (auto simp: service_load_def memory_service_sel mem_load_Some mem_load_None err_is_leaf
      err_catalog_not_found_def split: option.splits)

lemma memory_service_fence:
  assumes "cw_rest w = (s, y)" and "ctx y = None"
  shows "ld_fence (fst (service_load (memory_service ctx clk ttl schema ks) k w)) = mem_rev k s"
  using memory_service_load [of w s y ctx clk ttl schema ks k, OF assms] memory.rev_load [of k s]
  by (auto split: option.splits)

lemma instance_ttl_memory [simp]:
  "0 < ttl \<Longrightarrow> instance_ttl (memory_service ctx clk ttl schema ks) i = ttl"
  by (simp add: instance_ttl_def memory_service_def new_service_def)

subsection \<open>Properties\<close>

text \<open>
  C40. A read never serves a foreign or failed catalog: what \<open>read\<close> and \<open>cached\<close> return is either no
  record at all or one that a discovery stored under the service's own schema version; the status is an
  error exactly when there is an error; and a record beside an error is only ever the stored one, served
  because the service keeps stale catalogs.
\<close>
theorem reads_serve_discoveries:
  "read_ok sv (fst (read sv rq w)) \<and> read_ok sv (fst (cached sv key w))"
  by (metis read_ok_read read_ok_cached prod.collapse)


definition demo_service :: "(memory_store \<times> unit) service" where
  "demo_service = memory_service (\<lambda>_. None) (\<lambda>_. 50) 100 1 False"

definition demo_world :: "(memory_store \<times> unit) cworld" where
  "demo_world = \<lparr>cw_keys = Map.empty, cw_rest = (new_memory_store, ())\<rparr>"

definition demo_request :: "((memory_store \<times> unit) cworld \<Rightarrow> (memory_store \<times> unit) cworld) \<Rightarrow> (memory_store \<times> unit) catalog_request" where
  "demo_request f =
     \<lparr>qr_key = demo_key, qr_discover = (\<lambda>w. (Inr [empty_model_info], f w)), qr_not_before = 0, qr_rebase = None\<rparr>"

lemma demo_key_normal [simp]: "normalize_key demo_key = demo_key"
  by code_simp

lemma demo_world_ok: "mem_ok (fst (cw_rest demo_world))" "cw_rest demo_world = (new_memory_store, ())"
  by (simp_all add: demo_world_def mem_ok_new)




text \<open>
  A fresh catalog is served without a discovery: when the store holds a discovered catalog of the
  service's schema, observed after any bound the request sets and younger than the time to live, a read
  returns exactly that record as cached and not stale, whatever the upstream would answer, and leaves
  the store as it is.
\<close>
theorem fresh_catalog_is_served:
  assumes "cw_rest w = (s, y)" and "ctx y = None" and "mem_load (qr_key rq) s = Some r"
    and "served (memory_service ctx clk ttl schema ks) r" and "0 < ttl"
    and "ce_observed_at (cr_evidence r) \<noteq> 0" and "qr_not_before rq = 0 \<or> qr_not_before rq \<le> ce_observed_at (cr_evidence r)"
    and "time_sub (clk y) (ce_observed_at (cr_evidence r)) < ttl"
  shows "case read (memory_service ctx clk ttl schema ks) rq w of (rd, w') \<Rightarrow>
    rd_record rd = r \<and> rd_err rd = None \<and> dg_from_cache (rd_diagnostics rd) \<and>
    \<not> dg_stale (rd_diagnostics rd) \<and> cw_rest w' = (s, y)"
proof -
  let ?sv = "memory_service ctx clk ttl schema ks" and ?k = "normalize_key (qr_key rq)"
  let ?w = "w\<lparr>cw_keys := (cw_keys w)(?k \<mapsto> key_state_of w ?k)\<rparr>"
  have rest: "cw_rest ?w = (s, y)" using assms(1) by simp
  have now: "service_now ?sv ?w = (clk y, ?w)"
    using rest by (simp add: service_now_def memory_service_sel)
  have load: "service_load ?sv ?k ?w = (\<lparr>ld_record = r, ld_found = True, ld_fence = cr_revision r, ld_err = None\<rparr>, ?w)"
    using memory_service_load [of ?w s y ctx clk ttl schema ks ?k, OF rest assms(2)] assms(3,4)
    by (simp add: mem_load_eq)
  have fresh: "service_fresh ?sv ?k r (qr_not_before rq) ?w = (True, ?w)"
    using assms(5-8) now by (auto simp: service_fresh_def is_zero_time_def Let_def)
  show ?thesis
    using assms(5,6,8) rest now
    by (simp add: read_def service_state_def load fresh service_result_def is_zero_time_def Let_def)
qed

definition demo_record :: catalog_record where
  "demo_record =
     \<lparr>cr_evidence = \<lparr>ce_status = CatalogDiscovered, ce_models = [empty_model_info], ce_observed_at = 10, ce_schema = 1\<rparr>,
      cr_revision = ''1''\<rparr>"

theorem fresh_catalog_is_served_witness:
  "rd_record (fst (read demo_service (demo_request id)
     (demo_world\<lparr>cw_rest := (snd (mem_save demo_key (cr_evidence demo_record) new_memory_store), ())\<rparr>))) = demo_record"
proof -
  have f: "format_uint 1 = ''1''" by code_simp
  have s: "mem_load demo_key (snd (mem_save demo_key (cr_evidence demo_record) new_memory_store)) = Some demo_record"
    using f by (simp add: mem_load_eq mem_save_eq save_locked_def next_revision_def new_memory_store_def demo_record_def)
  have "case read (memory_service (\<lambda>_. None) (\<lambda>_. 50) 100 1 False) (demo_request id)
      (demo_world\<lparr>cw_rest := (snd (mem_save demo_key (cr_evidence demo_record) new_memory_store), ())\<rparr>) of (rd, w') \<Rightarrow>
      rd_record rd = demo_record \<and> rd_err rd = None \<and> dg_from_cache (rd_diagnostics rd) \<and>
      \<not> dg_stale (rd_diagnostics rd) \<and> cw_rest w' = (snd (mem_save demo_key (cr_evidence demo_record) new_memory_store), ())"
    by (rule fresh_catalog_is_served)
      (use s in \<open>simp_all add: demo_request_def served_def memory_service_sel demo_record_def time_sub_def
        min_int64_def max_int64_def\<close>)
  then show ?thesis by (auto simp: demo_service_def)
qed

text \<open>
  An invalidated catalog is gone at once: after an invalidation in either mode, with a live
  context, a cached read of the key finds nothing and reports it as not synced, and the store holds
  no record of it.
\<close>
theorem invalidated_catalog_is_gone:
  assumes "cw_rest w = (s, y)" and "ctx y = None"
    and "invalidate (memory_service ctx clk ttl schema ks) key mode w = (err, w')"
  shows "err = None \<and> mem_load key (fst (cw_rest w')) = None \<and>
    (case cached (memory_service ctx clk ttl schema ks) key w' of (rd, w'') \<Rightarrow>
      rd_record rd = zero_record \<and> rd_err rd = None \<and> dg_status (rd_diagnostics rd) = StatusNotSynced)"
proof -
  let ?sv = "memory_service ctx clk ttl schema ks" and ?k = "normalize_key key"
  have w': "err = None" "cw_rest w' = (mem_delete ?k s, y)"
    using assms by (auto simp: invalidate_def service_state_def memory_service_sel mem_delete_def
        memory_delete_def Let_def split: prod.splits)
  have gone: "mem_load ?k (mem_delete ?k s) = None" "mem_load key (mem_delete ?k s) = None"
    by (simp_all add: mem_load_eq mem_delete_state)
  let ?w = "w'\<lparr>cw_keys := (cw_keys w')(?k \<mapsto> key_state_of w' ?k)\<rparr>"
  have "service_load ?sv ?k ?w =
      (\<lparr>ld_record = zero_record, ld_found = False, ld_fence = mem_rev ?k (mem_delete ?k s), ld_err = None\<rparr>, ?w)"
    using memory_service_load [of ?w "mem_delete ?k s" y ctx clk ttl schema ks ?k] w' assms(2) gone by simp
  then show ?thesis
    using w' gone by (simp add: cached_def service_state_def service_result_def Let_def)
qed

theorem invalidated_catalog_is_gone_witness:
  "mem_load demo_key (fst (cw_rest (snd (invalidate demo_service demo_key Soft demo_world)))) = None"
  using invalidated_catalog_is_gone [of demo_world new_memory_store "()" "\<lambda>_. None" "\<lambda>_. 50" 100 1 False demo_key Soft
      "fst (invalidate demo_service demo_key Soft demo_world)" "snd (invalidate demo_service demo_key Soft demo_world)"]
  by (simp add: demo_world_ok demo_service_def)

end
