(* ===== verification/Flow_Store.thy ===== *)
theory Flow_Store
  imports Credentials
begin

text \<open>
  OAuth flows (\<^verbatim>\<open>oauthflow/flow.go\<close>) and the memory store of flows (\<^verbatim>\<open>oauthflow/memory.go\<close>). The
  Go map of flows is an association list, because the store iterates over it; its order decides
  nothing. The hash of OAuth states is a parameter (SHA-256 in the code). An operation runs under
  the store's lock, so it is one step; every reading of the clock is an argument of its own.
\<close>

subsection \<open>Flows\<close>

datatype flow_method = MethodBrowser | MethodDevice | MethodManual | OtherMethod string

datatype flow_outcome = OutcomeComplete | OutcomeFailed | OutcomeExpired | OtherOutcome string

abbreviation no_outcome :: flow_outcome where
  "no_outcome \<equiv> OtherOutcome []"

record progress =
  pg_interval :: duration
  pg_next_poll :: gtime
  pg_outcome :: flow_outcome
  pg_credential_key :: string

record secrets =
  sc_verifier :: string
  sc_state :: string
  sc_device_code :: string
  sc_redirect_uri :: string
  sc_driver_data :: string_map
  sc_params :: string_map

record flow =
  fl_id :: string
  fl_caller :: caller
  fl_instance :: string
  fl_method :: flow_method
  fl_created_at :: gtime
  fl_expires_at :: gtime
  fl_revision :: string
  fl_consumed_at :: gtime
  fl_authorization_url :: string
  fl_user_code :: string
  fl_verification_uri :: string
  fl_verification_uri_complete :: string
  fl_progress :: progress
  fl_secrets :: secrets

definition no_secrets :: secrets where
  "no_secrets =
     \<lparr>sc_verifier = [], sc_state = [], sc_device_code = [], sc_redirect_uri = [],
      sc_driver_data = [], sc_params = []\<rparr>"

definition no_progress :: progress where
  "no_progress =
     \<lparr>pg_interval = 0, pg_next_poll = 0, pg_outcome = no_outcome, pg_credential_key = []\<rparr>"

definition flow_consumed :: "flow \<Rightarrow> bool" where
  "flow_consumed f \<longleftrightarrow> \<not> is_zero_time (fl_consumed_at f)"

definition flow_expired :: "flow \<Rightarrow> gtime \<Rightarrow> bool" where
  "flow_expired f now \<longleftrightarrow> \<not> now < fl_expires_at f"

definition err_flow_not_found :: go_err where
  "err_flow_not_found = Sentinel ''oauthflow: flow not found''"

definition err_flow_expired :: go_err where
  "err_flow_expired = Sentinel ''oauthflow: flow expired''"

definition err_flow_exists :: go_err where
  "err_flow_exists = Sentinel ''oauthflow: flow id already exists''"

definition err_flow_conflict :: go_err where
  "err_flow_conflict = Sentinel ''oauthflow: flow changed concurrently''"

text \<open>The errors \<^verbatim>\<open>Caller.Validate\<close> makes, whose texts name the kind.\<close>

definition caller_err :: "caller_error \<Rightarrow> go_err" where
  "caller_err e =
     (case e of
        CallerNoID _ \<Rightarrow> Sentinel ''caller has no id''
      | CallerUnknownKind _ \<Rightarrow> Sentinel ''caller has unknown kind'')"

subsection \<open>The memory store\<close>

record flow_config =
  fc_max_flows :: int
  fc_retention :: duration
  fc_hash :: "string \<Rightarrow> string"

record flow_entry =
  en_flow :: flow
  en_sequence :: u64
  en_state_key :: string
  en_indexed :: bool

record flow_store =
  fs_flows :: "(string \<times> flow_entry) list"
  fs_states :: "string \<rightharpoonup> string"
  fs_revision :: u64
  fs_sequence :: u64

definition default_expired_retention :: duration where
  "default_expired_retention = seconds 900"

definition new_flow_config :: "(string \<Rightarrow> string) \<Rightarrow> int \<Rightarrow> duration \<Rightarrow> flow_config" where
  "new_flow_config hash cap retention =
     \<lparr>fc_max_flows = cap,
      fc_retention = (if retention \<le> 0 then default_expired_retention else retention),
      fc_hash = hash\<rparr>"

definition new_flow_store :: flow_store where
  "new_flow_store = \<lparr>fs_flows = [], fs_states = Map.empty, fs_revision = 0, fs_sequence = 0\<rparr>"

text \<open>
  The store holds pointers to its entries: \<open>put_entry\<close> stores what an entry has become. A deleted
  entry is no longer reachable, so its cleared index flag is dropped with it.
\<close>

definition put_entry :: "flow_entry \<Rightarrow> flow_store \<Rightarrow> flow_store" where
  "put_entry e s = s\<lparr>fs_flows := AList.update (fl_id (en_flow e)) e (fs_flows s)\<rparr>"

definition unindex_locked :: "flow_entry \<Rightarrow> flow_store \<Rightarrow> flow_entry \<times> flow_store" where
  "unindex_locked e s =
     (if en_indexed e
      then (e\<lparr>en_indexed := False\<rparr>, s\<lparr>fs_states := (fs_states s)(en_state_key e := None)\<rparr>)
      else (e, s))"

definition delete_locked :: "flow_entry \<Rightarrow> flow_store \<Rightarrow> flow_store" where
  "delete_locked e s =
     snd (unindex_locked e (s\<lparr>fs_flows := AList.delete (fl_id (en_flow e)) (fs_flows s)\<rparr>))"

definition expire_locked :: "flow_entry \<Rightarrow> flow_entry" where
  "expire_locked e = e\<lparr>en_flow := (en_flow e)\<lparr>fl_secrets := no_secrets\<rparr>\<rparr>"

definition next_flow_revision :: "flow_store \<Rightarrow> string \<times> flow_store" where
  "next_flow_revision s = (format_uint (fs_revision s + 1), s\<lparr>fs_revision := fs_revision s + 1\<rparr>)"

definition past_retention :: "flow_config \<Rightarrow> gtime \<Rightarrow> flow \<Rightarrow> bool" where
  "past_retention cfg now f \<longleftrightarrow> fc_retention cfg \<le> time_sub now (fl_expires_at f)"

definition owned_locked ::
    "flow_config \<Rightarrow> gtime \<Rightarrow> caller \<Rightarrow> string \<Rightarrow> flow_store \<Rightarrow> (go_err + flow_entry) \<times> flow_store" where
  "owned_locked cfg now c fid s =
     (case map_of (fs_flows s) fid of
        None \<Rightarrow> (Inl err_flow_not_found, s)
      | Some e \<Rightarrow>
          (if fl_caller (en_flow e) \<noteq> c then (Inl err_flow_not_found, s)
           else if \<not> flow_expired (en_flow e) now then (Inr e, s)
           else if past_retention cfg now (en_flow e) then (Inl err_flow_not_found, delete_locked e s)
           else (Inl err_flow_expired, put_entry (expire_locked e) s)))"

text \<open>\<^verbatim>\<open>purgeLocked\<close>: what the loop does with one entry, and the loop.\<close>

definition purge_entry :: "flow_config \<Rightarrow> gtime \<Rightarrow> flow_entry \<Rightarrow> flow_store \<Rightarrow> flow_store" where
  "purge_entry cfg now e s =
     (if \<not> flow_expired (en_flow e) now then s
      else if past_retention cfg now (en_flow e) then delete_locked e s
      else put_entry (expire_locked e) s)"

definition purge_locked :: "flow_config \<Rightarrow> gtime \<Rightarrow> flow_store \<Rightarrow> flow_store" where
  "purge_locked cfg now s = fold (purge_entry cfg now) (map snd (fs_flows s)) s"

text \<open>
  \<^verbatim>\<open>evictLocked\<close>: one pass over the flows counts the caller's pending ones and finds the oldest;
  the outer loop deletes it until the count is below the cap. Each round deletes a flow, so a
  round per stored flow is enough (\<open>evict_below_cap\<close>).
\<close>

definition pending_of :: "caller \<Rightarrow> gtime \<Rightarrow> flow_entry \<Rightarrow> bool" where
  "pending_of c now e \<longleftrightarrow>
     \<not> (fl_caller (en_flow e) \<noteq> c \<or> flow_consumed (en_flow e) \<or> flow_expired (en_flow e) now)"

definition older :: "flow_entry \<Rightarrow> flow_entry \<Rightarrow> bool" where
  "older a b \<longleftrightarrow>
     fl_created_at (en_flow a) < fl_created_at (en_flow b) \<or>
     fl_created_at (en_flow a) = fl_created_at (en_flow b) \<and> en_sequence a < en_sequence b"

fun evict_scan :: "caller \<Rightarrow> gtime \<Rightarrow> flow_entry list \<Rightarrow> int \<Rightarrow> flow_entry option \<Rightarrow> int \<times> flow_entry option" where
  "evict_scan c now [] n oldest = (n, oldest)"
| "evict_scan c now (e # es) n oldest =
     (if \<not> pending_of c now e then evict_scan c now es n oldest
      else evict_scan c now es (n + 1)
             (case oldest of None \<Rightarrow> Some e | Some old \<Rightarrow> Some (if older e old then e else old)))"

fun evict_loop :: "nat \<Rightarrow> flow_config \<Rightarrow> caller \<Rightarrow> gtime \<Rightarrow> flow_store \<Rightarrow> flow_store" where
  "evict_loop 0 cfg c now s = s"
| "evict_loop (Suc n) cfg c now s =
     (case evict_scan c now (map snd (fs_flows s)) 0 None of
        (count, oldest) \<Rightarrow>
          (if count < fc_max_flows cfg then s
           else case oldest of
             Some e \<Rightarrow> evict_loop n cfg c now (delete_locked e s)
           | None \<Rightarrow> s))"

definition evict_locked :: "flow_config \<Rightarrow> caller \<Rightarrow> gtime \<Rightarrow> flow_store \<Rightarrow> flow_store" where
  "evict_locked cfg c now s =
     (if fc_max_flows cfg \<le> 0 then s else evict_loop (Suc (length (fs_flows s))) cfg c now s)"

subsection \<open>Operations\<close>

text \<open>
  \<open>flow_insert\<close> is the end of \<^verbatim>\<open>Create\<close>: the index, the sequence number, the revision and the
  stored flow. \<^verbatim>\<open>Create\<close> reads the clock to purge and again to evict, \<^verbatim>\<open>Consume\<close> to check the expiry and
  again to stamp the flow.
\<close>

definition flow_insert :: "flow_config \<Rightarrow> flow \<Rightarrow> flow_store \<Rightarrow> flow_store" where
  "flow_insert cfg f s =
     (let indexed = (sc_state (fl_secrets f) \<noteq> []);
          key = (if indexed then fc_hash cfg (sc_state (fl_secrets f)) else []);
          s1 = (if indexed then s\<lparr>fs_states := (fs_states s)(key \<mapsto> fl_id f)\<rparr> else s);
          s2 = s1\<lparr>fs_sequence := fs_sequence s1 + 1\<rparr>
      in case next_flow_revision s2 of
           (revision, s3) \<Rightarrow>
             put_entry
               \<lparr>en_flow = f\<lparr>fl_consumed_at := 0, fl_revision := revision\<rparr>, en_sequence = fs_sequence s2,
                en_state_key = key, en_indexed = indexed\<rparr> s3)"

definition flow_create ::
    "flow_config \<Rightarrow> go_err option \<Rightarrow> gtime \<Rightarrow> gtime \<Rightarrow> flow \<Rightarrow> flow_store \<Rightarrow> go_err option \<times> flow_store" where
  "flow_create cfg ctx_err now now' f s =
     (case ctx_err of
        Some err \<Rightarrow> (Some err, s)
      | None \<Rightarrow>
          (if blank (fl_id f) then (Some (Sentinel ''oauthflow: flow id is required''), s)
           else case caller_validate (fl_caller f) of
             Some err \<Rightarrow> (Some (caller_err err), s)
           | None \<Rightarrow>
               (if is_zero_time (fl_expires_at f) then (Some (Sentinel ''oauthflow: flow expiry is required''), s)
                else
                  (let s1 = purge_locked cfg now s in
                   if map_of (fs_flows s1) (fl_id f) \<noteq> None then (Some err_flow_exists, s1)
                   else if sc_state (fl_secrets f) \<noteq> [] \<and>
                           fs_states s1 (fc_hash cfg (sc_state (fl_secrets f))) \<noteq> None
                   then (Some err_flow_exists, s1)
                   else (None, flow_insert cfg f (evict_locked cfg (fl_caller f) now' s1))))))"

definition flow_get ::
    "flow_config \<Rightarrow> go_err option \<Rightarrow> gtime \<Rightarrow> caller \<Rightarrow> string \<Rightarrow> flow_store \<Rightarrow> (go_err + flow) \<times> flow_store" where
  "flow_get cfg ctx_err now c fid s =
     (case ctx_err of
        Some err \<Rightarrow> (Inl err, s)
      | None \<Rightarrow>
          (case owned_locked cfg now c fid s of
             (Inl err, s1) \<Rightarrow> (Inl err, s1)
           | (Inr e, s1) \<Rightarrow> (Inr (en_flow e), s1)))"

definition flow_consume ::
    "flow_config \<Rightarrow> go_err option \<Rightarrow> gtime \<Rightarrow> gtime \<Rightarrow> caller \<Rightarrow> string \<Rightarrow> flow_store \<Rightarrow>
     (go_err + flow) \<times> flow_store" where
  "flow_consume cfg ctx_err now now' c fid s =
     (case ctx_err of
        Some err \<Rightarrow> (Inl err, s)
      | None \<Rightarrow>
          (case owned_locked cfg now c fid s of
             (Inl err, s1) \<Rightarrow> (Inl err, s1)
           | (Inr e, s1) \<Rightarrow>
               (if flow_consumed (en_flow e) then (Inl err_flow_not_found, s1)
                else case next_flow_revision s1 of
                  (revision, s2) \<Rightarrow>
                    (let consumed = (en_flow e)\<lparr>fl_consumed_at := now', fl_revision := revision\<rparr> in
                     case unindex_locked e s2 of
                       (e', s3) \<Rightarrow>
                         (Inr consumed, put_entry (e'\<lparr>en_flow := consumed\<lparr>fl_secrets := no_secrets\<rparr>\<rparr>) s3)))))"

definition flow_update ::
    "flow_config \<Rightarrow> go_err option \<Rightarrow> gtime \<Rightarrow> caller \<Rightarrow> flow \<Rightarrow> flow_store \<Rightarrow> (go_err + flow) \<times> flow_store" where
  "flow_update cfg ctx_err now c f s =
     (case ctx_err of
        Some err \<Rightarrow> (Inl err, s)
      | None \<Rightarrow>
          (case owned_locked cfg now c (fl_id f) s of
             (Inl err, s1) \<Rightarrow> (Inl err, s1)
           | (Inr e, s1) \<Rightarrow>
               (if fl_revision (en_flow e) \<noteq> fl_revision f then (Inl err_flow_conflict, s1)
                else case next_flow_revision s1 of
                  (revision, s2) \<Rightarrow>
                    (let updated = (en_flow e)\<lparr>fl_progress := fl_progress f, fl_revision := revision\<rparr> in
                     (Inr updated, put_entry (e\<lparr>en_flow := updated\<rparr>) s2)))))"

text \<open>A state the index misses reads as the empty id, as a Go map of strings does.\<close>

definition flow_resolve_state ::
    "flow_config \<Rightarrow> go_err option \<Rightarrow> gtime \<Rightarrow> string \<Rightarrow> flow_store \<Rightarrow> (go_err + caller \<times> string) \<times> flow_store" where
  "flow_resolve_state cfg ctx_err now state s =
     (case ctx_err of
        Some err \<Rightarrow> (Inl err, s)
      | None \<Rightarrow>
          (if state = [] then (Inl err_flow_not_found, s)
           else
             (case map_of (fs_flows s)
                     (case fs_states s (fc_hash cfg state) of None \<Rightarrow> [] | Some fid \<Rightarrow> fid) of
                None \<Rightarrow> (Inl err_flow_not_found, s)
              | Some e \<Rightarrow>
                  (if \<not> en_indexed e then (Inl err_flow_not_found, s)
                   else case owned_locked cfg now (fl_caller (en_flow e)) (fl_id (en_flow e)) s of
                     (Inl err, s1) \<Rightarrow> (Inl err, s1)
                   | (Inr _, s1) \<Rightarrow> (Inr (fl_caller (en_flow e), fl_id (en_flow e)), s1)))))"

subsection \<open>What the store holds\<close>

abbreviation stored :: "flow_store \<Rightarrow> string \<rightharpoonup> flow_entry" where
  "stored s \<equiv> map_of (fs_flows s)"

named_theorems flow_simps \<open>effects of the store's internal operations\<close>

lemma put_entry_effect [flow_simps]:
  "stored (put_entry e s) = (stored s)(fl_id (en_flow e) \<mapsto> e)"
  "fs_states (put_entry e s) = fs_states s"
  "fs_revision (put_entry e s) = fs_revision s"
  "distinct (map fst (fs_flows s)) \<Longrightarrow> distinct (map fst (fs_flows (put_entry e s)))"
  by (simp_all add: put_entry_def update_conv' distinct_update)

lemma unindex_effect [flow_simps]:
  "fst (unindex_locked e s) = e\<lparr>en_indexed := False\<rparr>"
  "fs_flows (snd (unindex_locked e s)) = fs_flows s"
  "fs_states (snd (unindex_locked e s)) =
     (if en_indexed e then (fs_states s)(en_state_key e := None) else fs_states s)"
  "fs_revision (snd (unindex_locked e s)) = fs_revision s"
  by (cases e) (simp_all add: unindex_locked_def)

lemma delete_effect [flow_simps]:
  "stored (delete_locked e s) = (stored s)(fl_id (en_flow e) := None)"
  "fs_states (delete_locked e s) =
     (if en_indexed e then (fs_states s)(en_state_key e := None) else fs_states s)"
  "fs_revision (delete_locked e s) = fs_revision s"
  "distinct (map fst (fs_flows s)) \<Longrightarrow> distinct (map fst (fs_flows (delete_locked e s)))"
  by (simp_all add: delete_locked_def flow_simps delete_conv' distinct_delete)

lemma expire_effect [simp]:
  "fl_id (en_flow (expire_locked e)) = fl_id (en_flow e)"
  "fl_caller (en_flow (expire_locked e)) = fl_caller (en_flow e)"
  "flow_consumed (en_flow (expire_locked e)) = flow_consumed (en_flow e)"
  "flow_expired (en_flow (expire_locked e)) t = flow_expired (en_flow e) t"
  "past_retention cfg t (en_flow (expire_locked e)) = past_retention cfg t (en_flow e)"
  "en_indexed (expire_locked e) = en_indexed e"
  "en_state_key (expire_locked e) = en_state_key e"
  "fl_secrets (en_flow (expire_locked e)) = no_secrets"
  "fl_revision (en_flow (expire_locked e)) = fl_revision (en_flow e)"
  by (simp_all add: expire_locked_def flow_consumed_def flow_expired_def past_retention_def)

text \<open>
  The invariant: a flow is stored under its own id; a flow the owner can no longer complete keeps no
  secrets and is not indexed; and the index maps the hash of a state to the flow it belongs to.
\<close>

definition entry_inv :: "flow_config \<Rightarrow> flow_store \<Rightarrow> string \<Rightarrow> flow_entry \<Rightarrow> bool" where
  "entry_inv cfg s fid e \<longleftrightarrow>
     fl_id (en_flow e) = fid \<and> \<not> blank fid \<and>
     (en_indexed e \<longrightarrow> fs_states s (en_state_key e) = Some fid \<and>
        (fl_secrets (en_flow e) = no_secrets \<or>
         sc_state (fl_secrets (en_flow e)) \<noteq> [] \<and>
         en_state_key e = fc_hash cfg (sc_state (fl_secrets (en_flow e))))) \<and>
     (flow_consumed (en_flow e) \<longrightarrow> fl_secrets (en_flow e) = no_secrets \<and> \<not> en_indexed e)"

definition flow_inv :: "flow_config \<Rightarrow> flow_store \<Rightarrow> bool" where
  "flow_inv cfg s \<longleftrightarrow>
     distinct (map fst (fs_flows s)) \<and>
     (\<forall>fid e. stored s fid = Some e \<longrightarrow> entry_inv cfg s fid e) \<and>
     (\<forall>k fid. fs_states s k = Some fid \<longrightarrow>
        (\<exists>e. stored s fid = Some e \<and> en_indexed e \<and> en_state_key e = k))"

lemma flow_inv_new: "flow_inv cfg new_flow_store"
  by (simp add: flow_inv_def new_flow_store_def)

lemma flow_invD:
  assumes "flow_inv cfg s" and "stored s fid = Some e"
  shows "fl_id (en_flow e) = fid" and "entry_inv cfg s fid e"
  using assms by (auto simp: flow_inv_def entry_inv_def)

lemma blank_Nil [simp]: "blank []"
  by (simp add: blank_def)

lemma flow_inv_index:
  assumes "flow_inv cfg s"
  shows "fs_states s k = Some fid \<longleftrightarrow>
    (\<exists>e. stored s fid = Some e \<and> en_indexed e \<and> en_state_key e = k)"
  using assms unfolding flow_inv_def entry_inv_def by blast

text \<open>Two entries of one state key are one.\<close>

lemma indexed_once:
  assumes "flow_inv cfg s" and "stored s a = Some e" and "stored s b = Some e'"
    and "en_indexed e" and "en_indexed e'" and "en_state_key e = en_state_key e'"
  shows "a = b"
  using assms flow_inv_index [OF assms(1), of "en_state_key e"] by (metis option.inject)

text \<open>Replacing an entry by one of the same id and index that keeps no more secrets.\<close>

lemma flow_inv_put:
  assumes inv: "flow_inv cfg s" and old: "stored s (fl_id (en_flow e)) = Some old"
    and index: "en_indexed e = en_indexed old" "en_state_key e = en_state_key old"
    and secrets: "fl_secrets (en_flow e) = no_secrets \<or> fl_secrets (en_flow e) = fl_secrets (en_flow old)"
    and consumed: "flow_consumed (en_flow e) = flow_consumed (en_flow old)"
  shows "flow_inv cfg (put_entry e s)"
proof -
  let ?s = "put_entry e s"
  have "entry_inv cfg ?s fid x" if "stored ?s fid = Some x" for fid x
  proof (cases "fid = fl_id (en_flow e)")
    case True
    with that flow_invD(2) [OF inv old] assms show ?thesis
      by (auto simp: flow_simps entry_inv_def)
  next
    case False
    with that flow_invD(2) [OF inv, of fid x] show ?thesis
      by (simp add: flow_simps entry_inv_def)
  qed
  moreover have "\<exists>x. stored ?s fid = Some x \<and> en_indexed x \<and> en_state_key x = k"
    if "fs_states ?s k = Some fid" for k fid
    using that flow_inv_index [OF inv, of k fid] old index
    by (cases "fid = fl_id (en_flow e)") (auto simp: flow_simps)
  moreover have "distinct (map fst (fs_flows ?s))"
    using inv by (simp add: flow_simps flow_inv_def)
  ultimately show ?thesis
    by (simp add: flow_inv_def)
qed

lemma flow_inv_delete:
  assumes inv: "flow_inv cfg s" and old: "stored s (fl_id (en_flow e)) = Some e"
  shows "flow_inv cfg (delete_locked e s)"
proof -
  let ?s = "delete_locked e s"
  have "entry_inv cfg ?s fid x" if "stored ?s fid = Some x" for fid x
  proof -
    from that have x: "stored s fid = Some x" "fid \<noteq> fl_id (en_flow e)"
      by (auto simp: flow_simps split: if_splits)
    then have "\<not> (en_indexed x \<and> en_indexed e \<and> en_state_key x = en_state_key e)"
      using indexed_once [OF inv x(1) old] by blast
    with flow_invD(2) [OF inv x(1)] show ?thesis
      by (auto simp: flow_simps entry_inv_def)
  qed
  moreover have "\<exists>x. stored ?s fid = Some x \<and> en_indexed x \<and> en_state_key x = k"
    if "fs_states ?s k = Some fid" for k fid
    using that flow_inv_index [OF inv, of k fid] old
    by (auto simp: flow_simps split: if_splits)
  moreover have "distinct (map fst (fs_flows ?s))"
    using inv by (simp add: flow_simps flow_inv_def)
  ultimately show ?thesis
    by (simp add: flow_inv_def)
qed

lemma flow_inv_expire:
  "flow_inv cfg s \<Longrightarrow> stored s (fl_id (en_flow e)) = Some e \<Longrightarrow> flow_inv cfg (put_entry (expire_locked e) s)"
  by (rule flow_inv_put) auto

lemma flow_inv_cong:
  "fs_flows s = fs_flows s' \<Longrightarrow> fs_states s = fs_states s' \<Longrightarrow> flow_inv cfg s = flow_inv cfg s'"
  by (simp add: flow_inv_def entry_inv_def)

subsection \<open>Looking up, purging and evicting\<close>

text \<open>What time has made of a stored flow.\<close>

definition aged :: "flow_config \<Rightarrow> gtime \<Rightarrow> flow_entry option \<Rightarrow> flow_entry option" where
  "aged cfg now eo =
     (case eo of
        None \<Rightarrow> None
      | Some e \<Rightarrow>
          (if \<not> flow_expired (en_flow e) now then Some e
           else if past_retention cfg now (en_flow e) then None
           else Some (expire_locked e)))"

lemma aged_None [simp]: "aged cfg now None = None"
  by (simp add: aged_def)

lemma agedD:
  "aged cfg now eo = Some e' \<Longrightarrow>
     \<exists>e. eo = Some e \<and> (e' = e \<and> \<not> flow_expired (en_flow e) now \<or>
                         e' = expire_locked e \<and> flow_expired (en_flow e) now)"
  by (auto simp: aged_def split: option.splits if_splits)

text \<open>The steps that only let time pass, and what they keep.\<close>

inductive settles :: "flow_config \<Rightarrow> gtime \<Rightarrow> flow_store \<Rightarrow> flow_store \<Rightarrow> bool"
  for cfg now where
  settles_refl: "settles cfg now s s"
| settles_delete: "settles cfg now s s' \<Longrightarrow> stored s' (fl_id (en_flow e)) = Some e \<Longrightarrow>
    flow_expired (en_flow e) now \<Longrightarrow> settles cfg now s (delete_locked e s')"
| settles_expire: "settles cfg now s s' \<Longrightarrow> stored s' (fl_id (en_flow e)) = Some e \<Longrightarrow>
    flow_expired (en_flow e) now \<Longrightarrow> settles cfg now s (put_entry (expire_locked e) s')"

lemma settles_inv: "settles cfg now s s' \<Longrightarrow> flow_inv cfg s \<Longrightarrow> flow_inv cfg s'"
  by (induction rule: settles.induct) (auto intro: flow_inv_delete flow_inv_expire)

lemma settles_revision: "settles cfg now s s' \<Longrightarrow> fs_revision s' = fs_revision s"
  by (induction rule: settles.induct) (auto simp: flow_simps)

lemma settles_stored:
  "settles cfg now s s' \<Longrightarrow> stored s' fid = Some e' \<Longrightarrow>
     \<exists>e. stored s fid = Some e \<and> (e' = e \<or> flow_expired (en_flow e) now \<and> e' = expire_locked e)"
proof (induction arbitrary: e' rule: settles.induct)
  case (settles_refl s)
  then show ?case by simp
next
  case (settles_delete s s' e)
  then show ?case by (auto simp: flow_simps split: if_splits)
next
  case (settles_expire s s' e)
  have "expire_locked (expire_locked x) = expire_locked x" for x
    by (simp add: expire_locked_def)
  with settles_expire show ?case
    by (fastforce simp: flow_simps split: if_splits)
qed

lemma settles_live:
  "settles cfg now s s' \<Longrightarrow> stored s fid = Some e \<Longrightarrow>
     \<not> flow_expired (en_flow e) now \<Longrightarrow> stored s' fid = Some e"
proof (induction rule: settles.induct)
  case (settles_refl s)
  then show ?case by simp
next
  case (settles_delete s s' x)
  then show ?case
    by (cases "fid = fl_id (en_flow x)") (simp_all add: flow_simps)
next
  case (settles_expire s s' x)
  then show ?case
    by (cases "fid = fl_id (en_flow x)") (simp_all add: flow_simps)
qed

lemma settles_trans: "settles cfg now s' s'' \<Longrightarrow> settles cfg now s s' \<Longrightarrow> settles cfg now s s''"
  by (induction rule: settles.induct) (auto intro: settles.intros)

text \<open>What \<open>owned_locked\<close> answers and leaves behind.\<close>

lemma owned_settles:
  assumes "flow_inv cfg s"
  shows "settles cfg now s (snd (owned_locked cfg now c fid s))"
  using flow_invD(1) [OF assms, of fid]
  by (auto simp: owned_locked_def split: option.split
      intro!: settles_delete settles_expire settles_refl)

lemma owned_result:
  "fst (owned_locked cfg now c fid s) =
     (case stored s fid of
        None \<Rightarrow> Inl err_flow_not_found
      | Some e \<Rightarrow>
          (if fl_caller (en_flow e) \<noteq> c \<or> (flow_expired (en_flow e) now \<and> past_retention cfg now (en_flow e))
           then Inl err_flow_not_found
           else if flow_expired (en_flow e) now then Inl err_flow_expired else Inr e))"
  by (auto simp: owned_locked_def split: option.split)

lemma owned_InrD:
  assumes "owned_locked cfg now c fid s = (Inr e, s1)"
  shows "s1 = s" and "stored s fid = Some e" and "fl_caller (en_flow e) = c"
    and "\<not> flow_expired (en_flow e) now"
  using assms by (auto simp: owned_locked_def split: option.splits if_splits)

lemma owned_InlD:
  "owned_locked cfg now c fid s = (Inl err, s1) \<Longrightarrow> err = err_flow_not_found \<or> err = err_flow_expired"
  by (auto simp: owned_locked_def split: option.splits if_splits)

lemma purge_stored:
  "distinct (map (\<lambda>e. fl_id (en_flow e)) es) \<Longrightarrow>
   (\<And>e. e \<in> set es \<Longrightarrow> stored s (fl_id (en_flow e)) = Some e) \<Longrightarrow>
     settles cfg now s (fold (purge_entry cfg now) es s) \<and>
     stored (fold (purge_entry cfg now) es s) fid =
       (if fid \<in> (\<lambda>e. fl_id (en_flow e)) ` set es then aged cfg now (stored s fid) else stored s fid)"
proof (induction es arbitrary: s)
  case Nil
  then show ?case by (simp add: settles_refl)
next
  case (Cons e es)
  let ?s = "purge_entry cfg now e s"
  have e: "stored s (fl_id (en_flow e)) = Some e"
    using Cons.prems by simp
  have step: "settles cfg now s ?s"
    using e by (auto simp: purge_entry_def intro!: settles_delete settles_expire settles_refl)
  have st: "stored ?s = (stored s)(fl_id (en_flow e) := aged cfg now (Some e))"
    using e by (auto simp: purge_entry_def aged_def flow_simps)
  have new: "fl_id (en_flow e) \<notin> (\<lambda>e. fl_id (en_flow e)) ` set es"
    using Cons.prems(1) by auto
  have rest: "stored ?s (fl_id (en_flow x)) = Some x" if "x \<in> set es" for x
  proof -
    have "fl_id (en_flow x) \<noteq> fl_id (en_flow e)"
      using new that by (metis imageI)
    with Cons.prems(2) [of x] that st show ?thesis by simp
  qed
  have "distinct (map (\<lambda>e. fl_id (en_flow e)) es)"
    using Cons.prems(1) by simp
  note ih = Cons.IH [OF this rest]
  have "settles cfg now s (fold (purge_entry cfg now) es ?s)"
    using ih step settles_trans by blast
  moreover have "stored (fold (purge_entry cfg now) es ?s) fid =
      (if fid \<in> (\<lambda>e. fl_id (en_flow e)) ` set (e # es) then aged cfg now (stored s fid) else stored s fid)"
    using ih st e new by simp
  ultimately show ?case
    by simp
qed

lemma flow_inv_entries:
  assumes "flow_inv cfg s"
  shows "map (\<lambda>e. fl_id (en_flow e)) (map snd (fs_flows s)) = map fst (fs_flows s)"
    and "e \<in> set (map snd (fs_flows s)) \<longleftrightarrow> stored s (fl_id (en_flow e)) = Some e"
proof -
  have d: "distinct (map fst (fs_flows s))" using assms by (simp add: flow_inv_def)
  have id: "fl_id (en_flow x) = fid" if "(fid, x) \<in> set (fs_flows s)" for fid x
    using that d flow_invD(1) [OF assms] by simp
  then show "map (\<lambda>e. fl_id (en_flow e)) (map snd (fs_flows s)) = map fst (fs_flows s)"
    by auto
  show "e \<in> set (map snd (fs_flows s)) \<longleftrightarrow> stored s (fl_id (en_flow e)) = Some e"
  proof
    assume "e \<in> set (map snd (fs_flows s))"
    then obtain fid where "(fid, e) \<in> set (fs_flows s)" by auto
    then show "stored s (fl_id (en_flow e)) = Some e"
      using d id by (metis map_of_is_SomeI)
  next
    assume "stored s (fl_id (en_flow e)) = Some e"
    from map_of_SomeD [OF this] show "e \<in> set (map snd (fs_flows s))"
      by (metis image_eqI list.set_map snd_conv)
  qed
qed

lemma purge_effect:
  assumes "flow_inv cfg s"
  shows "settles cfg now s (purge_locked cfg now s)"
    and "stored (purge_locked cfg now s) fid = aged cfg now (stored s fid)"
proof -
  have d: "distinct (map (\<lambda>e. fl_id (en_flow e)) (map snd (fs_flows s)))"
    unfolding flow_inv_entries(1) [OF assms] using assms by (simp add: flow_inv_def)
  note * = purge_stored [OF d, of s cfg now fid, folded purge_locked_def]
  then show "settles cfg now s (purge_locked cfg now s)"
    using flow_inv_entries(2) [OF assms] by blast
  have ids: "(\<lambda>e. fl_id (en_flow e)) ` set (map snd (fs_flows s)) = fst ` set (fs_flows s)"
    using arg_cong [OF flow_inv_entries(1) [OF assms], of set]
    by (simp add: image_image)
  have "fid \<in> fst ` set (fs_flows s) \<longleftrightarrow> stored s fid \<noteq> None"
    by (simp add: map_of_eq_None_iff)
  with * ids show "stored (purge_locked cfg now s) fid = aged cfg now (stored s fid)"
    using flow_inv_entries(2) [OF assms] by (cases "stored s fid") simp_all
qed

text \<open>The pending flows of a caller, and what one pass over the flows finds.\<close>

definition pending_count :: "caller \<Rightarrow> gtime \<Rightarrow> flow_store \<Rightarrow> nat" where
  "pending_count c now s = length (filter (pending_of c now) (map snd (fs_flows s)))"

lemma older_trans: "older a b \<Longrightarrow> \<not> older c b \<Longrightarrow> \<not> older c a"
  by (auto simp: older_def)

lemma older_asym: "older a b \<Longrightarrow> \<not> older b a"
  by (auto simp: older_def)

lemma not_older_refl: "\<not> older a a"
  by (simp add: older_def)

lemma not_older_trans: "\<not> older b a \<Longrightarrow> \<not> older c b \<Longrightarrow> \<not> older c a"
  by (auto simp: older_def not_less)

lemma evict_scan_count:
  "fst (evict_scan c now es n oldest) = n + int (length (filter (pending_of c now) es))"
  by (induction es arbitrary: n oldest) auto

lemma evict_scan_oldest:
  assumes "\<And>old y. oldest = Some old \<Longrightarrow> y \<in> Y \<Longrightarrow> \<not> older y old" and "oldest = None \<Longrightarrow> Y = {}"
  shows "case snd (evict_scan c now es n oldest) of
      None \<Rightarrow> oldest = None \<and> filter (pending_of c now) es = []
    | Some e \<Rightarrow> (e \<in> set (filter (pending_of c now) es) \<or> oldest = Some e) \<and>
        (\<forall>y \<in> Y \<union> set (filter (pending_of c now) es). \<not> older y e)"
  using assms
proof (induction es arbitrary: n oldest Y)
  case Nil
  then show ?case by (cases oldest) auto
next
  case (Cons x es)
  show ?case
  proof (cases "pending_of c now x")
    case False
    with Cons.IH [of oldest Y n] Cons.prems show ?thesis
      by (simp cong: option.case_cong)
  next
    case True
    define best where
      "best = (case oldest of None \<Rightarrow> x | Some old \<Rightarrow> if older x old then x else old)"
    have "\<not> older y best" if y: "y \<in> insert x Y" for y
    proof (cases oldest)
      case None
      with y Cons.prems(2) show ?thesis by (simp add: best_def not_older_refl)
    next
      case (Some old)
      then have "y \<noteq> x \<Longrightarrow> \<not> older y old" using y Cons.prems(1) by blast
      with Some older_trans [of x old y] show ?thesis
        by (cases "y = x") (simp_all add: best_def not_older_refl)
    qed
    then have ih: "case snd (evict_scan c now es (n + 1) (Some best)) of
        None \<Rightarrow> Some best = None \<and> filter (pending_of c now) es = []
      | Some e \<Rightarrow> (e \<in> set (filter (pending_of c now) es) \<or> Some best = Some e) \<and>
          (\<forall>y \<in> insert x Y \<union> set (filter (pending_of c now) es). \<not> older y e)"
      by (intro Cons.IH) auto
    have best: "best = x \<or> oldest = Some best"
      by (auto simp: best_def split: option.split)
    have scan: "evict_scan c now (x # es) n oldest = evict_scan c now es (n + 1) (Some best)"
      using True by (simp add: best_def split: option.split)
    obtain e where e: "snd (evict_scan c now es (n + 1) (Some best)) = Some e"
      using ih by (auto split: option.splits)
    with ih best True show ?thesis
      unfolding scan by auto
  qed
qed

lemma filter_delete_count:
  "distinct (map fst al) \<Longrightarrow> map_of al k = Some e \<Longrightarrow> P e \<Longrightarrow>
     length (filter P (map snd (AList.delete k al))) + 1 = length (filter P (map snd al))"
proof (induction al)
  case Nil
  then show ?case by simp
next
  case (Cons p al)
  obtain a b where p: "p = (a, b)" by (cases p)
  show ?case
  proof (cases "k = a")
    case True
    with Cons.prems p show ?thesis by (simp add: delete_id)
  next
    case False
    with Cons p show ?thesis by auto
  qed
qed

lemma pending_count_delete:
  assumes "flow_inv cfg s" and "stored s (fl_id (en_flow e)) = Some e" and "pending_of c now e"
  shows "pending_count c now (delete_locked e s) + 1 = pending_count c now s"
  using filter_delete_count [of "fs_flows s" "fl_id (en_flow e)" e "pending_of c now"] assms
  by (simp add: pending_count_def delete_locked_def flow_simps flow_inv_def)

text \<open>What an eviction does to a store: no new flow, and the evicted are the oldest.\<close>

definition evicts :: "caller \<Rightarrow> gtime \<Rightarrow> flow_store \<Rightarrow> flow_store \<Rightarrow> bool" where
  "evicts c now s s' \<longleftrightarrow>
     fs_revision s' = fs_revision s \<and>
     (\<forall>fid e. stored s' fid = Some e \<longrightarrow> stored s fid = Some e) \<and>
     (\<forall>fid e. stored s fid = Some e \<and> stored s' fid = None \<longrightarrow>
        pending_of c now e \<and>
        (\<forall>fid' y. stored s' fid' = Some y \<and> pending_of c now y \<longrightarrow> \<not> older y e))"

lemma evicts_refl: "evicts c now s s"
  by (auto simp: evicts_def)

lemma evicts_delete:
  assumes e: "stored s (fl_id (en_flow e)) = Some e" "pending_of c now e"
    and least: "\<And>fid y. stored s fid = Some y \<Longrightarrow> pending_of c now y \<Longrightarrow> \<not> older y e"
    and rest: "evicts c now (delete_locked e s) s'"
  shows "evicts c now s s'"
proof -
  have sub: "stored s fid = Some x \<and> fid \<noteq> fl_id (en_flow e)" if "stored s' fid = Some x" for fid x
  proof -
    have "stored (delete_locked e s) fid = Some x"
      using rest that by (simp add: evicts_def)
    then show ?thesis
      by (simp add: flow_simps split: if_splits)
  qed
  have "pending_of c now x \<and> (\<forall>fid' y. stored s' fid' = Some y \<and> pending_of c now y \<longrightarrow> \<not> older y x)"
    if x: "stored s fid = Some x" "stored s' fid = None" for fid x
  proof (cases "fid = fl_id (en_flow e)")
    case True
    with x e have "x = e" by simp
    with e(2) least sub show ?thesis by blast
  next
    case False
    with x have "stored (delete_locked e s) fid = Some x" by (simp add: flow_simps)
    with x(2) rest show ?thesis unfolding evicts_def by blast
  qed
  moreover have "fs_revision s' = fs_revision s"
    using rest by (simp add: evicts_def flow_simps)
  ultimately show ?thesis
    unfolding evicts_def using sub by blast
qed

lemma evict_loop_effect:
  "flow_inv cfg s \<Longrightarrow> pending_count c now s < n \<Longrightarrow> 0 < fc_max_flows cfg \<Longrightarrow>
     flow_inv cfg (evict_loop n cfg c now s) \<and>
     int (pending_count c now (evict_loop n cfg c now s)) =
       min (int (pending_count c now s)) (fc_max_flows cfg - 1) \<and>
     evicts c now s (evict_loop n cfg c now s)"
proof (induction n arbitrary: s)
  case 0
  then show ?case by simp
next
  case (Suc n)
  let ?scan = "evict_scan c now (map snd (fs_flows s)) 0 None"
  have count: "fst ?scan = int (pending_count c now s)"
    by (simp add: evict_scan_count pending_count_def)
  have oldest: "case snd ?scan of None \<Rightarrow> filter (pending_of c now) (map snd (fs_flows s)) = []
      | Some e \<Rightarrow> e \<in> set (filter (pending_of c now) (map snd (fs_flows s))) \<and>
          (\<forall>y \<in> set (filter (pending_of c now) (map snd (fs_flows s))). \<not> older y e)"
    using evict_scan_oldest [of None "{}" c now "map snd (fs_flows s)" 0] by (auto split: option.splits)
  show ?case
  proof (cases "int (pending_count c now s) < fc_max_flows cfg")
    case True
    with count Suc.prems show ?thesis
      by (cases ?scan) (simp add: evicts_refl)
  next
    case False
    with Suc.prems(3) have "filter (pending_of c now) (map snd (fs_flows s)) \<noteq> []"
      unfolding pending_count_def by (intro notI) (simp del: filter_map map_map)
    with oldest obtain e where scan: "snd ?scan = Some e"
      and e: "e \<in> set (map snd (fs_flows s))" "pending_of c now e"
      and least: "\<And>y. y \<in> set (map snd (fs_flows s)) \<Longrightarrow> pending_of c now y \<Longrightarrow> \<not> older y e"
      by (auto split: option.splits)
    have st: "stored s (fl_id (en_flow e)) = Some e"
      using e(1) flow_inv_entries(2) [OF Suc.prems(1)] by blast
    let ?s = "delete_locked e s"
    have inv: "flow_inv cfg ?s"
      using Suc.prems(1) st by (rule flow_inv_delete)
    have less: "pending_count c now ?s + 1 = pending_count c now s"
      using Suc.prems(1) st e(2) by (rule pending_count_delete)
    from less Suc.prems(2) have "pending_count c now ?s < n" by simp
    note ih = Suc.IH [OF inv this Suc.prems(3)]
    have loop: "evict_loop (Suc n) cfg c now s = evict_loop n cfg c now ?s"
      using scan count False by (cases ?scan) simp
    have "\<not> older y e" if "stored s fid = Some y" "pending_of c now y" for fid y
      using that least flow_inv_entries(2) [OF Suc.prems(1)] flow_invD(1) [OF Suc.prems(1)] by metis
    then have "evicts c now s (evict_loop n cfg c now ?s)"
      using ih evicts_delete [OF st e(2)] by blast
    with ih less loop False show ?thesis by simp
  qed
qed

lemma evict_effect:
  assumes "flow_inv cfg s"
  shows "flow_inv cfg (evict_locked cfg c now s)" and "evicts c now s (evict_locked cfg c now s)"
    and "0 < fc_max_flows cfg \<Longrightarrow>
      int (pending_count c now (evict_locked cfg c now s)) =
        min (int (pending_count c now s)) (fc_max_flows cfg - 1)"
proof -
  have "pending_count c now s < Suc (length (fs_flows s))"
    unfolding pending_count_def by (metis length_filter_le length_map less_Suc_eq_le)
  note * = evict_loop_effect [OF assms this]
  show "flow_inv cfg (evict_locked cfg c now s)" and "evicts c now s (evict_locked cfg c now s)"
    and "0 < fc_max_flows cfg \<Longrightarrow>
      int (pending_count c now (evict_locked cfg c now s)) =
        min (int (pending_count c now s)) (fc_max_flows cfg - 1)"
    using * assms evicts_refl by (auto simp: evict_locked_def)
qed

subsection \<open>What each operation does\<close>

text \<open>The entry \<open>flow_insert\<close> stores.\<close>

definition new_entry :: "flow_config \<Rightarrow> flow \<Rightarrow> flow_store \<Rightarrow> flow_entry" where
  "new_entry cfg f s =
     \<lparr>en_flow = f\<lparr>fl_consumed_at := 0, fl_revision := format_uint (fs_revision s + 1)\<rparr>,
      en_sequence = fs_sequence s + 1,
      en_state_key = (if sc_state (fl_secrets f) \<noteq> [] then fc_hash cfg (sc_state (fl_secrets f)) else []),
      en_indexed = (sc_state (fl_secrets f) \<noteq> [])\<rparr>"

lemma insert_effect [flow_simps]:
  "stored (flow_insert cfg f s) = (stored s)(fl_id f \<mapsto> new_entry cfg f s)"
  "fs_states (flow_insert cfg f s) =
     (if sc_state (fl_secrets f) \<noteq> []
      then (fs_states s)(fc_hash cfg (sc_state (fl_secrets f)) \<mapsto> fl_id f) else fs_states s)"
  "fs_revision (flow_insert cfg f s) = fs_revision s + 1"
  "distinct (map fst (fs_flows s)) \<Longrightarrow> distinct (map fst (fs_flows (flow_insert cfg f s)))"
  by (simp_all add: flow_insert_def next_flow_revision_def new_entry_def Let_def put_entry_def
      update_conv' distinct_update)

lemma new_entry_simps [simp]:
  "fl_id (en_flow (new_entry cfg f s)) = fl_id f"
  "fl_caller (en_flow (new_entry cfg f s)) = fl_caller f"
  "fl_secrets (en_flow (new_entry cfg f s)) = fl_secrets f"
  "en_indexed (new_entry cfg f s) \<longleftrightarrow> sc_state (fl_secrets f) \<noteq> []"
  "\<not> flow_consumed (en_flow (new_entry cfg f s))"
  "flow_expired (en_flow (new_entry cfg f s)) t = flow_expired f t"
  "fl_revision (en_flow (new_entry cfg f s)) = format_uint (fs_revision s + 1)"
  by (simp_all add: new_entry_def flow_consumed_def is_zero_time_def flow_expired_def)

lemma new_entry_key [simp]:
  "sc_state (fl_secrets f) \<noteq> [] \<Longrightarrow>
     en_state_key (new_entry cfg f s) = fc_hash cfg (sc_state (fl_secrets f))"
  by (simp add: new_entry_def)

lemma flow_inv_insert:
  assumes inv: "flow_inv cfg s" and id: "\<not> blank (fl_id f)" and new: "stored s (fl_id f) = None"
    and state: "sc_state (fl_secrets f) \<noteq> [] \<Longrightarrow> fs_states s (fc_hash cfg (sc_state (fl_secrets f))) = None"
  shows "flow_inv cfg (flow_insert cfg f s)"
proof -
  let ?s = "flow_insert cfg f s"
  have "entry_inv cfg ?s fid x" if "stored ?s fid = Some x" for fid x
  proof (cases "fid = fl_id f")
    case True
    with that id show ?thesis by (auto simp: flow_simps entry_inv_def)
  next
    case False
    with that have "stored s fid = Some x" by (simp add: flow_simps)
    with flow_invD(2) [OF inv this] state False show ?thesis
      by (auto simp: flow_simps entry_inv_def)
  qed
  moreover have "\<exists>x. stored ?s fid = Some x \<and> en_indexed x \<and> en_state_key x = k"
    if "fs_states ?s k = Some fid" for k fid
    using that flow_inv_index [OF inv, of k fid] new
    by (auto simp: flow_simps split: if_splits)
  moreover have "distinct (map fst (fs_flows ?s))"
    using inv by (simp add: flow_simps flow_inv_def)
  ultimately show ?thesis
    by (simp add: flow_inv_def)
qed

text \<open>A creation refuses after letting time pass, or stores the flow after making room for it.\<close>

definition create_effect ::
    "flow_config \<Rightarrow> gtime \<Rightarrow> gtime \<Rightarrow> flow \<Rightarrow> flow_store \<Rightarrow> flow_store \<Rightarrow> flow_store \<Rightarrow> bool" where
  "create_effect cfg now now' f s s1 s' \<longleftrightarrow>
     settles cfg now s s1 \<and> stored s1 (fl_id f) = None \<and> \<not> blank (fl_id f) \<and>
     (sc_state (fl_secrets f) \<noteq> [] \<longrightarrow> fs_states s1 (fc_hash cfg (sc_state (fl_secrets f))) = None) \<and>
     s' = flow_insert cfg f (evict_locked cfg (fl_caller f) now' s1)"

lemma create_cases:
  assumes "flow_inv cfg s" and "flow_create cfg None now now' f s = (r, s')"
  obtains (refused) err where "r = Some err" and "settles cfg now s s'"
    | (created) s1 where "r = None" and "s1 = purge_locked cfg now s" and "create_effect cfg now now' f s s1 s'"
proof -
  note settle = purge_effect(1) [OF assms(1), of now]
  show ?thesis
    using assms(2) settle settles_refl [of cfg now s] refused created [of "purge_locked cfg now s"]
    by (auto simp: flow_create_def create_effect_def Let_def split: option.splits if_splits)
qed

lemma evicted_index:
  assumes "flow_inv cfg s" and "fs_states s k = None"
  shows "fs_states (evict_locked cfg c now s) k = None"
proof (cases "fs_states (evict_locked cfg c now s) k")
  case (Some fid)
  then obtain e where "stored (evict_locked cfg c now s) fid = Some e" "en_indexed e" "en_state_key e = k"
    using flow_inv_index [OF evict_effect(1) [OF assms(1)]] by blast
  then have "stored s fid = Some e"
    using evict_effect(2) [OF assms(1), of c now] by (auto simp: evicts_def)
  with assms flow_inv_index [OF assms(1), of k fid] \<open>en_indexed e\<close> \<open>en_state_key e = k\<close> show ?thesis
    by simp
qed

lemma create_effect_room:
  assumes "flow_inv cfg s" and "create_effect cfg now now' f s s1 s'"
  shows "flow_inv cfg s1" and "stored (evict_locked cfg (fl_caller f) now' s1) (fl_id f) = None"
    and "flow_inv cfg s'"
proof -
  let ?s2 = "evict_locked cfg (fl_caller f) now' s1"
  show inv: "flow_inv cfg s1"
    using assms settles_inv by (auto simp: create_effect_def)
  show room: "stored ?s2 (fl_id f) = None"
  proof (cases "stored ?s2 (fl_id f)")
    case (Some e)
    then have "stored s1 (fl_id f) = Some e"
      using evict_effect(2) [OF inv, of "fl_caller f" now'] by (simp add: evicts_def)
    with assms(2) show ?thesis by (simp add: create_effect_def)
  qed
  show "flow_inv cfg s'"
    using assms(2) flow_inv_insert [OF evict_effect(1) [OF inv], of f "fl_caller f" now', OF _ room]
      evicted_index [OF inv, of "fc_hash cfg (sc_state (fl_secrets f))" "fl_caller f" now']
    by (simp add: create_effect_def)
qed

end
