(* ===== verification/Flow_Safety.thy ===== *)
theory Flow_Safety
  imports Flow_Store
begin

text \<open>
  What the memory store of OAuth flows guarantees, whatever operations its users interleave: the
  effect of every operation, the runs of operations as lists of steps, and the properties of
  \<^verbatim>\<open>oauthflow/store.go\<close>'s contract (an owner's flows are invisible to others, a flow is consumed at
  most once, no secret outlives its flow, an update never overwrites another's).
\<close>

subsection \<open>Effects of the operations\<close>

lemma get_cases:
  assumes "flow_inv cfg s" and "flow_get cfg None now c fid s = (r, s')"
  obtains (failed) err where "r = Inl err" and "settles cfg now s s'"
    | (found) e where "r = Inr (en_flow e)" and "s' = s" and "stored s fid = Some e"
        and "fl_caller (en_flow e) = c" and "\<not> flow_expired (en_flow e) now"
proof (cases "owned_locked cfg now c fid s")
  case (Pair x s1)
  have settle: "settles cfg now s s1"
    using owned_settles [OF assms(1), of now c fid] Pair by simp
  show ?thesis
  proof (cases x)
    case (Inl err)
    with Pair assms(2) settle show ?thesis by (intro failed [of err]) (auto simp: flow_get_def)
  next
    case (Inr e)
    with Pair assms(2) owned_InrD [of cfg now c fid s e s1] show ?thesis
      by (intro found [of e]) (auto simp: flow_get_def)
  qed
qed

definition consumed_flow :: "gtime \<Rightarrow> flow_store \<Rightarrow> flow_entry \<Rightarrow> flow" where
  "consumed_flow now' s e =
     (en_flow e)\<lparr>fl_consumed_at := now', fl_revision := format_uint (fs_revision s + 1)\<rparr>"

lemma consumed_flow_simps [simp]:
  "fl_id (consumed_flow now' s e) = fl_id (en_flow e)"
  "fl_caller (consumed_flow now' s e) = fl_caller (en_flow e)"
  "fl_secrets (consumed_flow now' s e) = fl_secrets (en_flow e)"
  "fl_revision (consumed_flow now' s e) = format_uint (fs_revision s + 1)"
  "flow_consumed (consumed_flow now' s e) \<longleftrightarrow> now' \<noteq> 0"
  "flow_expired (consumed_flow now' s e) t = flow_expired (en_flow e) t"
  by (simp_all add: consumed_flow_def flow_consumed_def is_zero_time_def flow_expired_def)

definition consumed_entry :: "gtime \<Rightarrow> flow_store \<Rightarrow> flow_entry \<Rightarrow> flow_entry" where
  "consumed_entry now' s e =
     e\<lparr>en_indexed := False, en_flow := (consumed_flow now' s e)\<lparr>fl_secrets := no_secrets\<rparr>\<rparr>"

lemma consumed_entry_simps [simp]:
  "fl_id (en_flow (consumed_entry now' s e)) = fl_id (en_flow e)"
  "fl_caller (en_flow (consumed_entry now' s e)) = fl_caller (en_flow e)"
  "fl_secrets (en_flow (consumed_entry now' s e)) = no_secrets"
  "fl_revision (en_flow (consumed_entry now' s e)) = format_uint (fs_revision s + 1)"
  "\<not> en_indexed (consumed_entry now' s e)"
  "flow_consumed (en_flow (consumed_entry now' s e)) \<longleftrightarrow> now' \<noteq> 0"
  by (simp_all add: consumed_entry_def consumed_flow_def flow_consumed_def is_zero_time_def)

definition consume_effect :: "flow_config \<Rightarrow> gtime \<Rightarrow> flow_store \<Rightarrow> flow_entry \<Rightarrow> flow_store \<Rightarrow> bool" where
  "consume_effect cfg now' s e s' \<longleftrightarrow>
     fs_flows s' = AList.update (fl_id (en_flow e)) (consumed_entry now' s e) (fs_flows s) \<and>
     fs_states s' = (if en_indexed e then (fs_states s)(en_state_key e := None) else fs_states s) \<and>
     fs_revision s' = fs_revision s + 1"

lemma consume_effect_stored:
  "consume_effect cfg now' s e s' \<Longrightarrow>
     stored s' = (stored s)(fl_id (en_flow e) \<mapsto> consumed_entry now' s e)"
  by (simp add: consume_effect_def update_conv')

lemma consume_cases:
  assumes "flow_inv cfg s" and "flow_consume cfg None now now' c fid s = (r, s')"
  obtains (failed) err where "r = Inl err" and "settles cfg now s s'"
    | (consumed) e where "r = Inr (consumed_flow now' s e)" and "stored s fid = Some e"
        and "fl_caller (en_flow e) = c" and "\<not> flow_expired (en_flow e) now"
        and "\<not> flow_consumed (en_flow e)" and "consume_effect cfg now' s e s'"
proof (cases "owned_locked cfg now c fid s")
  case (Pair x s1)
  have settle: "settles cfg now s s1"
    using owned_settles [OF assms(1), of now c fid] Pair by simp
  show ?thesis
  proof (cases x)
    case (Inl err)
    with Pair assms(2) settle show ?thesis by (intro failed [of err]) (auto simp: flow_consume_def)
  next
    case (Inr e)
    note e = owned_InrD [of cfg now c fid s e s1, OF Pair [unfolded Inr]]
    show ?thesis
    proof (cases "flow_consumed (en_flow e)")
      case True
      with Pair Inr assms(2) settle show ?thesis
        by (intro failed) (auto simp: flow_consume_def)
    next
      case False
      with Pair Inr e(1) assms(2) have r: "r = Inr (consumed_flow now' s e)"
        and s': "consume_effect cfg now' s e s'"
        by (cases e; auto simp: flow_consume_def next_flow_revision_def consumed_flow_def consume_effect_def
            consumed_entry_def unindex_locked_def put_entry_def Let_def split: if_splits)+
      from consumed [OF r e(2,3,4) False s'] show ?thesis .
    qed
  qed
qed

definition updated_flow :: "flow_store \<Rightarrow> flow \<Rightarrow> flow \<Rightarrow> flow" where
  "updated_flow s f old = old\<lparr>fl_progress := fl_progress f, fl_revision := format_uint (fs_revision s + 1)\<rparr>"

lemma updated_flow_simps [simp]:
  "fl_id (updated_flow s f old) = fl_id old"
  "fl_caller (updated_flow s f old) = fl_caller old"
  "fl_secrets (updated_flow s f old) = fl_secrets old"
  "fl_revision (updated_flow s f old) = format_uint (fs_revision s + 1)"
  "fl_progress (updated_flow s f old) = fl_progress f"
  "flow_consumed (updated_flow s f old) = flow_consumed old"
  "flow_expired (updated_flow s f old) t = flow_expired old t"
  by (simp_all add: updated_flow_def flow_consumed_def is_zero_time_def flow_expired_def)

lemma update_cases:
  assumes "flow_inv cfg s" and "flow_update cfg None now c f s = (r, s')"
  obtains (failed) err where "r = Inl err" and "settles cfg now s s'"
    | (updated) e where "r = Inr (updated_flow s f (en_flow e))" and "stored s (fl_id f) = Some e"
        and "fl_caller (en_flow e) = c" and "\<not> flow_expired (en_flow e) now"
        and "fl_revision (en_flow e) = fl_revision f"
        and "s' = put_entry (e\<lparr>en_flow := updated_flow s f (en_flow e)\<rparr>) (s\<lparr>fs_revision := fs_revision s + 1\<rparr>)"
proof (cases "owned_locked cfg now c (fl_id f) s")
  case (Pair x s1)
  have settle: "settles cfg now s s1"
    using owned_settles [OF assms(1), of now c "fl_id f"] Pair by simp
  show ?thesis
  proof (cases x)
    case (Inl err)
    with Pair assms(2) settle show ?thesis by (intro failed [of err]) (auto simp: flow_update_def)
  next
    case (Inr e)
    note e = owned_InrD [of cfg now c "fl_id f" s e s1, OF Pair [unfolded Inr]]
    show ?thesis
    proof (cases "fl_revision (en_flow e) = fl_revision f")
      case False
      with Pair Inr assms(2) settle show ?thesis
        by (intro failed) (auto simp: flow_update_def)
    next
      case True
      with Pair Inr e(1) assms(2) have "r = Inr (updated_flow s f (en_flow e))"
        and "s' = put_entry (e\<lparr>en_flow := updated_flow s f (en_flow e)\<rparr>) (s\<lparr>fs_revision := fs_revision s + 1\<rparr>)"
        by (auto simp: flow_update_def next_flow_revision_def updated_flow_def Let_def)
      from updated [OF this(1) e(2,3,4) True this(2)] show ?thesis .
    qed
  qed
qed

lemma resolve_cases:
  assumes "flow_inv cfg s" and "flow_resolve_state cfg None now state s = (r, s')"
  obtains (failed) err where "r = Inl err" and "settles cfg now s s'"
    | (resolved) e where "r = Inr (fl_caller (en_flow e), fl_id (en_flow e))" and "s' = s"
        and "state \<noteq> []" and "stored s (fl_id (en_flow e)) = Some e" and "en_indexed e"
        and "en_state_key e = fc_hash cfg state" and "\<not> flow_expired (en_flow e) now"
proof -
  let ?fid = "case fs_states s (fc_hash cfg state) of None \<Rightarrow> [] | Some fid \<Rightarrow> fid"
  show ?thesis
  proof (cases "state = [] \<or> stored s ?fid = None \<or> \<not> en_indexed (the (stored s ?fid))")
    case True
    with assms(2) have "\<exists>err. r = Inl err \<and> s' = s"
      by (auto simp: flow_resolve_state_def split: option.splits if_splits)
    with failed settles_refl show ?thesis by blast
  next
    case False
    then obtain e where st: "stored s ?fid = Some e" and ix: "en_indexed e" and ne: "state \<noteq> []"
      by auto
    have "entry_inv cfg s [] e \<Longrightarrow> False"
      by (simp add: entry_inv_def)
    with st flow_invD(2) [OF assms(1)] obtain fid where fid: "fs_states s (fc_hash cfg state) = Some fid"
      by (cases "fs_states s (fc_hash cfg state)") auto
    with st flow_inv_index [OF assms(1), of "fc_hash cfg state" fid]
    have key: "en_state_key e = fc_hash cfg state" and st': "stored s fid = Some e" by auto
    have own: "fl_id (en_flow e) = fid"
      using flow_invD(1) [OF assms(1) st'] .
    show ?thesis
    proof (cases "owned_locked cfg now (fl_caller (en_flow e)) (fl_id (en_flow e)) s")
      case (Pair x s1)
      have settle: "settles cfg now s s1"
        using owned_settles [OF assms(1), of now "fl_caller (en_flow e)" "fl_id (en_flow e)"] Pair by simp
      have r: "flow_resolve_state cfg None now state s =
          (case x of Inl err \<Rightarrow> Inl err | Inr _ \<Rightarrow> Inr (fl_caller (en_flow e), fl_id (en_flow e)), s1)"
        using ne st ix Pair by (simp add: flow_resolve_state_def split: sum.split)
      show ?thesis
      proof (cases x)
        case (Inl err)
        with r assms(2) settle show ?thesis by (intro failed [of err]) auto
      next
        case (Inr e')
        note owned = owned_InrD [OF Pair [unfolded Inr]]
        with r Inr assms(2) ne ix key st' own show ?thesis
          by (intro resolved [of e]) auto
      qed
    qed
  qed
qed

subsection \<open>Runs of operations\<close>

text \<open>An operation with its readings of the clock, and what it answered.\<close>

datatype flow_op =
    CreateOp gtime gtime flow
  | GetOp gtime caller string
  | ConsumeOp gtime gtime caller string
  | UpdateOp gtime caller flow
  | ResolveOp gtime string

datatype flow_answer = AnsErr go_err | AnsCreated | AnsFlow flow | AnsOwner caller string

definition answer_of :: "('a \<Rightarrow> flow_answer) \<Rightarrow> (go_err + 'a) \<times> flow_store \<Rightarrow> flow_answer \<times> flow_store" where
  "answer_of g res = (case res of (Inl err, s) \<Rightarrow> (AnsErr err, s) | (Inr x, s) \<Rightarrow> (g x, s))"

fun flow_perform :: "flow_config \<Rightarrow> flow_op \<Rightarrow> flow_store \<Rightarrow> flow_answer \<times> flow_store" where
  "flow_perform cfg (CreateOp now now' f) s =
     (case flow_create cfg None now now' f s of
        (None, s') \<Rightarrow> (AnsCreated, s') | (Some err, s') \<Rightarrow> (AnsErr err, s'))"
| "flow_perform cfg (GetOp now c fid) s = answer_of AnsFlow (flow_get cfg None now c fid s)"
| "flow_perform cfg (ConsumeOp now now' c fid) s = answer_of AnsFlow (flow_consume cfg None now now' c fid s)"
| "flow_perform cfg (UpdateOp now c f) s = answer_of AnsFlow (flow_update cfg None now c f s)"
| "flow_perform cfg (ResolveOp now state) s =
     answer_of (\<lambda>(c, fid). AnsOwner c fid) (flow_resolve_state cfg None now state s)"

fun flow_run :: "flow_config \<Rightarrow> flow_op list \<Rightarrow> flow_store \<Rightarrow> (flow_op \<times> flow_answer) list \<times> flow_store" where
  "flow_run cfg [] s = ([], s)"
| "flow_run cfg (op # ops) s =
     (case flow_perform cfg op s of
        (a, s1) \<Rightarrow> (case flow_run cfg ops s1 of (log, s2) \<Rightarrow> ((op, a) # log, s2)))"

text \<open>The ways a step can change the store.\<close>

inductive flow_step :: "flow_config \<Rightarrow> flow_store \<Rightarrow> flow_op \<Rightarrow> flow_answer \<Rightarrow> flow_store \<Rightarrow> bool" for cfg s where
  step_settle: "settles cfg now s s' \<Longrightarrow> (\<And>f. a = AnsFlow f \<Longrightarrow> \<exists>now c fid. op = GetOp now c fid) \<Longrightarrow>
    a \<noteq> AnsCreated \<Longrightarrow> flow_step cfg s op a s'"
| step_create: "create_effect cfg now now' f s s1 s' \<Longrightarrow> s1 = purge_locked cfg now s \<Longrightarrow>
    flow_step cfg s (CreateOp now now' f) AnsCreated s'"
| step_consume: "stored s fid = Some e \<Longrightarrow> fl_caller (en_flow e) = c \<Longrightarrow> \<not> flow_expired (en_flow e) now \<Longrightarrow>
    \<not> flow_consumed (en_flow e) \<Longrightarrow> consume_effect cfg now' s e s' \<Longrightarrow>
    flow_step cfg s (ConsumeOp now now' c fid) (AnsFlow (consumed_flow now' s e)) s'"
| step_update: "stored s (fl_id f) = Some e \<Longrightarrow> fl_caller (en_flow e) = c \<Longrightarrow>
    \<not> flow_expired (en_flow e) now \<Longrightarrow> fl_revision (en_flow e) = fl_revision f \<Longrightarrow>
    s' = put_entry (e\<lparr>en_flow := updated_flow s f (en_flow e)\<rparr>) (s\<lparr>fs_revision := fs_revision s + 1\<rparr>) \<Longrightarrow>
    flow_step cfg s (UpdateOp now c f) (AnsFlow (updated_flow s f (en_flow e))) s'"

lemma perform_step:
  assumes "flow_inv cfg s" and "flow_perform cfg op s = (a, s')"
  shows "flow_step cfg s op a s'"
proof (cases op)
  case (CreateOp now now' f)
  obtain r where r: "flow_create cfg None now now' f s = (r, s')"
    using assms(2) CreateOp by (auto split: prod.splits option.splits)
  from assms(1) r show ?thesis
  proof (cases rule: create_cases)
    case (refused err)
    with CreateOp assms(2) r show ?thesis by (auto intro: step_settle)
  next
    case (created s1)
    with CreateOp assms(2) r show ?thesis by (auto intro: step_create)
  qed
next
  case (GetOp now c fid)
  obtain r where r: "flow_get cfg None now c fid s = (r, s')"
    using assms(2) GetOp by (auto simp: answer_of_def split: prod.splits sum.splits)
  from assms(1) r show ?thesis
    using GetOp assms(2) r settles_refl [of cfg now s]
    by (cases rule: get_cases) (auto simp: answer_of_def intro: step_settle)
next
  case (ConsumeOp now now' c fid)
  obtain r where r: "flow_consume cfg None now now' c fid s = (r, s')"
    using assms(2) ConsumeOp by (auto simp: answer_of_def split: prod.splits sum.splits)
  from assms(1) r show ?thesis
    using ConsumeOp assms(2) r
    by (cases rule: consume_cases) (auto simp: answer_of_def intro: step_settle step_consume)
next
  case (UpdateOp now c f)
  obtain r where r: "flow_update cfg None now c f s = (r, s')"
    using assms(2) UpdateOp by (auto simp: answer_of_def split: prod.splits sum.splits)
  from assms(1) r show ?thesis
  proof (cases rule: update_cases)
    case (failed err)
    with UpdateOp assms(2) r show ?thesis by (auto simp: answer_of_def intro: step_settle)
  next
    case (updated e)
    from step_update [OF updated(2-6), of cfg] UpdateOp assms(2) r updated(1) show ?thesis
      by (simp add: answer_of_def)
  qed
next
  case (ResolveOp now state)
  obtain r where r: "flow_resolve_state cfg None now state s = (r, s')"
    using assms(2) ResolveOp by (auto simp: answer_of_def split: prod.splits sum.splits)
  from assms(1) r show ?thesis
    using ResolveOp assms(2) r settles_refl [of cfg now s]
    by (cases rule: resolve_cases) (auto simp: answer_of_def intro: step_settle)
qed

lemma consume_effect_inv:
  assumes inv: "flow_inv cfg s" and e: "stored s (fl_id (en_flow e)) = Some e"
    and eff: "consume_effect cfg now' s e s'"
  shows "flow_inv cfg s'"
proof -
  note st = consume_effect_stored [OF eff]
  have states: "fs_states s' = (if en_indexed e then (fs_states s)(en_state_key e := None) else fs_states s)"
    and flows: "fs_flows s' = AList.update (fl_id (en_flow e)) (consumed_entry now' s e) (fs_flows s)"
    using eff by (auto simp: consume_effect_def)
  have "entry_inv cfg s' fid x" if x: "stored s' fid = Some x" for fid x
  proof (cases "fid = fl_id (en_flow e)")
    case True
    with x st flow_invD(2) [OF inv e] show ?thesis
      by (auto simp: entry_inv_def)
  next
    case False
    with x st have s: "stored s fid = Some x" by simp
    then have "\<not> (en_indexed x \<and> en_indexed e \<and> en_state_key x = en_state_key e)"
      using indexed_once [OF inv s e] False by blast
    with flow_invD(2) [OF inv s] states show ?thesis
      by (auto simp: entry_inv_def)
  qed
  moreover have "\<exists>x. stored s' fid = Some x \<and> en_indexed x \<and> en_state_key x = k"
    if "fs_states s' k = Some fid" for k fid
    using that flow_inv_index [OF inv, of k fid] e states st
    by (cases "fid = fl_id (en_flow e)") (auto split: if_splits)
  moreover have "distinct (map fst (fs_flows s'))"
    using inv flows by (simp add: flow_inv_def distinct_update)
  ultimately show ?thesis
    by (simp add: flow_inv_def)
qed

lemma step_inv:
  assumes "flow_inv cfg s" and "flow_step cfg s op a s'"
  shows "flow_inv cfg s'"
  using assms(2)
proof cases
  case (step_settle now)
  with assms(1) settles_inv show ?thesis by blast
next
  case (step_create now now' f s1)
  with assms(1) create_effect_room(3) show ?thesis by blast
next
  case (step_consume fid e c now now')
  have "stored s (fl_id (en_flow e)) = Some e"
    using step_consume flow_invD(1) [OF assms(1)] by simp
  with assms(1) step_consume show ?thesis
    using consume_effect_inv by blast
next
  case (step_update f e c now)
  let ?s = "s\<lparr>fs_revision := fs_revision s + 1\<rparr>"
  have "fl_id (en_flow e) = fl_id f"
    using step_update flow_invD(1) [OF assms(1)] by blast
  moreover have "flow_inv cfg ?s"
    using assms(1) flow_inv_cong [of s ?s] by simp
  ultimately show ?thesis
    using step_update flow_inv_put [of cfg ?s "e\<lparr>en_flow := updated_flow s f (en_flow e)\<rparr>" e] by simp
qed

lemma perform_inv: "flow_inv cfg s \<Longrightarrow> flow_perform cfg op s = (a, s') \<Longrightarrow> flow_inv cfg s'"
  using perform_step step_inv by blast

lemma run_inv: "flow_inv cfg s \<Longrightarrow> flow_inv cfg (snd (flow_run cfg ops s))"
proof (induction ops arbitrary: s)
  case Nil
  then show ?case by simp
next
  case (Cons op ops)
  from Cons.IH perform_inv [OF Cons.prems] show ?case
    by (cases "flow_perform cfg op s") (simp split: prod.split, metis snd_conv)
qed

subsection \<open>Single use\<close>

text \<open>
  What the users of a store of single-use items rely on: an operation that spends an item finds it
  open and leaves it closed, and only an operation that mints it opens it.
\<close>

locale single_use =
  fixes perform :: "'op \<Rightarrow> 's \<Rightarrow> 'a \<times> 's"
    and ok :: "'s \<Rightarrow> bool"
    and admits :: "'op \<Rightarrow> bool"
    and mints :: "'op \<Rightarrow> 'a \<Rightarrow> bool"
    and spends :: "'op \<Rightarrow> 'a \<Rightarrow> nat"
    and is_open :: "'s \<Rightarrow> bool"
  assumes ok_perform: "ok s \<Longrightarrow> admits op \<Longrightarrow> perform op s = (a, s') \<Longrightarrow> ok s'"
    and spend_closes: "ok s \<Longrightarrow> admits op \<Longrightarrow> perform op s = (a, s') \<Longrightarrow>
      spends op a + (if is_open s' then 1 else 0) \<le> (if is_open s then 1 else 0) + (if mints op a then 1 else 0)"
begin

fun performs :: "'op list \<Rightarrow> 's \<Rightarrow> ('op \<times> 'a) list \<times> 's" where
  "performs [] s = ([], s)"
| "performs (op # ops) s =
     (case perform op s of (a, s1) \<Rightarrow> (case performs ops s1 of (log, s2) \<Rightarrow> ((op, a) # log, s2)))"

definition spent :: "('op \<times> 'a) list \<Rightarrow> nat" where
  "spent log = sum_list (map (\<lambda>(op, a). spends op a) log)"

definition minted :: "('op \<times> 'a) list \<Rightarrow> nat" where
  "minted log = length (filter (\<lambda>(op, a). mints op a) log)"

lemma ok_performs: "ok s \<Longrightarrow> list_all admits ops \<Longrightarrow> ok (snd (performs ops s))"
proof (induction ops arbitrary: s)
  case Nil
  then show ?case by simp
next
  case (Cons op ops)
  obtain a s1 where p: "perform op s = (a, s1)" by (cases "perform op s")
  from Cons.prems p have "ok s1" using ok_perform [of s op a s1] by simp
  from Cons.IH [OF this] Cons.prems p show ?case
    by (cases "performs ops s1") simp
qed

lemma spent_at_most_minted:
  "ok s \<Longrightarrow> list_all admits ops \<Longrightarrow> performs ops s = (log, s') \<Longrightarrow>
     spent log + (if is_open s' then 1 else 0) \<le> (if is_open s then 1 else 0) + minted log"
proof (induction ops arbitrary: s log)
  case Nil
  then show ?case by (simp add: spent_def minted_def)
next
  case (Cons op ops)
  obtain a s1 where p: "perform op s = (a, s1)" by (cases "perform op s")
  obtain log' where q: "performs ops s1 = (log', s')" "log = (op, a) # log'"
    using Cons.prems(3) p by (auto split: prod.splits)
  from Cons.prems p have "ok s1" using ok_perform [of s op a s1] by simp
  from Cons.IH [OF this _ q(1)] Cons.prems(2) spend_closes [of s op a s1] Cons.prems(1) p q(2) show ?case
    by (simp add: spent_def minted_def split: if_splits)
qed

end

text \<open>For the memory store: a pending flow is open, creating mints it and consuming spends it.\<close>

definition pending :: "string \<Rightarrow> flow_store \<Rightarrow> bool" where
  "pending fid s = (case stored s fid of None \<Rightarrow> False | Some e \<Rightarrow> \<not> flow_consumed (en_flow e))"

fun consumes :: "string \<Rightarrow> flow_op \<Rightarrow> flow_answer \<Rightarrow> bool" where
  "consumes fid (ConsumeOp now now' c i) (AnsFlow f) = (i = fid)"
| "consumes fid op a = False"

fun creates :: "string \<Rightarrow> flow_op \<Rightarrow> flow_answer \<Rightarrow> bool" where
  "creates fid (CreateOp now now' f) AnsCreated = (fl_id f = fid)"
| "creates fid op a = False"

text \<open>A clock that never reads the zero time when a flow is stamped.\<close>

fun stamped :: "flow_op \<Rightarrow> bool" where
  "stamped (ConsumeOp now now' c fid) = (now' \<noteq> 0)"
| "stamped op = True"

lemma pending_settles: "settles cfg now s s' \<Longrightarrow> pending fid s' \<Longrightarrow> pending fid s"
  using settles_stored [of cfg now s s' fid]
  by (auto simp: pending_def split: option.splits)

lemma pending_create:
  assumes "flow_inv cfg s" and "create_effect cfg now now' f s s1 s'" and "pending fid s'" and "fid \<noteq> fl_id f"
  shows "pending fid s"
proof -
  let ?s2 = "evict_locked cfg (fl_caller f) now' s1"
  have "pending fid ?s2"
    using assms by (simp add: pending_def create_effect_def flow_simps)
  moreover have "evicts (fl_caller f) now' s1 ?s2"
    using evict_effect(2) create_effect_room(1) [OF assms(1,2)] by blast
  ultimately have "pending fid s1"
    by (auto simp: pending_def evicts_def split: option.splits)
  with assms(2) pending_settles show ?thesis
    by (auto simp: create_effect_def)
qed

lemma step_spends:
  assumes "flow_inv cfg s" and "stamped op" and "flow_step cfg s op a s'"
  shows "(if consumes fid op a then 1 else 0) + (if pending fid s' then 1 else 0) \<le>
    (if pending fid s then 1 else 0) + (if creates fid op a then 1 else (0 :: nat))"
  using assms(3)
proof cases
  case (step_settle now)
  then have "\<not> consumes fid op a"
    by (cases op; cases a) auto
  with step_settle pending_settles [of cfg now s s' fid] show ?thesis by auto
next
  case (step_create now now' f s1)
  with pending_create [OF assms(1) step_create(3), of fid] show ?thesis
    by (cases "fl_id f = fid") auto
next
  case (step_consume i e c now now')
  have "fl_id (en_flow e) = i" using flow_invD(1) [OF assms(1)] step_consume by blast
  with step_consume consume_effect_stored [OF step_consume(7)] assms(2) show ?thesis
    by (auto simp: pending_def)
next
  case (step_update f e c now)
  have "fl_id (en_flow e) = fl_id f" using flow_invD(1) [OF assms(1)] step_update by blast
  with step_update have "pending fid s' = pending fid s"
    by (simp add: pending_def flow_simps)
  with step_update show ?thesis by simp
qed

interpretation flows: single_use "flow_perform cfg" "flow_inv cfg" stamped "creates fid"
    "\<lambda>op a. if consumes fid op a then 1 else 0" "pending fid"
  for cfg fid
proof
  fix s op a s'
  assume s: "flow_inv cfg s" and op: "stamped op" and p: "flow_perform cfg op s = (a, s')"
  show "flow_inv cfg s'" using s p by (rule perform_inv)
  show "(if consumes fid op a then 1 else 0) + (if pending fid s' then 1 else 0) \<le>
      (if pending fid s then 1 else 0) + (if creates fid op a then 1 else (0 :: nat))"
    using s op perform_step [OF s p] by (rule step_spends)
qed

lemma performs_run: "flows.performs cfg ops s = flow_run cfg ops s"
  by (induction ops arbitrary: s) (auto split: prod.splits)

lemma spent_consumes: "flows.spent fid log = length (filter (\<lambda>(op, a). consumes fid op a) log)"
  by (induction log) (auto simp: flows.spent_def)

subsection \<open>Revisions\<close>

text \<open>
  The flow stored under an id is still the one read, its secrets perhaps wiped, or it was written
  since, under a later revision.
\<close>

definition same_or_later :: "flow \<Rightarrow> u64 \<Rightarrow> flow_store \<Rightarrow> bool" where
  "same_or_later f r s \<longleftrightarrow>
     unat r \<le> unat (fs_revision s) \<and>
     (\<forall>e. stored s (fl_id f) = Some e \<longrightarrow>
        en_flow e = f \<or> en_flow e = f\<lparr>fl_secrets := no_secrets\<rparr> \<or>
        (\<exists>q. fl_revision (en_flow e) = format_uint q \<and> unat r < unat q))"

lemma same_or_later_settles:
  assumes "settles cfg now s s'" and "same_or_later f r s"
  shows "same_or_later f r s'"
proof -
  have "en_flow e' = f \<or> en_flow e' = f\<lparr>fl_secrets := no_secrets\<rparr> \<or>
      (\<exists>q. fl_revision (en_flow e') = format_uint q \<and> unat r < unat q)"
    if e': "stored s' (fl_id f) = Some e'" for e'
  proof -
    obtain e where e: "stored s (fl_id f) = Some e" "e' = e \<or> e' = expire_locked e"
      using settles_stored [OF assms(1) e'] by blast
    have "en_flow e = f \<or> en_flow e = f\<lparr>fl_secrets := no_secrets\<rparr> \<or>
        (\<exists>q. fl_revision (en_flow e) = format_uint q \<and> unat r < unat q)"
      using assms(2) e(1) by (simp add: same_or_later_def)
    with e(2) show ?thesis
      by (auto simp: expire_locked_def)
  qed
  with assms(2) settles_revision [OF assms(1)] show ?thesis
    by (simp add: same_or_later_def)
qed

lemma same_or_later_written:
  assumes "same_or_later f r s" and "unat (fs_revision s) + 1 < 2 ^ 64"
    and "fs_revision s' = fs_revision s + 1"
    and "\<And>fid. stored s' fid = (if fid = k then Some x else stored s fid)"
    and "fl_revision (en_flow x) = format_uint (fs_revision s + 1)"
  shows "same_or_later f r s'"
proof -
  have incr: "unat (fs_revision s + 1) = unat (fs_revision s) + 1"
    using assms(2) by (simp add: unat_word_ariths(1))
  have later: "unat r < unat (fs_revision s + 1)"
    using assms(1) incr by (simp add: same_or_later_def)
  show ?thesis
    unfolding same_or_later_def
  proof (intro conjI allI impI)
    show "unat r \<le> unat (fs_revision s')"
      using assms(3) later by simp
    fix e assume e: "stored s' (fl_id f) = Some e"
    show "en_flow e = f \<or> en_flow e = f\<lparr>fl_secrets := no_secrets\<rparr> \<or>
        (\<exists>q. fl_revision (en_flow e) = format_uint q \<and> unat r < unat q)"
    proof (cases "fl_id f = k")
      case True
      with e assms(4) have "e = x" by simp
      with assms(5) later show ?thesis by blast
    next
      case False
      with e assms(1,4) show ?thesis by (simp add: same_or_later_def)
    qed
  qed
qed

lemma step_same_or_later:
  assumes inv: "flow_inv cfg s" and step: "flow_step cfg s op a s'"
    and same: "same_or_later f r s" and room: "unat (fs_revision s) + 1 < 2 ^ 64"
  shows "same_or_later f r s' \<and> unat (fs_revision s') \<le> unat (fs_revision s) + 1"
  using step
proof cases
  case (step_settle now)
  with same same_or_later_settles settles_revision show ?thesis by fastforce
next
  case (step_create now now' g s1)
  let ?s2 = "evict_locked cfg (fl_caller g) now' s1"
  have s1: "same_or_later f r s1" and rev1: "fs_revision s1 = fs_revision s"
    using step_create same same_or_later_settles settles_revision by (auto simp: create_effect_def)
  have ev: "evicts (fl_caller g) now' s1 ?s2"
    using evict_effect(2) create_effect_room(1) [OF inv step_create(3)] by blast
  then have s2: "same_or_later f r ?s2"
    using s1 by (auto simp: evicts_def same_or_later_def)
  have rev2: "fs_revision ?s2 = fs_revision s"
    using ev rev1 by (simp add: evicts_def)
  have s': "s' = flow_insert cfg g ?s2"
    using step_create by (simp add: create_effect_def)
  have room2: "unat (fs_revision ?s2) + 1 < 2 ^ 64"
    using room rev2 by simp
  have "same_or_later f r s'"
    by (rule same_or_later_written [OF s2 room2, where k = "fl_id g" and x = "new_entry cfg g ?s2"])
      (simp_all add: s' flow_simps)
  moreover have "unat (fs_revision s') = unat (fs_revision s) + 1"
    using room rev2 s' by (simp add: flow_simps unat_word_ariths(1))
  ultimately show ?thesis by simp
next
  case (step_consume i e c now now')
  have rev: "fs_revision s' = fs_revision s + 1"
    using step_consume by (simp add: consume_effect_def)
  have "same_or_later f r s'"
    using consume_effect_stored [OF step_consume(7)] rev
    by (intro same_or_later_written [OF same room, where k = "fl_id (en_flow e)" and x = "consumed_entry now' s e"])
      auto
  moreover have "unat (fs_revision s') = unat (fs_revision s) + 1"
    using rev room by (simp add: unat_word_ariths(1))
  ultimately show ?thesis by simp
next
  case (step_update g e c now)
  have rev: "fs_revision s' = fs_revision s + 1"
    using step_update by (simp add: flow_simps)
  have "same_or_later f r s'"
    using step_update rev
    by (intro same_or_later_written [OF same room, where k = "fl_id (en_flow e)"
          and x = "e\<lparr>en_flow := updated_flow s g (en_flow e)\<rparr>"])
      (auto simp: flow_simps)
  moreover have "unat (fs_revision s') = unat (fs_revision s) + 1"
    using rev room by (simp add: unat_word_ariths(1))
  ultimately show ?thesis by simp
qed

lemma run_same_or_later:
  "flow_inv cfg s \<Longrightarrow> same_or_later f r s \<Longrightarrow> unat (fs_revision s) + length ops < 2 ^ 64 \<Longrightarrow>
     flow_run cfg ops s = (log, s') \<Longrightarrow> same_or_later f r s'"
proof (induction ops arbitrary: s log)
  case Nil
  then show ?case by simp
next
  case (Cons op ops)
  obtain a s1 where p: "flow_perform cfg op s = (a, s1)" by (cases "flow_perform cfg op s")
  obtain log' where q: "flow_run cfg ops s1 = (log', s')"
    using Cons.prems(4) p by (auto split: prod.splits)
  have "unat (fs_revision s) + 1 < 2 ^ 64"
    using Cons.prems(3) by simp
  from step_same_or_later [OF Cons.prems(1) perform_step [OF Cons.prems(1) p] Cons.prems(2) this]
  show ?case
    using Cons.IH [OF perform_inv [OF Cons.prems(1) p] _ _ q] Cons.prems(3) by simp
qed

text \<open>Every stored revision is one the counter has given out.\<close>

definition revisions_issued :: "flow_store \<Rightarrow> bool" where
  "revisions_issued s \<longleftrightarrow>
     (\<forall>fid e. stored s fid = Some e \<longrightarrow>
        (\<exists>q. fl_revision (en_flow e) = format_uint q \<and> unat q \<le> unat (fs_revision s)))"

lemma same_or_later_read:
  assumes "flow_inv cfg s" and "revisions_issued s" and "stored s fid = Some e"
  shows "\<exists>r. fl_revision (en_flow e) = format_uint r \<and> same_or_later (en_flow e) r s"
proof -
  obtain r where "fl_revision (en_flow e) = format_uint r" "unat r \<le> unat (fs_revision s)"
    using assms(2,3) by (auto simp: revisions_issued_def)
  with assms flow_invD(1) [OF assms(1,3)] show ?thesis
    by (auto simp: same_or_later_def)
qed

lemma issued_written:
  assumes "revisions_issued s" and "unat (fs_revision s) + 1 < 2 ^ 64"
    and "fs_revision s' = fs_revision s + 1"
    and "\<And>fid. stored s' fid = (if fid = k then Some x else stored s fid)"
    and "fl_revision (en_flow x) = format_uint (fs_revision s + 1)"
  shows "revisions_issued s'"
  unfolding revisions_issued_def
proof (intro allI impI)
  have incr: "unat (fs_revision s') = unat (fs_revision s) + 1"
    using assms(2,3) by (simp add: unat_word_ariths(1))
  fix fid e assume e: "stored s' fid = Some e"
  show "\<exists>q. fl_revision (en_flow e) = format_uint q \<and> unat q \<le> unat (fs_revision s')"
  proof (cases "fid = k")
    case True
    with e assms(3,4,5) show ?thesis by auto
  next
    case False
    with e assms(1,4) incr show ?thesis
      by (force simp: revisions_issued_def)
  qed
qed

lemma issued_settles: "settles cfg now s s' \<Longrightarrow> revisions_issued s \<Longrightarrow> revisions_issued s'"
  using settles_stored [of cfg now s s'] settles_revision [of cfg now s s']
  by (fastforce simp: revisions_issued_def)

lemma step_issued:
  assumes inv: "flow_inv cfg s" and step: "flow_step cfg s op a s'"
    and issued: "revisions_issued s" and room: "unat (fs_revision s) + 1 < 2 ^ 64"
  shows "revisions_issued s' \<and> unat (fs_revision s') \<le> unat (fs_revision s) + 1"
  using step
proof cases
  case (step_settle now)
  with issued issued_settles settles_revision show ?thesis by fastforce
next
  case (step_create now now' g s1)
  let ?s2 = "evict_locked cfg (fl_caller g) now' s1"
  have s1: "revisions_issued s1" and rev1: "fs_revision s1 = fs_revision s"
    using step_create issued issued_settles settles_revision by (auto simp: create_effect_def)
  have ev: "evicts (fl_caller g) now' s1 ?s2"
    using evict_effect(2) create_effect_room(1) [OF inv step_create(3)] by blast
  then have rev2: "fs_revision ?s2 = fs_revision s"
    and sub: "\<And>fid e. stored ?s2 fid = Some e \<Longrightarrow> stored s1 fid = Some e"
    using rev1 by (simp_all add: evicts_def)
  have s2: "revisions_issued ?s2"
    using s1 sub rev1 rev2 unfolding revisions_issued_def by metis
  have s': "s' = flow_insert cfg g ?s2"
    using step_create by (simp add: create_effect_def)
  have room2: "unat (fs_revision ?s2) + 1 < 2 ^ 64"
    using room rev2 by simp
  have "revisions_issued s'"
    by (rule issued_written [OF s2 room2, where k = "fl_id g" and x = "new_entry cfg g ?s2"])
      (simp_all add: s' flow_simps)
  moreover have "unat (fs_revision s') = unat (fs_revision s) + 1"
    using room rev2 s' by (simp add: flow_simps unat_word_ariths(1))
  ultimately show ?thesis by simp
next
  case (step_consume i e c now now')
  have rev: "fs_revision s' = fs_revision s + 1"
    using step_consume by (simp add: consume_effect_def)
  have "revisions_issued s'"
    using consume_effect_stored [OF step_consume(7)] rev
    by (intro issued_written [OF issued room, where k = "fl_id (en_flow e)" and x = "consumed_entry now' s e"]) auto
  moreover have "unat (fs_revision s') = unat (fs_revision s) + 1"
    using rev room by (simp add: unat_word_ariths(1))
  ultimately show ?thesis by simp
next
  case (step_update g e c now)
  have rev: "fs_revision s' = fs_revision s + 1"
    using step_update by (simp add: flow_simps)
  have "revisions_issued s'"
    using step_update rev
    by (intro issued_written [OF issued room, where k = "fl_id (en_flow e)"
          and x = "e\<lparr>en_flow := updated_flow s g (en_flow e)\<rparr>"])
      (auto simp: flow_simps)
  moreover have "unat (fs_revision s') = unat (fs_revision s) + 1"
    using rev room by (simp add: unat_word_ariths(1))
  ultimately show ?thesis by simp
qed

lemma run_issued:
  "flow_inv cfg s \<Longrightarrow> revisions_issued s \<Longrightarrow> unat (fs_revision s) + length ops < 2 ^ 64 \<Longrightarrow>
     flow_run cfg ops s = (log, s') \<Longrightarrow>
     flow_inv cfg s' \<and> revisions_issued s' \<and> unat (fs_revision s') \<le> unat (fs_revision s) + length ops"
proof (induction ops arbitrary: s log)
  case Nil
  then show ?case by simp
next
  case (Cons op ops)
  obtain a s1 where p: "flow_perform cfg op s = (a, s1)" by (cases "flow_perform cfg op s")
  obtain log' where q: "flow_run cfg ops s1 = (log', s')"
    using Cons.prems(4) p by (auto split: prod.splits)
  have "unat (fs_revision s) + 1 < 2 ^ 64"
    using Cons.prems(3) by simp
  from step_issued [OF Cons.prems(1) perform_step [OF Cons.prems(1) p] Cons.prems(2) this]
  show ?case
    using Cons.IH [OF perform_inv [OF Cons.prems(1) p] _ _ q] Cons.prems(3) by simp
qed

lemma run_from_new:
  assumes "flow_run cfg ops new_flow_store = (log, s)" and "length ops < 2 ^ 64"
  shows "flow_inv cfg s" and "revisions_issued s" and "unat (fs_revision s) \<le> length ops"
proof -
  have "revisions_issued new_flow_store" and "fs_revision new_flow_store = 0"
    by (simp_all add: revisions_issued_def new_flow_store_def)
  with run_issued [OF flow_inv_new _ _ assms(1)] assms(2)
  show "flow_inv cfg s" and "revisions_issued s" and "unat (fs_revision s) \<le> length ops"
    by simp_all
qed

subsection \<open>Properties\<close>

text \<open>A run to instantiate the properties at: one caller, one flow, a store that keeps one per caller.\<close>

definition demo_flow_config :: flow_config where
  "demo_flow_config = new_flow_config (\<lambda>s. s) 1 0"

definition demo_flow :: "string \<Rightarrow> flow" where
  "demo_flow fid =
     \<lparr>fl_id = fid, fl_caller = local_caller, fl_instance = ''openai'', fl_method = MethodBrowser,
      fl_created_at = 10, fl_expires_at = 1000, fl_revision = [], fl_consumed_at = 0,
      fl_authorization_url = ''https://auth'', fl_user_code = [], fl_verification_uri = [],
      fl_verification_uri_complete = [], fl_progress = no_progress,
      fl_secrets = no_secrets\<lparr>sc_verifier := ''v'', sc_state := ''st''\<rparr>\<rparr>"

definition demo_ops :: "flow_op list" where
  "demo_ops =
     [CreateOp 10 10 (demo_flow ''f1''), ConsumeOp 20 20 local_caller ''f1'', ConsumeOp 30 30 local_caller ''f1'']"

text \<open>
  C16. A flow is consumed at most once. Whatever operations any number of users interleave, the
  successful consumptions of an id never exceed its successful creations (one more if the flow was
  pending at the start); a pending flow still left at the end leaves room for one fewer.
\<close>
theorem flow_consumed_at_most_once:
  assumes "flow_inv cfg s" and "list_all stamped ops" and "flow_run cfg ops s = (log, s')"
  shows "length (filter (\<lambda>(op, a). consumes fid op a) log) + (if pending fid s' then 1 else 0) \<le>
    (if pending fid s then 1 else 0) + length (filter (\<lambda>(op, a). creates fid op a) log)"
  using flows.spent_at_most_minted [OF assms(1,2), of log s' fid] assms(3)
  by (simp add: performs_run spent_consumes flows.minted_def)

theorem flow_consumed_at_most_once_witness:
  "length (filter (\<lambda>(op, a). consumes ''f1'' op a) (fst (flow_run demo_flow_config demo_ops new_flow_store))) \<le> 1"
proof -
  have ops: "list_all stamped demo_ops"
    by (simp add: demo_ops_def)
  have c: "length (filter (\<lambda>(op, a). creates ''f1'' op a) (fst (flow_run demo_flow_config demo_ops new_flow_store))) = 1"
    by code_simp
  have p: "\<not> pending ''f1'' new_flow_store"
    by (simp add: pending_def new_flow_store_def)
  show ?thesis
    using flow_consumed_at_most_once [OF flow_inv_new ops surjective_pairing, where cfg = demo_flow_config and fid = "''f1''"]
      c p by simp
qed

text \<open>
  C38. In every state the store reaches, each flow is stored under its own id; a consumed flow keeps no
  secret and no OAuth state leads to it; and an OAuth state leads to at most one flow, by the hash the
  flow was created with.
\<close>
theorem flow_secrets_end_with_flow:
  assumes "flow_run cfg ops new_flow_store = (log, s)" and "stored s fid = Some e"
  shows "fl_id (en_flow e) = fid \<and>
    (if flow_consumed (en_flow e)
     then fl_secrets (en_flow e) = no_secrets \<and> (\<forall>k. fs_states s k \<noteq> Some fid)
     else \<forall>k. fs_states s k = Some fid \<longleftrightarrow> en_indexed e \<and> k = en_state_key e)"
proof -
  have inv: "flow_inv cfg s"
    using run_inv [OF flow_inv_new, of cfg ops] assms(1) by simp
  have index: "fs_states s k = Some fid \<longleftrightarrow> en_indexed e \<and> k = en_state_key e" for k
    using flow_inv_index [OF inv, of k fid] assms(2) by auto
  have "flow_consumed (en_flow e) \<Longrightarrow> fl_secrets (en_flow e) = no_secrets \<and> \<not> en_indexed e"
    using flow_invD(2) [OF inv assms(2)] by (simp add: entry_inv_def)
  with index flow_invD(1) [OF inv assms(2)] show ?thesis by simp
qed

theorem flow_secrets_end_with_flow_witness:
  "\<exists>e. stored (snd (flow_run demo_flow_config demo_ops new_flow_store)) ''f1'' = Some e \<and>
       flow_consumed (en_flow e) \<and> fl_secrets (en_flow e) = no_secrets"
proof -
  let ?r = "flow_run demo_flow_config demo_ops new_flow_store"
  have "(case stored (snd ?r) ''f1'' of None \<Rightarrow> False | Some e \<Rightarrow> flow_consumed (en_flow e))"
    by code_simp
  then obtain e where e: "stored (snd ?r) ''f1'' = Some e" "flow_consumed (en_flow e)"
    by (auto split: option.splits)
  from flow_secrets_end_with_flow [OF surjective_pairing e(1)] e show ?thesis
    by auto
qed

text \<open>
  Another caller's flow is a missing flow: whether a flow is pending, consumed or expired, an
  operation that names it for a caller other than its owner answers that there is no such flow, as it
  does when nothing is stored, and changes nothing.
\<close>
theorem foreign_flow_is_missing:
  assumes "\<And>e. stored s fid = Some e \<Longrightarrow> fl_caller (en_flow e) \<noteq> c" and "fl_id f = fid"
  shows "flow_get cfg None now c fid s = (Inl err_flow_not_found, s) \<and>
    flow_consume cfg None now now' c fid s = (Inl err_flow_not_found, s) \<and>
    flow_update cfg None now c f s = (Inl err_flow_not_found, s)"
proof -
  have "owned_locked cfg now c fid s = (Inl err_flow_not_found, s)"
    using assms(1) by (auto simp: owned_locked_def split: option.split)
  with assms(2) show ?thesis
    by (simp add: flow_get_def flow_consume_def flow_update_def)
qed

definition demo_store :: flow_store where
  "demo_store = snd (flow_run demo_flow_config [CreateOp 10 10 (demo_flow ''f1'')] new_flow_store)"

lemma demo_store_flow:
  "case stored demo_store ''f1'' of None \<Rightarrow> False
   | Some e \<Rightarrow> fl_caller (en_flow e) = local_caller \<and> en_flow e = (demo_flow ''f1'')\<lparr>fl_revision := ''1''\<rparr>"
  by code_simp

lemma demo_store_inv: "flow_inv demo_flow_config demo_store"
  unfolding demo_store_def by (rule run_inv [OF flow_inv_new])

theorem foreign_flow_is_missing_witness:
  "flow_get demo_flow_config None 2000 (local_caller\<lparr>caller_project := ''other''\<rparr>) ''f1'' demo_store =
     (Inl err_flow_not_found, demo_store)"
proof -
  have "fl_caller (en_flow e) \<noteq> local_caller\<lparr>caller_project := ''other''\<rparr>" if "stored demo_store ''f1'' = Some e" for e
    using demo_store_flow that by (simp add: local_caller_def demo_flow_def)
  from foreign_flow_is_missing [OF this, where f = "demo_flow ''f1''"] show ?thesis
    by (simp add: demo_flow_def)
qed

text \<open>
  What consuming answers an owner: a pending flow comes back with its secrets and the time it was
  consumed, while the stored one keeps neither secrets nor its place in the state index; a consumed
  flow, or one expired longer than the retention, is missing; one expired more recently is reported as
  expired, never returned, and loses its secrets.
\<close>
theorem consume_answers:
  assumes "flow_inv cfg s" and "stored s fid = Some e" and "fl_caller (en_flow e) = c"
    and "flow_consume cfg None now now' c fid s = (r, s')"
  shows "if flow_expired (en_flow e) now
    then (if past_retention cfg now (en_flow e)
          then r = Inl err_flow_not_found \<and> stored s' fid = None
          else r = Inl err_flow_expired \<and> stored s' fid = Some (expire_locked e))
    else if flow_consumed (en_flow e) then r = Inl err_flow_not_found \<and> s' = s
    else r = Inr ((en_flow e)\<lparr>fl_consumed_at := now', fl_revision := format_uint (fs_revision s + 1)\<rparr>) \<and>
      (\<exists>e'. stored s' fid = Some e' \<and> fl_secrets (en_flow e') = no_secrets \<and> fl_consumed_at (en_flow e') = now') \<and>
      (\<forall>k. fs_states s' k \<noteq> Some fid)"
proof (cases "flow_expired (en_flow e) now")
  case True
  with assms flow_invD(1) [OF assms(1,2)] show ?thesis
    by (auto simp: flow_consume_def owned_locked_def flow_simps split: if_splits)
next
  case live: False
  show ?thesis
  proof (cases "flow_consumed (en_flow e)")
    case True
    with live assms show ?thesis
      by (auto simp: flow_consume_def owned_locked_def)
  next
    case False
    have "owned_locked cfg now c fid s = (Inr e, s)"
      using live assms(2,3) by (simp add: owned_locked_def)
    with False have r: "fst (flow_consume cfg None now now' c fid s) = Inr (consumed_flow now' s e)"
      by (simp add: flow_consume_def next_flow_revision_def consumed_flow_def Let_def split: prod.split)
    from assms(1,4) obtain e' where e': "stored s fid = Some e'" "consume_effect cfg now' s e' s'"
      using r assms(4) by (cases rule: consume_cases) auto
    then have eff: "consume_effect cfg now' s e s'" using assms(2) by simp
    have inv: "flow_inv cfg s'"
      using consume_effect_inv [OF assms(1) _ eff] assms(2) flow_invD(1) [OF assms(1,2)] by simp
    have st: "stored s' fid = Some (consumed_entry now' s e)"
      using consume_effect_stored [OF eff] flow_invD(1) [OF assms(1,2)] by simp
    have "fs_states s' k \<noteq> Some fid" for k
      using flow_inv_index [OF inv, of k fid] st by simp
    with r st live False assms(4) show ?thesis
      by (simp add: consumed_flow_def consumed_entry_def)
  qed
qed

theorem consume_answers_witness:
  "fst (flow_consume demo_flow_config None 20 21 local_caller ''f1'' demo_store) =
     Inr ((demo_flow ''f1'')\<lparr>fl_consumed_at := 21, fl_revision := ''2''\<rparr>)"
proof -
  obtain e where e: "stored demo_store ''f1'' = Some e"
    and f: "en_flow e = (demo_flow ''f1'')\<lparr>fl_revision := ''1''\<rparr>"
    using demo_store_flow by (auto split: option.splits)
  have rev: "format_uint (fs_revision demo_store + 1) = ''2''"
    by code_simp
  have own: "fl_caller (en_flow e) = local_caller"
    by (simp add: f demo_flow_def)
  show ?thesis
    using consume_answers [OF demo_store_inv e own surjective_pairing, of 20 21] rev
    by (simp add: f flow_expired_def flow_consumed_def is_zero_time_def demo_flow_def)
qed

lemma count_filter_new:
  "map_of al k = None \<Longrightarrow>
     length (filter P (map snd (AList.update k v al))) = length (filter P (map snd al)) + (if P v then 1 else 0)"
  by (induction al) (auto split: if_splits)

text \<open>
  C28. The cap holds: when a creation succeeds, its caller has at most that many pending flows, the new
  one included. What it deletes to make room is pending, the caller's own and older than every pending
  flow of the caller's that stays; a creation that is refused deletes only expired flows.
\<close>
theorem create_respects_cap:
  assumes "flow_inv cfg s" and "flow_create cfg None now now' f s = (r, s')" and "0 < fc_max_flows cfg"
  shows "case r of
      Some err \<Rightarrow> \<forall>fid e. stored s fid = Some e \<and> \<not> flow_expired (en_flow e) now \<longrightarrow> stored s' fid = Some e
    | None \<Rightarrow> int (pending_count (fl_caller f) now' s') \<le> fc_max_flows cfg \<and>
        (\<forall>fid e. stored s fid = Some e \<and> \<not> flow_expired (en_flow e) now \<and> stored s' fid \<noteq> Some e \<longrightarrow>
           pending_of (fl_caller f) now' e \<and>
           (\<forall>fid' y. fid' \<noteq> fl_id f \<and> stored s' fid' = Some y \<and> pending_of (fl_caller f) now' y \<longrightarrow> \<not> older y e))"
  using assms(1,2)
proof (cases rule: create_cases)
  case (refused err)
  with settles_live show ?thesis by auto
next
  case (created s1)
  let ?c = "fl_caller f" and ?s2 = "evict_locked cfg (fl_caller f) now' s1"
  note room = create_effect_room [OF assms(1) created(3)]
  note evict = evict_effect [OF room(1), of ?c now']
  have s': "s' = flow_insert cfg f ?s2" and new: "stored s1 (fl_id f) = None" and age: "settles cfg now s s1"
    using created(3) by (auto simp: create_effect_def)
  have "pending_count ?c now' s' \<le> pending_count ?c now' ?s2 + 1"
    using count_filter_new [OF room(2)]
    by (simp add: s' pending_count_def flow_insert_def next_flow_revision_def put_entry_def Let_def)
  then have cap: "int (pending_count ?c now' s') \<le> fc_max_flows cfg"
    using evict(3) [OF assms(3)] by simp
  have "pending_of ?c now' e \<and>
      (\<forall>fid' y. fid' \<noteq> fl_id f \<and> stored s' fid' = Some y \<and> pending_of ?c now' y \<longrightarrow> \<not> older y e)"
    if e: "stored s fid = Some e" "\<not> flow_expired (en_flow e) now" "stored s' fid \<noteq> Some e" for fid e
  proof -
    have 1: "stored s1 fid = Some e"
      using settles_live [OF age e(1,2)] .
    with new have "fid \<noteq> fl_id f" by auto
    with e(3) have "stored ?s2 fid \<noteq> Some e" by (simp add: s' flow_simps)
    with 1 evict(2) have "stored ?s2 fid = None"
      by (cases "stored ?s2 fid") (auto simp: evicts_def)
    with 1 evict(2) have "pending_of ?c now' e"
      and "\<And>fid' y. stored ?s2 fid' = Some y \<Longrightarrow> pending_of ?c now' y \<Longrightarrow> \<not> older y e"
      unfolding evicts_def by blast+
    then show ?thesis by (auto simp: s' flow_simps)
  qed
  with cap created(1) show ?thesis by auto
qed

theorem create_respects_cap_witness:
  "int (pending_count local_caller 20
     (snd (flow_create demo_flow_config None 20 20
        ((demo_flow ''f2'')\<lparr>fl_secrets := no_secrets\<rparr>) demo_store))) \<le> 1"
proof -
  let ?r = "flow_create demo_flow_config None 20 20 ((demo_flow ''f2'')\<lparr>fl_secrets := no_secrets\<rparr>) demo_store"
  have r: "fst ?r = None"
    by code_simp
  have "fc_max_flows demo_flow_config = 1"
    by (simp add: demo_flow_config_def new_flow_config_def)
  with create_respects_cap [OF demo_store_inv surjective_pairing, where now = 20 and now' = 20 and
      f = "(demo_flow ''f2'')\<lparr>fl_secrets := no_secrets\<rparr>"] r
  show ?thesis
    by (simp add: demo_flow_def)
qed

text \<open>
  C27. An update never overwrites what it did not read. If it succeeds with the revision a read
  returned, then whatever happened in between left the flow as it was read, except that its secrets may
  have been wiped; and it changes nothing but the progress and the revision.
\<close>
theorem update_never_overwrites:
  assumes "flow_run cfg before new_flow_store = (log, s)"
    and "flow_get cfg None now c fid s = (Inr f, s1)"
    and "flow_run cfg between s1 = (log', s2)"
    and "length before + length between < 2 ^ 64"
    and "fl_id g = fl_id f" and "fl_revision g = fl_revision f"
    and "flow_update cfg None now' c' g s2 = (Inr h, s3)"
  shows "(\<exists>e. stored s2 fid = Some e \<and> (en_flow e = f \<or> en_flow e = f\<lparr>fl_secrets := no_secrets\<rparr>)) \<and>
    c' = c \<and> h = f\<lparr>fl_progress := fl_progress g, fl_revision := fl_revision h, fl_secrets := fl_secrets h\<rparr> \<and>
    fl_secrets h \<in> {fl_secrets f, no_secrets}"
proof -
  have room: "length before < 2 ^ 64" using assms(4) by simp
  note reach = run_from_new [OF assms(1) room]
  from reach(1) assms(2) obtain e where f: "f = en_flow e" and s1: "s1 = s"
    and e: "stored s fid = Some e" and own: "fl_caller (en_flow e) = c"
    by (cases rule: get_cases) auto
  have id: "fl_id f = fid" using flow_invD(1) [OF reach(1) e] f by simp
  obtain r where r: "fl_revision f = format_uint r" and same: "same_or_later f r s"
    using same_or_later_read [OF reach(1,2) e] f by auto
  have fit: "unat (fs_revision s) + length between < 2 ^ 64"
    using reach(3) assms(4) by linarith
  have later: "same_or_later f r s2"
    using run_same_or_later [OF reach(1) same fit] assms(3) s1 by simp
  have inv2: "flow_inv cfg s2"
    using run_issued [OF reach(1,2) fit] assms(3) s1 by simp
  from inv2 assms(7) obtain e2 where e2: "stored s2 fid = Some e2" and h: "h = updated_flow s2 g (en_flow e2)"
    and c': "fl_caller (en_flow e2) = c'" and rev: "fl_revision (en_flow e2) = fl_revision g"
    using id assms(5) by (cases rule: update_cases) auto
  have "en_flow e2 = f \<or> en_flow e2 = f\<lparr>fl_secrets := no_secrets\<rparr>"
    using later e2 id rev assms(6) r by (auto simp: same_or_later_def)
  with e2 h c' f own show ?thesis
    by (auto simp: updated_flow_def)
qed

theorem update_never_overwrites_witness:
  "\<exists>h. fst (flow_update demo_flow_config None 25 local_caller
      ((demo_flow ''f1'')\<lparr>fl_revision := ''1'', fl_progress := no_progress\<lparr>pg_interval := 5\<rparr>\<rparr>) demo_store) = Inr h \<and>
    fl_secrets h \<in> {fl_secrets (demo_flow ''f1''), no_secrets}"
proof -
  let ?f = "(demo_flow ''f1'')\<lparr>fl_revision := ''1''\<rparr>"
  let ?g = "?f\<lparr>fl_progress := no_progress\<lparr>pg_interval := 5\<rparr>\<rparr>"
  let ?u = "flow_update demo_flow_config None 25 local_caller ?g demo_store"
  have s: "flow_run demo_flow_config [CreateOp 10 10 (demo_flow ''f1'')] new_flow_store =
      (fst (flow_run demo_flow_config [CreateOp 10 10 (demo_flow ''f1'')] new_flow_store), demo_store)"
    by (simp add: demo_store_def)
  have get: "flow_get demo_flow_config None 20 local_caller ''f1'' demo_store = (Inr ?f, demo_store)"
    using demo_store_flow
    by (auto simp: flow_get_def owned_locked_def flow_expired_def demo_flow_def split: option.splits)
  have "case fst ?u of Inl err \<Rightarrow> False | Inr h \<Rightarrow> True"
    by code_simp
  then obtain h where h: "?u = (Inr h, snd ?u)"
    by (cases ?u) (auto split: sum.splits)
  have "fl_secrets h \<in> {fl_secrets ?f, no_secrets}"
    using update_never_overwrites [OF s get, of "[]" "[]" demo_store ?g 25 local_caller h "snd ?u"] h
    by simp
  then have "fl_secrets h \<in> {fl_secrets (demo_flow ''f1''), no_secrets}"
    by simp
  moreover have "fst ?u = Inr h"
    using h by (metis fst_conv)
  ultimately show ?thesis by blast
qed

text \<open>
  The OAuth state of a created flow leads back to it and to its owner until the flow expires; and
  whatever a state leads to is a flow that is neither consumed nor expired, was created with a state of
  the same hash and belongs to the caller returned.
\<close>
theorem created_state_resolves:
  assumes "flow_inv cfg s" and "flow_create cfg None now now' f s = (None, s')"
    and "sc_state (fl_secrets f) \<noteq> []" and "\<not> flow_expired f t"
  shows "flow_resolve_state cfg None t (sc_state (fl_secrets f)) s' = (Inr (fl_caller f, fl_id f), s') \<and>
    (\<forall>st c i s''. flow_resolve_state cfg None t st s' = (Inr (c, i), s'') \<longrightarrow>
       (\<exists>e. stored s' i = Some e \<and> fl_caller (en_flow e) = c \<and> \<not> flow_consumed (en_flow e) \<and>
          \<not> flow_expired (en_flow e) t \<and> en_state_key e = fc_hash cfg st))"
proof -
  from assms(1,2) obtain s1 where eff: "create_effect cfg now now' f s s1 s'"
    by (cases rule: create_cases) auto
  have inv: "flow_inv cfg s'" and room: "stored (evict_locked cfg (fl_caller f) now' s1) (fl_id f) = None"
    using create_effect_room [OF assms(1) eff] by auto
  let ?e = "new_entry cfg f (evict_locked cfg (fl_caller f) now' s1)"
  have st: "stored s' (fl_id f) = Some ?e"
    and ix: "fs_states s' (fc_hash cfg (sc_state (fl_secrets f))) = Some (fl_id f)"
    using eff assms(3) by (auto simp: create_effect_def flow_simps)
  have "owned_locked cfg t (fl_caller f) (fl_id f) s' = (Inr ?e, s')"
    using st assms(4) by (simp add: owned_locked_def)
  with st ix assms(3) have "flow_resolve_state cfg None t (sc_state (fl_secrets f)) s' =
      (Inr (fl_caller f, fl_id f), s')"
    by (simp add: flow_resolve_state_def)
  moreover have "\<exists>e. stored s' i = Some e \<and> fl_caller (en_flow e) = c \<and> \<not> flow_consumed (en_flow e) \<and>
      \<not> flow_expired (en_flow e) t \<and> en_state_key e = fc_hash cfg st"
    if "flow_resolve_state cfg None t st s' = (Inr (c, i), s'')" for st c i s''
    using inv that
  proof (cases rule: resolve_cases)
    case (resolved e)
    have "\<not> flow_consumed (en_flow e)"
      using flow_invD(2) [OF inv resolved(4)] resolved(5) by (auto simp: entry_inv_def)
    with resolved show ?thesis by auto
  qed simp
  ultimately show ?thesis by blast
qed

theorem created_state_resolves_witness:
  "flow_resolve_state demo_flow_config None 20 ''st'' demo_store = (Inr (local_caller, ''f1''), demo_store)"
proof -
  have "fst (flow_create demo_flow_config None 10 10 (demo_flow ''f1'') new_flow_store) = None"
    by code_simp
  then have "flow_create demo_flow_config None 10 10 (demo_flow ''f1'') new_flow_store = (None, demo_store)"
    by (simp add: demo_store_def prod_eq_iff split: prod.split option.split)
  from created_state_resolves [OF flow_inv_new this] show ?thesis
    by (simp add: demo_flow_def flow_expired_def)
qed

end
