(* ===== verification/Flow_Service.thy ===== *)
theory Flow_Service
  imports Flow_Safety
begin

text \<open>
  The OAuth flow service (\<^verbatim>\<open>oauthflow/service.go, start.go, poll.go, complete.go, view.go\<close>). The
  world \<open>'x\<close> is everything a call can change: the flow store, the drivers' providers, the credential
  store, the clock and the random source. The interfaces the service is given are functions on it,
  and every operation threads it in the order of the code. The context is part of the world;
  \<open>True\<close> as the first argument of an update stands for a context without cancellation.
\<close>

subsection \<open>Drivers and services\<close>

record start_request =
  sr_caller :: caller
  sr_instance :: string
  sr_method :: flow_method
  sr_redirect_uri :: string
  sr_params :: string_map

record authorization =
  au_authorization_url :: string
  au_user_code :: string
  au_verification_uri :: string
  au_verification_uri_complete :: string
  au_interval :: duration
  au_expires_in :: duration
  au_secrets :: secrets

datatype poll_status = PollPending | PollSlowDown | PollApproved | PollDenied | PollExpired | OtherPoll string

record poll_result =
  po_status :: poll_status
  po_record :: token_record

text \<open>A driver polls if it is a \<^verbatim>\<open>DeviceDriver\<close> and exchanges if it is a \<^verbatim>\<open>CodeDriver\<close>.\<close>

record 'x flow_driver =
  dr_start :: "start_request \<Rightarrow> 'x \<Rightarrow> (go_err + authorization) \<times> 'x"
  dr_poll :: "(flow \<Rightarrow> 'x \<Rightarrow> (go_err + poll_result) \<times> 'x) option"
  dr_exchange :: "(flow \<Rightarrow> string \<Rightarrow> 'x \<Rightarrow> (go_err + token_record) \<times> 'x) option"

record completion =
  cn_caller :: caller
  cn_instance :: string
  cn_method :: flow_method
  cn_params :: string_map
  cn_record :: token_record

record 'x flow_service =
  fv_create :: "flow \<Rightarrow> 'x \<Rightarrow> go_err option \<times> 'x"
  fv_get :: "caller \<Rightarrow> string \<Rightarrow> 'x \<Rightarrow> (go_err + flow) \<times> 'x"
  fv_consume :: "caller \<Rightarrow> string \<Rightarrow> 'x \<Rightarrow> (go_err + flow) \<times> 'x"
  fv_update :: "bool \<Rightarrow> caller \<Rightarrow> flow \<Rightarrow> 'x \<Rightarrow> (go_err + flow) \<times> 'x"
  fv_resolve :: "string \<Rightarrow> 'x \<Rightarrow> (go_err + caller \<times> string) \<times> 'x"
  fv_save :: "string \<Rightarrow> token_record \<Rightarrow> 'x \<Rightarrow> go_err option \<times> 'x"
  fv_drivers :: "string \<Rightarrow> flow_method \<Rightarrow> 'x \<Rightarrow> (go_err + 'x flow_driver option) \<times> 'x"
  fv_key :: "completion \<Rightarrow> 'x \<Rightarrow> (go_err + string) \<times> 'x"
  fv_now :: "'x \<Rightarrow> gtime \<times> 'x"
  fv_new_id :: "'x \<Rightarrow> (go_err + string) \<times> 'x"

definition err_slow_down :: go_err where
  "err_slow_down = Sentinel ''oauthflow: poll again after the interval''"

definition err_access_denied :: go_err where
  "err_access_denied = Sentinel ''oauthflow: authorization was denied''"

definition err_state_mismatch :: go_err where
  "err_state_mismatch = Sentinel ''oauthflow: OAuth state does not match the flow''"

definition err_wrong_method :: go_err where
  "err_wrong_method = Sentinel ''oauthflow: the flow's method does not offer this operation''"

definition err_code_required :: go_err where
  "err_code_required = Sentinel ''oauthflow: authorization code is required''"

definition flow_default_ttl :: duration where
  "flow_default_ttl = seconds 600"

definition slow_down_step :: duration where
  "slow_down_step = seconds 5"

definition default_interval :: duration where
  "default_interval = seconds 5"

subsection \<open>Views\<close>

datatype flow_status = FlowPending | FlowComplete | FlowFailed | FlowExpired

record flow_view =
  vw_id :: string
  vw_instance :: string
  vw_method :: flow_method
  vw_status :: "flow_status option"
  vw_authorization_url :: string
  vw_user_code :: string
  vw_verification_uri :: string
  vw_verification_uri_complete :: string
  vw_interval :: int
  vw_expires_at :: gtime
  vw_credential_key :: string

text \<open>The zero \<^verbatim>\<open>View\<close>, which has the empty status.\<close>

definition zero_view :: flow_view where
  "zero_view =
     \<lparr>vw_id = [], vw_instance = [], vw_method = OtherMethod [], vw_status = None,
      vw_authorization_url = [], vw_user_code = [], vw_verification_uri = [],
      vw_verification_uri_complete = [], vw_interval = 0, vw_expires_at = 0, vw_credential_key = []\<rparr>"

text \<open>Go's division of a duration by a second, which rounds towards zero.\<close>

definition whole_seconds :: "duration \<Rightarrow> int" where
  "whole_seconds d = (if d < 0 then - (- d div seconds 1) else d div seconds 1)"

definition view_of :: "flow \<Rightarrow> flow_view" where
  "view_of f =
     (let view = zero_view\<lparr>vw_id := fl_id f, vw_instance := fl_instance f, vw_method := fl_method f,
                           vw_status := Some FlowPending, vw_expires_at := fl_expires_at f\<rparr> in
      if flow_consumed f
      then (case pg_outcome (fl_progress f) of
              OutcomeComplete \<Rightarrow>
                view\<lparr>vw_status := Some FlowComplete, vw_credential_key := pg_credential_key (fl_progress f)\<rparr>
            | OutcomeFailed \<Rightarrow> view\<lparr>vw_status := Some FlowFailed\<rparr>
            | OutcomeExpired \<Rightarrow> view\<lparr>vw_status := Some FlowExpired\<rparr>
            | OtherOutcome _ \<Rightarrow> view)
      else
        (let shown = view\<lparr>vw_authorization_url := fl_authorization_url f, vw_user_code := fl_user_code f,
                          vw_verification_uri := fl_verification_uri f,
                          vw_verification_uri_complete := fl_verification_uri_complete f\<rparr> in
         if fl_method f = MethodDevice
         then shown\<lparr>vw_interval := whole_seconds (pg_interval (fl_progress f))\<rparr>
         else shown))"

definition expired_view :: "string \<Rightarrow> flow_view" where
  "expired_view fid = zero_view\<lparr>vw_id := fid, vw_status := Some FlowExpired\<rparr>"

type_synonym flow_reply = "flow_view \<times> go_err option"

subsection \<open>Start and Get\<close>

definition with_redirect_uri :: "string \<Rightarrow> start_request \<Rightarrow> start_request" where
  "with_redirect_uri uri r = r\<lparr>sr_redirect_uri := trim_space uri\<rparr>"

definition with_params :: "string_map \<Rightarrow> start_request \<Rightarrow> start_request" where
  "with_params params r = r\<lparr>sr_params := params\<rparr>"

definition service_driver ::
    "'x flow_service \<Rightarrow> string \<Rightarrow> flow_method \<Rightarrow> 'x \<Rightarrow> (go_err + 'x flow_driver) \<times> 'x" where
  "service_driver sv inst m w =
     (case m of
        OtherMethod _ \<Rightarrow> (Inl (Sentinel ''oauthflow: unknown method''), w)
      | _ \<Rightarrow>
          (case fv_drivers sv inst m w of
             (Inl err, w1) \<Rightarrow> (Inl err, w1)
           | (Inr None, w1) \<Rightarrow> (Inl (Sentinel ''oauthflow: instance has no driver''), w1)
           | (Inr (Some d), w1) \<Rightarrow>
               (if (if m = MethodDevice then dr_poll d \<noteq> None else dr_exchange d \<noteq> None)
                then (Inr d, w1)
                else (Inl (Sentinel ''oauthflow: instance has no driver''), w1))))"

definition check_authorization :: "flow_method \<Rightarrow> authorization \<Rightarrow> go_err option" where
  "check_authorization m a =
     (if m = MethodDevice
      then (if sc_device_code (au_secrets a) = [] \<or> au_user_code a = [] \<or> au_verification_uri a = []
            then Some (Sentinel ''oauthflow: the device driver returned incomplete authorization data'')
            else None)
      else if au_authorization_url a = [] \<or> sc_state (au_secrets a) = [] \<or> sc_verifier (au_secrets a) = []
      then Some (Sentinel ''oauthflow: the driver returned incomplete authorization data'')
      else None)"

text \<open>The flow \<^verbatim>\<open>Start\<close> builds of a driver's answer.\<close>

definition started_flow ::
    "string \<Rightarrow> caller \<Rightarrow> string \<Rightarrow> flow_method \<Rightarrow> start_request \<Rightarrow> authorization \<Rightarrow> gtime \<Rightarrow> flow" where
  "started_flow fid c inst m r a now =
     (let ttl = (if au_expires_in a \<le> 0 then flow_default_ttl else au_expires_in a);
          given = (au_secrets a)\<lparr>sc_params := sr_params r\<rparr>;
          kept = (if sc_redirect_uri given = [] then given\<lparr>sc_redirect_uri := sr_redirect_uri r\<rparr> else given);
          interval = (if au_interval a \<le> 0 then default_interval else au_interval a)
      in \<lparr>fl_id = fid, fl_caller = c, fl_instance = inst, fl_method = m,
          fl_created_at = now, fl_expires_at = now + ttl, fl_revision = [], fl_consumed_at = 0,
          fl_authorization_url = au_authorization_url a, fl_user_code = au_user_code a,
          fl_verification_uri = au_verification_uri a,
          fl_verification_uri_complete = au_verification_uri_complete a,
          fl_progress =
            (if m = MethodDevice
             then no_progress\<lparr>pg_interval := interval, pg_next_poll := now + interval\<rparr> else no_progress),
          fl_secrets = kept\<rparr>)"

definition service_start ::
    "'x flow_service \<Rightarrow> caller \<Rightarrow> string \<Rightarrow> flow_method \<Rightarrow> (start_request \<Rightarrow> start_request) list \<Rightarrow> 'x \<Rightarrow>
     flow_reply \<times> 'x" where
  "service_start sv c inst0 m opts w =
     (case caller_validate c of
        Some err \<Rightarrow> ((zero_view, Some (caller_err err)), w)
      | None \<Rightarrow>
          (let inst = trim_space inst0 in
           if inst = [] then ((zero_view, Some (Sentinel ''oauthflow: instance is required'')), w)
           else case service_driver sv inst m w of
             (Inl err, w1) \<Rightarrow> ((zero_view, Some err), w1)
           | (Inr d, w1) \<Rightarrow>
               (let r = fold (\<lambda>option. option) opts
                          \<lparr>sr_caller = c, sr_instance = inst, sr_method = m, sr_redirect_uri = [], sr_params = []\<rparr> in
                case dr_start d r w1 of
                  (Inl err, w2) \<Rightarrow> ((zero_view, Some err), w2)
                | (Inr a, w2) \<Rightarrow>
                    (case check_authorization m a of
                       Some err \<Rightarrow> ((zero_view, Some err), w2)
                     | None \<Rightarrow>
                         (case fv_new_id sv w2 of
                            (Inl err, w3) \<Rightarrow> ((zero_view, Some err), w3)
                          | (Inr fid, w3) \<Rightarrow>
                              (case fv_now sv w3 of
                                 (now, w4) \<Rightarrow>
                                   (let f = started_flow fid c inst m r a now in
                                    case fv_create sv f w4 of
                                      (Some err, w5) \<Rightarrow> ((zero_view, Some err), w5)
                                    | (None, w5) \<Rightarrow> ((view_of f, None), w5))))))))"

text \<open>
  The reading every operation begins with: an expired flow is shown as such, another error has no
  view.
\<close>

definition refused :: "string \<Rightarrow> go_err \<Rightarrow> flow_reply" where
  "refused fid err =
     (if err_is err err_flow_expired then (expired_view fid, Some err) else (zero_view, Some err))"

definition service_get :: "'x flow_service \<Rightarrow> caller \<Rightarrow> string \<Rightarrow> 'x \<Rightarrow> flow_reply \<times> 'x" where
  "service_get sv c fid w =
     (case fv_get sv c fid w of
        (Inl err, w1) \<Rightarrow> (refused fid err, w1)
      | (Inr f, w1) \<Rightarrow> ((view_of f, None), w1))"

subsection \<open>Ending a flow\<close>

definition service_finish ::
    "'x flow_service \<Rightarrow> flow \<Rightarrow> flow_outcome \<Rightarrow> string \<Rightarrow> 'x \<Rightarrow> flow_view \<times> 'x" where
  "service_finish sv f outcome key w =
     (let ended = f\<lparr>fl_progress := (fl_progress f)\<lparr>pg_outcome := outcome, pg_credential_key := key\<rparr>,
                    fl_secrets := no_secrets\<rparr> in
      case fv_update sv True (fl_caller ended) ended w of
        (Inl _, w1) \<Rightarrow> (view_of ended, w1)
      | (Inr updated, w1) \<Rightarrow> (view_of updated, w1))"

definition service_save_credential ::
    "'x flow_service \<Rightarrow> flow \<Rightarrow> token_record \<Rightarrow> 'x \<Rightarrow> flow_reply \<times> 'x" where
  "service_save_credential sv f rec0 w =
     (case (case fv_key sv \<lparr>cn_caller = fl_caller f, cn_instance = fl_instance f, cn_method = fl_method f,
                             cn_params = sc_params (fl_secrets f), cn_record = rec0\<rparr> w of
              (Inl err, w1) \<Rightarrow> (Inl err, w1)
            | (Inr key, w1) \<Rightarrow>
                (if blank key then (Inl (Sentinel ''oauthflow: the credential key hook returned no key''), w1)
                 else case fv_save sv key rec0 w1 of
                   (Some err, w2) \<Rightarrow> (Inl err, w2)
                 | (None, w2) \<Rightarrow> (Inr key, w2))) of
        (Inl err, w1) \<Rightarrow>
          (case service_finish sv f OutcomeFailed [] w1 of
             (v, w2) \<Rightarrow> ((v, Some (WrapErr ''oauthflow: save credential'' err)), w2))
      | (Inr key, w1) \<Rightarrow>
          (case service_finish sv f OutcomeComplete key w1 of (v, w2) \<Rightarrow> ((v, None), w2)))"

subsection \<open>Poll\<close>

text \<open>What follows the driver's answer to a poll.\<close>

definition poll_answered ::
    "'x flow_service \<Rightarrow> caller \<Rightarrow> string \<Rightarrow> gtime \<Rightarrow> flow \<Rightarrow> poll_result \<Rightarrow> 'x \<Rightarrow> flow_reply \<times> 'x" where
  "poll_answered sv c fid now claimed result w =
     (case po_status result of
        PollPending \<Rightarrow> ((view_of claimed, None), w)
      | PollSlowDown \<Rightarrow>
          (let interval = wrap64 (pg_interval (fl_progress claimed) + slow_down_step);
               slower = claimed\<lparr>fl_progress := (fl_progress claimed)\<lparr>pg_interval := interval,
                                                                    pg_next_poll := now + interval\<rparr>\<rparr> in
           case fv_update sv False c slower w of
             (Inl _, w1) \<Rightarrow> ((view_of claimed, Some err_slow_down), w1)
           | (Inr updated, w1) \<Rightarrow> ((view_of updated, Some err_slow_down), w1))
      | PollApproved \<Rightarrow>
          (case fv_consume sv c fid w of
             (Inl err, w1) \<Rightarrow> ((zero_view, Some err), w1)
           | (Inr consumed, w1) \<Rightarrow> service_save_credential sv consumed (po_record result) w1)
      | PollDenied \<Rightarrow>
          (case fv_consume sv c fid w of
             (Inl err, w1) \<Rightarrow> ((zero_view, Some err), w1)
           | (Inr consumed, w1) \<Rightarrow>
               (case service_finish sv consumed OutcomeFailed [] w1 of
                  (v, w2) \<Rightarrow> ((v, Some err_access_denied), w2)))
      | PollExpired \<Rightarrow>
          (case fv_consume sv c fid w of
             (Inl err, w1) \<Rightarrow> ((zero_view, Some err), w1)
           | (Inr consumed, w1) \<Rightarrow>
               (case service_finish sv consumed OutcomeExpired [] w1 of
                  (v, w2) \<Rightarrow> ((v, Some err_flow_expired), w2)))
      | OtherPoll _ \<Rightarrow> ((view_of claimed, Some (Sentinel ''oauthflow: poll: unknown status'')), w))"

text \<open>The claim of a poll, the driver's call and its answer.\<close>

definition poll_claimed ::
    "'x flow_service \<Rightarrow> 'x flow_driver \<Rightarrow> caller \<Rightarrow> string \<Rightarrow> gtime \<Rightarrow> flow \<Rightarrow> 'x \<Rightarrow> flow_reply \<times> 'x" where
  "poll_claimed sv d c fid now f w =
     (let claim = f\<lparr>fl_progress := (fl_progress f)\<lparr>pg_next_poll := now + pg_interval (fl_progress f)\<rparr>\<rparr> in
      case fv_update sv False c claim w of
        (Inl err, w1) \<Rightarrow>
          (if err_is err err_flow_conflict then ((view_of f, Some err_slow_down), w1)
           else (refused fid err, w1))
      | (Inr claimed, w1) \<Rightarrow>
          (case dr_poll d of
             None \<Rightarrow> ((zero_view, None), w1)
           | Some poll \<Rightarrow>
               (case poll claimed w1 of
                  (Inl err, w2) \<Rightarrow> ((view_of claimed, Some (WrapErr ''oauthflow: poll'' err)), w2)
                | (Inr result, w2) \<Rightarrow> poll_answered sv c fid now claimed result w2)))"

definition service_poll :: "'x flow_service \<Rightarrow> caller \<Rightarrow> string \<Rightarrow> 'x \<Rightarrow> flow_reply \<times> 'x" where
  "service_poll sv c fid w =
     (case fv_get sv c fid w of
        (Inl err, w1) \<Rightarrow> (refused fid err, w1)
      | (Inr f, w1) \<Rightarrow>
          (if fl_method f \<noteq> MethodDevice then ((zero_view, Some err_wrong_method), w1)
           else if flow_consumed f then ((view_of f, None), w1)
           else case service_driver sv (fl_instance f) (fl_method f) w1 of
             (Inl err, w2) \<Rightarrow> ((zero_view, Some err), w2)
           | (Inr d, w2) \<Rightarrow>
               (case fv_now sv w2 of
                  (now, w3) \<Rightarrow>
                    (if now < pg_next_poll (fl_progress f) then ((view_of f, Some err_slow_down), w3)
                     else poll_claimed sv d c fid now f w3))))"

subsection \<open>Complete and Callback\<close>

record complete_input =
  ci_code :: string
  ci_state :: string
  ci_error :: string
  ci_redirect_uri :: string

definition trim_input :: "complete_input \<Rightarrow> complete_input" where
  "trim_input i =
     \<lparr>ci_code = trim_space (ci_code i), ci_state = trim_space (ci_state i),
      ci_error = trim_space (ci_error i), ci_redirect_uri = trim_space (ci_redirect_uri i)\<rparr>"

definition complete_flow :: "'x flow_service \<Rightarrow> flow \<Rightarrow> complete_input \<Rightarrow> 'x \<Rightarrow> flow_reply \<times> 'x" where
  "complete_flow sv f i w =
     (if fl_method f = MethodDevice then ((zero_view, Some err_wrong_method), w)
      else if flow_consumed f then ((zero_view, Some err_flow_not_found), w)
      else if ci_state i \<noteq> [] \<and> sc_state (fl_secrets f) \<noteq> ci_state i
      then ((view_of f, Some err_state_mismatch), w)
      else case service_driver sv (fl_instance f) (fl_method f) w of
        (Inl err, w1) \<Rightarrow> ((zero_view, Some err), w1)
      | (Inr d, w1) \<Rightarrow>
          (case fv_consume sv (fl_caller f) (fl_id f) w1 of
             (Inl err, w2) \<Rightarrow> (refused (fl_id f) err, w2)
           | (Inr consumed, w2) \<Rightarrow>
               (if ci_error i \<noteq> []
                then (case service_finish sv consumed OutcomeFailed [] w2 of
                        (v, w3) \<Rightarrow> ((v, Some err_access_denied), w3))
                else case dr_exchange d of
                  None \<Rightarrow> ((zero_view, None), w2)
                | Some exchange \<Rightarrow>
                    (case exchange consumed (ci_code i) w2 of
                       (Inl err, w3) \<Rightarrow>
                         (case service_finish sv consumed OutcomeFailed [] w3 of
                            (v, w4) \<Rightarrow> ((v, Some (WrapErr ''oauthflow: exchange'' err)), w4))
                     | (Inr rec0, w3) \<Rightarrow> service_save_credential sv consumed rec0 w3))))"

definition service_complete ::
    "'x flow_service \<Rightarrow> caller \<Rightarrow> string \<Rightarrow> complete_input \<Rightarrow> 'x \<Rightarrow> flow_reply \<times> 'x" where
  "service_complete sv c fid i0 w =
     (let i = trim_input i0 in
      if ci_code i = [] \<and> ci_error i = [] then ((zero_view, Some err_code_required), w)
      else case fv_get sv c fid w of
        (Inl err, w1) \<Rightarrow> (refused fid err, w1)
      | (Inr f, w1) \<Rightarrow> complete_flow sv f i w1)"

text \<open>A state that resolves to an expired flow yields the zero id with the error.\<close>

definition service_callback :: "'x flow_service \<Rightarrow> complete_input \<Rightarrow> 'x \<Rightarrow> flow_reply \<times> 'x" where
  "service_callback sv i0 w =
     (let i = trim_input i0 in
      if ci_state i = [] then ((zero_view, Some err_flow_not_found), w)
      else if ci_code i = [] \<and> ci_error i = [] then ((zero_view, Some err_code_required), w)
      else case fv_resolve sv (ci_state i) w of
        (Inl err, w1) \<Rightarrow> (refused [] err, w1)
      | (Inr (owner, fid), w1) \<Rightarrow>
          (case fv_get sv owner fid w1 of
             (Inl err, w2) \<Rightarrow> (refused fid err, w2)
           | (Inr f, w2) \<Rightarrow>
               (if fl_method f \<noteq> MethodBrowser then ((zero_view, Some err_wrong_method), w2)
                else if ci_redirect_uri i \<noteq> [] \<and> ci_redirect_uri i \<noteq> sc_redirect_uri (fl_secrets f)
                then ((zero_view, Some err_flow_not_found), w2)
                else complete_flow sv f i w2)))"

subsection \<open>What the service needs of a flow store\<close>

text \<open>
  A balance that no operation raises but the exchange of a code, by one for its own flow, and that
  consuming the flow lowers by one: how a \<^verbatim>\<open>FlowStore\<close> makes a code single-use, whatever else its
  world holds.
\<close>

locale flow_backend =
  fixes sv :: "'x flow_service"
    and ok :: "'x \<Rightarrow> bool"
    and balance :: "'x \<Rightarrow> int"
    and fid :: string
  assumes create_law: "ok w \<Longrightarrow> fv_create sv f w = (e, w') \<Longrightarrow> ok w' \<and> balance w' \<le> balance w"
    and get_law: "ok w \<Longrightarrow> fv_get sv c i w = (x, w') \<Longrightarrow> ok w' \<and> balance w' \<le> balance w"
    and update_law: "ok w \<Longrightarrow> fv_update sv b c f w = (x, w') \<Longrightarrow> ok w' \<and> balance w' \<le> balance w"
    and resolve_law: "ok w \<Longrightarrow> fv_resolve sv st w = (y, w') \<Longrightarrow> ok w' \<and> balance w' \<le> balance w"
    and save_law: "ok w \<Longrightarrow> fv_save sv k t w = (e, w') \<Longrightarrow> ok w' \<and> balance w' \<le> balance w"
    and key_law: "ok w \<Longrightarrow> fv_key sv cn w = (z, w') \<Longrightarrow> ok w' \<and> balance w' \<le> balance w"
    and now_law: "ok w \<Longrightarrow> fv_now sv w = (t', w') \<Longrightarrow> ok w' \<and> balance w' \<le> balance w"
    and id_law: "ok w \<Longrightarrow> fv_new_id sv w = (z, w') \<Longrightarrow> ok w' \<and> balance w' \<le> balance w"
    and drivers_law: "ok w \<Longrightarrow> fv_drivers sv inst m w = (dr, w') \<Longrightarrow> ok w' \<and> balance w' \<le> balance w"
    and consume_law: "ok w \<Longrightarrow> fv_consume sv c i w = (x, w') \<Longrightarrow>
      ok w' \<and> (case x of Inl err \<Rightarrow> balance w' \<le> balance w
              | Inr f \<Rightarrow> fl_id f = i \<and> balance w' + (if i = fid then 1 else 0) \<le> balance w)"
    and start_law: "fv_drivers sv inst m v = (Inr (Some d), v') \<Longrightarrow> ok w \<Longrightarrow> dr_start d r w = (au, w') \<Longrightarrow>
      ok w' \<and> balance w' \<le> balance w"
    and poll_law: "fv_drivers sv inst m v = (Inr (Some d), v') \<Longrightarrow> ok w \<Longrightarrow> dr_poll d = Some poll \<Longrightarrow>
      poll f w = (p, w') \<Longrightarrow> ok w' \<and> balance w' \<le> balance w"
    and exchange_law: "fv_drivers sv inst m v = (Inr (Some d), v') \<Longrightarrow> ok w \<Longrightarrow> dr_exchange d = Some ex \<Longrightarrow>
      ex f code w = (tr, w') \<Longrightarrow> ok w' \<and> balance w' \<le> balance w + (if fl_id f = fid then 1 else 0)"
begin

text \<open>An acceptable world whose balance is at most \<open>b\<close>: what a call that starts there leaves.\<close>

definition within :: "int \<Rightarrow> 'x \<Rightarrow> bool" where
  "within b w \<longleftrightarrow> ok w \<and> balance w \<le> b"

lemma within_ops:
  "fv_create sv f w = (e, w') \<Longrightarrow> within b w \<Longrightarrow> within b w'"
  "fv_get sv c i w = (x, w') \<Longrightarrow> within b w \<Longrightarrow> within b w'"
  "fv_update sv detached c f w = (x, w') \<Longrightarrow> within b w \<Longrightarrow> within b w'"
  "fv_resolve sv st w = (y, w') \<Longrightarrow> within b w \<Longrightarrow> within b w'"
  "fv_save sv k t w = (e, w') \<Longrightarrow> within b w \<Longrightarrow> within b w'"
  "fv_key sv cn w = (z, w') \<Longrightarrow> within b w \<Longrightarrow> within b w'"
  "fv_now sv w = (t', w') \<Longrightarrow> within b w \<Longrightarrow> within b w'"
  "fv_new_id sv w = (z, w') \<Longrightarrow> within b w \<Longrightarrow> within b w'"
  "fv_drivers sv inst m w = (dr, w') \<Longrightarrow> within b w \<Longrightarrow> within b w'"
  unfolding within_def
  using create_law get_law update_law resolve_law save_law key_law now_law id_law drivers_law
  by (meson order_trans)+

lemma within_consume:
  "fv_consume sv c i w = (Inl err, w') \<Longrightarrow> within b w \<Longrightarrow> within b w'"
  "fv_consume sv c i w = (Inr f, w') \<Longrightarrow> within b w \<Longrightarrow>
     fl_id f = i \<and> within (b - (if i = fid then 1 else 0)) w'"
  unfolding within_def using consume_law [of w c i "Inl err" w'] consume_law [of w c i "Inr f" w'] by auto

lemma within_weaken: "within (b - (if i = fid then 1 else 0)) w \<Longrightarrow> within b w"
  by (auto simp: within_def split: if_splits)

lemma driver_found:
  assumes "service_driver sv inst m w = (Inr d, w')"
  obtains v v' where "fv_drivers sv inst m v = (Inr (Some d), v')"
    and "if m = MethodDevice then dr_poll d \<noteq> None else dr_exchange d \<noteq> None"
  using assms that
  by (auto simp: service_driver_def split: flow_method.splits prod.splits sum.splits option.splits if_splits)

lemma within_driver: "service_driver sv inst m w = (x, w') \<Longrightarrow> within b w \<Longrightarrow> within b w'"
  using within_ops(9)
  by (auto simp: service_driver_def split: flow_method.splits prod.splits sum.splits option.splits if_splits)

lemma within_exchange:
  assumes "ex f code w = (tr, w')" and "service_driver sv inst m v = (Inr d, v')"
    and "dr_exchange d = Some ex" and "within b w"
  shows "within (b + (if fl_id f = fid then 1 else 0)) w'"
proof -
  obtain u u' where "fv_drivers sv inst m u = (Inr (Some d), u')"
    using assms(2) by (rule driver_found)
  from exchange_law [OF this _ assms(3,1)] assms(4) show ?thesis
    by (auto simp: within_def)
qed

lemma within_start:
  assumes "dr_start d r w = (au, w')" and "service_driver sv inst m v = (Inr d, v')" and "within b w"
  shows "within b w'"
proof -
  obtain u u' where "fv_drivers sv inst m u = (Inr (Some d), u')"
    using assms(2) by (rule driver_found)
  from start_law [OF this _ assms(1)] assms(3) show ?thesis
    by (auto simp: within_def)
qed

lemma within_poll:
  assumes "poll f w = (p, w')" and "service_driver sv inst m v = (Inr d, v')"
    and "dr_poll d = Some poll" and "within b w"
  shows "within b w'"
proof -
  obtain u u' where "fv_drivers sv inst m u = (Inr (Some d), u')"
    using assms(2) by (rule driver_found)
  from poll_law [OF this _ assms(3,1)] assms(4) show ?thesis
    by (auto simp: within_def)
qed

lemma within_finish: "service_finish sv f oc k w = (v, w') \<Longrightarrow> within b w \<Longrightarrow> within b w'"
  using within_ops(3) by (auto simp: service_finish_def Let_def split: prod.splits sum.splits)

lemma within_save:
  assumes "service_save_credential sv f t w = (r, w')" and "within b w"
  shows "within b w'"
  using assms unfolding service_save_credential_def
  by (auto split: prod.splits sum.splits option.splits if_splits dest!: within_ops(5,6) within_finish)

lemma within_start_call:
  assumes "service_start sv c inst m opts w = (r, w')" and "within b w"
  shows "within b w'"
proof (cases "service_driver sv (trim_space inst) m w")
  case (Pair x w1)
  have w1: "within b w1" using within_driver [OF Pair assms(2)] .
  show ?thesis
  proof (cases x)
    case (Inl err)
    with assms w1 Pair show ?thesis
      by (auto simp: service_start_def Let_def split: option.splits if_splits)
  next
    case (Inr d)
    note started = within_start [OF _ Pair [unfolded Inr] w1]
    show ?thesis
      using assms w1 Pair Inr unfolding service_start_def Let_def
      by (auto split: prod.splits sum.splits option.splits if_splits dest!: started within_ops(1,7,8))
  qed
qed

lemma within_get_call: "service_get sv c i w = (r, w') \<Longrightarrow> within b w \<Longrightarrow> within b w'"
  unfolding service_get_def using within_ops(2) by (auto split: prod.splits sum.splits)

lemma within_consumed: "fv_consume sv c i w = (Inr f, w') \<Longrightarrow> within b w \<Longrightarrow> within b w'"
  using within_consume(2) within_weaken by blast

lemma within_poll_answered:
  assumes "poll_answered sv c i now claimed result w = (r, w')" and "within b w"
  shows "within b w'"
  using assms unfolding poll_answered_def Let_def
  by (auto split: poll_status.splits prod.splits sum.splits
      dest!: within_ops(3) within_consume(1) within_consumed within_save within_finish)

lemma within_poll_claimed:
  assumes "poll_claimed sv d c i now f w = (r, w')" and "service_driver sv inst m v = (Inr d, v')"
    and "within b w"
  shows "within b w'"
  using assms(1,3) unfolding poll_claimed_def Let_def
  by (auto split: prod.splits sum.splits option.splits if_splits
      dest!: within_ops(3) within_poll [OF _ assms(2)] within_poll_answered)

lemma within_poll_call:
  assumes "service_poll sv c i w = (r, w')" and "within b w"
  shows "within b w'"
proof -
  have claimed: "within b v'" if "poll_claimed sv d c i now f v = (r, v')" "within b v"
    "service_driver sv inst m u = (Inr d, u')" for d now f v v' inst m u u'
    using within_poll_claimed that by blast
  show ?thesis
    using assms unfolding service_poll_def
    by (auto split: prod.splits sum.splits if_splits
        dest: within_ops(2) within_driver dest!: claimed within_ops(7))
qed

lemma within_complete_flow:
  assumes run: "complete_flow sv f i w = (r, w')" and w: "within b w"
  shows "within b w'"
proof (cases "fl_method f = MethodDevice \<or> flow_consumed f \<or> (ci_state i \<noteq> [] \<and> sc_state (fl_secrets f) \<noteq> ci_state i)")
  case True
  with run w show ?thesis by (auto simp: complete_flow_def split: if_splits)
next
  case False
  obtain x w1 where d: "service_driver sv (fl_instance f) (fl_method f) w = (x, w1)"
    by (cases "service_driver sv (fl_instance f) (fl_method f) w")
  obtain y w2 where y: "fv_consume sv (fl_caller f) (fl_id f) w1 = (y, w2)"
    by (cases "fv_consume sv (fl_caller f) (fl_id f) w1")
  have w1: "within b w1" using within_driver [OF d w] .
  show ?thesis
  proof (cases "\<exists>dr consumed. x = Inr dr \<and> y = Inr consumed")
    case False
    with run d y w1 \<open>\<not> (fl_method f = _ \<or> _)\<close> show ?thesis
      by (cases x; cases y) (auto simp: complete_flow_def split: if_splits dest!: within_consume(1))
  next
    case True
    then obtain dr consumed where x: "x = Inr dr" and c: "y = Inr consumed" by blast
    let ?one = "if fl_id f = fid then 1 else 0 :: int"
    have id: "fl_id consumed = fl_id f" and w2: "within (b - ?one) w2"
      using within_consume(2) [OF y [unfolded c] w1] by auto
    have w2': "within b w2" using w2 by (rule within_weaken)
    have exchanged: "within b w3" if "dr_exchange dr = Some ex" "ex consumed code w2 = (tr, w3)" for ex code tr w3
      using within_exchange [OF that(2) d [unfolded x] that(1) w2] id by simp
    show ?thesis
      using run d x y c w2' \<open>\<not> (fl_method f = _ \<or> _)\<close> unfolding complete_flow_def
      by (auto split: prod.splits sum.splits option.splits if_splits
          dest: exchanged dest!: within_finish within_save)
  qed
qed

lemma within_complete_call:
  assumes "service_complete sv c i inp w = (r, w')" and "within b w"
  shows "within b w'"
  using assms unfolding service_complete_def Let_def
  by (auto split: prod.splits sum.splits if_splits dest!: within_ops(2) within_complete_flow)

lemma within_callback:
  assumes "service_callback sv inp w = (r, w')" and "within b w"
  shows "within b w'"
  using assms unfolding service_callback_def Let_def
  by (auto split: prod.splits sum.splits if_splits dest!: within_ops(2,4) within_complete_flow)

end

subsection \<open>Calls\<close>

text \<open>A product's calls of the service, and running some.\<close>

datatype flow_call =
    StartCall caller string flow_method "(start_request \<Rightarrow> start_request) list"
  | GetCall caller string
  | PollCall caller string
  | CompleteCall caller string complete_input
  | CallbackCall complete_input

fun service_call :: "'x flow_service \<Rightarrow> flow_call \<Rightarrow> 'x \<Rightarrow> flow_reply \<times> 'x" where
  "service_call sv (StartCall c inst m opts) w = service_start sv c inst m opts w"
| "service_call sv (GetCall c fid) w = service_get sv c fid w"
| "service_call sv (PollCall c fid) w = service_poll sv c fid w"
| "service_call sv (CompleteCall c fid i) w = service_complete sv c fid i w"
| "service_call sv (CallbackCall i) w = service_callback sv i w"

fun service_calls :: "'x flow_service \<Rightarrow> flow_call list \<Rightarrow> 'x \<Rightarrow> flow_reply list \<times> 'x" where
  "service_calls sv [] w = ([], w)"
| "service_calls sv (call # calls) w =
     (case service_call sv call w of
        (r, w1) \<Rightarrow> (case service_calls sv calls w1 of (rs, w2) \<Rightarrow> (r # rs, w2)))"

context flow_backend
begin

lemma within_call: "service_call sv call w = (r, w') \<Longrightarrow> within b w \<Longrightarrow> within b w'"
  by (cases call) (auto dest: within_start_call within_get_call within_poll_call within_complete_call within_callback)

lemma within_calls: "service_calls sv calls w = (rs, w') \<Longrightarrow> within b w \<Longrightarrow> within b w'"
proof (induction calls arbitrary: w rs)
  case Nil
  then show ?case by simp
next
  case (Cons call calls)
  then show ?case by (auto split: prod.splits dest: within_call)
qed

end

end
