(* ===== verification/Flow_Guarantees.thy ===== *)
theory Flow_Guarantees
  imports Flow_Service
begin

text \<open>
  The flow service over the memory store: what a product's calls, in any number and order, can make
  the providers see. The world is the store, a clock that may read anything, what the drivers, the
  credential store and the product's hooks act on (\<open>'y\<close>), and a log of the requests the service
  made, written by the functions that make them.
\<close>

subsection \<open>The service over the memory store\<close>

record 'y externals =
  ex_save :: "string \<Rightarrow> token_record \<Rightarrow> 'y \<Rightarrow> go_err option \<times> 'y"
  ex_drivers :: "string \<Rightarrow> flow_method \<Rightarrow> 'y \<Rightarrow> (go_err + 'y flow_driver option) \<times> 'y"
  ex_key :: "completion \<Rightarrow> 'y \<Rightarrow> (go_err + string) \<times> 'y"
  ex_new_id :: "'y \<Rightarrow> (go_err + string) \<times> 'y"

datatype flow_event = EvCreated string | EvPolled flow | EvExchanged flow string

record 'y fworld =
  fw_store :: flow_store
  fw_tick :: nat
  fw_log :: "flow_event list"
  fw_rest :: 'y

definition start_world :: "'y \<Rightarrow> 'y fworld" where
  "start_world y = \<lparr>fw_store = new_flow_store, fw_tick = 0, fw_log = [], fw_rest = y\<rparr>"

definition lift_rest :: "('y \<Rightarrow> 'r \<times> 'y) \<Rightarrow> 'y fworld \<Rightarrow> 'r \<times> 'y fworld" where
  "lift_rest g w = (case g (fw_rest w) of (x, y) \<Rightarrow> (x, w\<lparr>fw_rest := y\<rparr>))"

definition log_event :: "flow_event \<Rightarrow> 'y fworld \<Rightarrow> 'y fworld" where
  "log_event ev w = w\<lparr>fw_log := fw_log w @ [ev]\<rparr>"

text \<open>An operation of the store, given the next two readings of the clock.\<close>

definition on_store ::
    "(nat \<Rightarrow> gtime) \<Rightarrow> (gtime \<Rightarrow> gtime \<Rightarrow> flow_store \<Rightarrow> 'r \<times> flow_store) \<Rightarrow> 'y fworld \<Rightarrow> 'r \<times> 'y fworld" where
  "on_store clk g w =
     (case g (clk (fw_tick w)) (clk (fw_tick w + 1)) (fw_store w) of
        (x, s) \<Rightarrow> (x, w\<lparr>fw_store := s, fw_tick := fw_tick w + 2\<rparr>))"

definition logged_driver :: "'y flow_driver \<Rightarrow> 'y fworld flow_driver" where
  "logged_driver d =
     \<lparr>dr_start = (\<lambda>r. lift_rest (dr_start d r)),
      dr_poll = map_option (\<lambda>poll f w. lift_rest (poll f) (log_event (EvPolled f) w)) (dr_poll d),
      dr_exchange =
        map_option (\<lambda>ex f code w. lift_rest (ex f code) (log_event (EvExchanged f code) w)) (dr_exchange d)\<rparr>"

definition memory_flow_service :: "flow_config \<Rightarrow> (nat \<Rightarrow> gtime) \<Rightarrow> 'y externals \<Rightarrow> 'y fworld flow_service" where
  "memory_flow_service cfg clk ext =
     \<lparr>fv_create = (\<lambda>f w. case on_store clk (\<lambda>t t'. flow_create cfg None t t' f) w of
                           (None, w') \<Rightarrow> (None, log_event (EvCreated (fl_id f)) w')
                         | (Some err, w') \<Rightarrow> (Some err, w')),
      fv_get = (\<lambda>c i. on_store clk (\<lambda>t t'. flow_get cfg None t c i)),
      fv_consume = (\<lambda>c i. on_store clk (\<lambda>t t'. flow_consume cfg None t t' c i)),
      fv_update = (\<lambda>detached c f. on_store clk (\<lambda>t t'. flow_update cfg None t c f)),
      fv_resolve = (\<lambda>st. on_store clk (\<lambda>t t'. flow_resolve_state cfg None t st)),
      fv_save = (\<lambda>k t. lift_rest (ex_save ext k t)),
      fv_drivers = (\<lambda>inst m w. case lift_rest (ex_drivers ext inst m) w of
                                 (Inr (Some d), w') \<Rightarrow> (Inr (Some (logged_driver d)), w')
                               | (Inr None, w') \<Rightarrow> (Inr None, w')
                               | (Inl err, w') \<Rightarrow> (Inl err, w')),
      fv_key = (\<lambda>cn. lift_rest (ex_key ext cn)),
      fv_now = (\<lambda>w. (clk (fw_tick w), w\<lparr>fw_tick := fw_tick w + 1\<rparr>)),
      fv_new_id = lift_rest (ex_new_id ext)\<rparr>"

definition created_id :: "string \<Rightarrow> flow_event \<Rightarrow> bool" where
  "created_id fid ev = (case ev of EvCreated i \<Rightarrow> i = fid | _ \<Rightarrow> False)"

definition exchanged_id :: "string \<Rightarrow> flow_event \<Rightarrow> bool" where
  "exchanged_id fid ev = (case ev of EvExchanged f _ \<Rightarrow> fl_id f = fid | _ \<Rightarrow> False)"

definition balance_of :: "string \<Rightarrow> 'y fworld \<Rightarrow> int" where
  "balance_of fid w =
     int (length (filter (exchanged_id fid) (fw_log w))) + (if pending fid (fw_store w) then 1 else 0) -
     int (length (filter (created_id fid) (fw_log w)))"

subsection \<open>The store's side of the contract\<close>

lemma lift_rest_world:
  "lift_rest g w = (x, w') \<Longrightarrow> fw_store w' = fw_store w \<and> fw_log w' = fw_log w"
  by (auto simp: lift_rest_def split: prod.splits)

lemma lift_rest_balance: "lift_rest g w = (x, w') \<Longrightarrow> balance_of fid w' = balance_of fid w"
  by (auto simp: balance_of_def dest: lift_rest_world)

lemma pending_perform:
  assumes "flow_inv cfg s" and "stamped op" and "flow_perform cfg op s = (a, s')"
  shows "flow_inv cfg s'" and "(if consumes fid op a then 1 else 0) + (if pending fid s' then 1 else 0) \<le>
    (if pending fid s then 1 else 0) + (if creates fid op a then 1 else (0 :: int))"
proof -
  show "flow_inv cfg s'" using assms(1,3) by (rule perform_inv)
  show "(if consumes fid op a then 1 else 0) + (if pending fid s' then 1 else 0) \<le>
      (if pending fid s then 1 else 0) + (if creates fid op a then 1 else (0 :: int))"
    using flows.spend_closes [OF assms, of fid] by (auto split: if_splits)
qed

definition world_ok :: "flow_config \<Rightarrow> (nat \<Rightarrow> gtime) \<Rightarrow> 'y fworld \<Rightarrow> bool" where
  "world_ok cfg clk w \<longleftrightarrow> (\<forall>n. clk n \<noteq> 0) \<and> flow_inv cfg (fw_store w)"

text \<open>An operation of the store that is logged as nothing, or as a creation.\<close>

lemma store_step_balance:
  assumes "world_ok cfg clk w" and "stamped op" and "flow_perform cfg op (fw_store w) = (a, s')"
    and "fw_store w' = s'"
    and "fw_log w' = fw_log w @ evs" and "filter (exchanged_id fid) evs = []"
    and "length (filter (created_id fid) evs) = (if creates fid op a then 1 else 0)"
  shows "world_ok cfg clk w' \<and> balance_of fid w' + (if consumes fid op a then 1 else 0) \<le> balance_of fid w"
proof -
  have inv: "flow_inv cfg (fw_store w)"
    using assms(1) by (simp add: world_ok_def)
  have "int (length (filter (created_id fid) evs)) = (if creates fid op a then 1 else 0)"
    using assms(7) by simp
  with pending_perform(2) [OF inv assms(2,3), of fid] assms(4-6)
  have "balance_of fid w' + (if consumes fid op a then 1 else 0) \<le> balance_of fid w"
    unfolding balance_of_def by simp
  with pending_perform(1) [OF inv assms(2,3)] assms(1,4) show ?thesis
    by (simp add: world_ok_def)
qed

lemma on_storeD:
  "on_store clk g w = (x, w') \<Longrightarrow>
     g (clk (fw_tick w)) (clk (fw_tick w + 1)) (fw_store w) = (x, fw_store w') \<and> fw_log w' = fw_log w"
  by (auto simp: on_store_def split: prod.splits)

definition answer_value :: "('a \<Rightarrow> flow_answer) \<Rightarrow> go_err + 'a \<Rightarrow> flow_answer" where
  "answer_value g x = (case x of Inl err \<Rightarrow> AnsErr err | Inr y \<Rightarrow> g y)"

lemma answer_of_value: "answer_of g (x, s) = (answer_value g x, s)"
  by (simp add: answer_of_def answer_value_def split: sum.split)

lemma quiet_step:
  assumes "world_ok cfg clk w" and "stamped op"
    and "flow_perform cfg op (fw_store w) = (a, fw_store w')" and "fw_log w' = fw_log w"
    and "\<not> creates fid op a"
  shows "world_ok cfg clk w' \<and> balance_of fid w' \<le> balance_of fid w"
  using store_step_balance [OF assms(1-3) refl, of "[]" fid] assms(4,5) by (simp split: if_splits)

lemma mem_get:
  assumes "world_ok cfg clk w" and "fv_get (memory_flow_service cfg clk ext) c i w = (x, w')"
  shows "world_ok cfg clk w' \<and> balance_of fid w' \<le> balance_of fid w"
proof -
  note run = on_storeD [of clk "\<lambda>t t'. flow_get cfg None t c i" w x w']
  from run assms(2) have "flow_perform cfg (GetOp (clk (fw_tick w)) c i) (fw_store w) = (answer_value AnsFlow x, fw_store w')"
    and "fw_log w' = fw_log w"
    by (simp_all add: memory_flow_service_def answer_of_value)
  from quiet_step [OF assms(1) _ this] show ?thesis by simp
qed

lemma mem_update:
  assumes "world_ok cfg clk w" and "fv_update (memory_flow_service cfg clk ext) b c f w = (x, w')"
  shows "world_ok cfg clk w' \<and> balance_of fid w' \<le> balance_of fid w"
proof -
  note run = on_storeD [of clk "\<lambda>t t'. flow_update cfg None t c f" w x w']
  from run assms(2) have "flow_perform cfg (UpdateOp (clk (fw_tick w)) c f) (fw_store w) = (answer_value AnsFlow x, fw_store w')"
    and "fw_log w' = fw_log w"
    by (simp_all add: memory_flow_service_def answer_of_value)
  from quiet_step [OF assms(1) _ this] show ?thesis by simp
qed

lemma mem_resolve:
  assumes "world_ok cfg clk w" and "fv_resolve (memory_flow_service cfg clk ext) st w = (x, w')"
  shows "world_ok cfg clk w' \<and> balance_of fid w' \<le> balance_of fid w"
proof -
  note run = on_storeD [of clk "\<lambda>t t'. flow_resolve_state cfg None t st" w x w']
  from run assms(2) have "flow_perform cfg (ResolveOp (clk (fw_tick w)) st) (fw_store w) = (answer_value (\<lambda>(c, i). AnsOwner c i) x, fw_store w')"
    and "fw_log w' = fw_log w"
    by (simp_all add: memory_flow_service_def answer_of_value)
  from quiet_step [OF assms(1) _ this] show ?thesis by simp
qed

lemma flow_consume_id:
  assumes "flow_inv cfg s" and "flow_consume cfg None t t' c i s = (Inr f, s')"
  shows "fl_id f = i"
  using assms
proof (cases rule: consume_cases)
  case (consumed e)
  with flow_invD(1) [OF assms(1)] show ?thesis by simp
qed simp

lemma mem_consume:
  assumes "world_ok cfg clk w" and "fv_consume (memory_flow_service cfg clk ext) c i w = (x, w')"
  shows "world_ok cfg clk w' \<and>
    (case x of Inl err \<Rightarrow> balance_of fid w' \<le> balance_of fid w
     | Inr f \<Rightarrow> fl_id f = i \<and> balance_of fid w' + (if i = fid then 1 else 0) \<le> balance_of fid w)"
proof -
  let ?op = "ConsumeOp (clk (fw_tick w)) (clk (fw_tick w + 1)) c i"
  have run: "flow_consume cfg None (clk (fw_tick w)) (clk (fw_tick w + 1)) c i (fw_store w) = (x, fw_store w')"
    and log: "fw_log w' = fw_log w"
    using on_storeD [of clk "\<lambda>t t'. flow_consume cfg None t t' c i" w x w'] assms(2)
    by (simp_all add: memory_flow_service_def)
  have "stamped ?op" using assms(1) by (simp add: world_ok_def)
  note step = store_step_balance [OF assms(1) this _ refl, of _ w' "[]" fid]
  show ?thesis
  proof (cases x)
    case (Inl err)
    with run have "flow_perform cfg ?op (fw_store w) = (AnsErr err, fw_store w')"
      by (simp add: answer_of_def)
    from step [OF this] log Inl show ?thesis by simp
  next
    case (Inr f)
    with run have "flow_perform cfg ?op (fw_store w) = (AnsFlow f, fw_store w')"
      by (simp add: answer_of_def)
    from step [OF this] log Inr flow_consume_id [of cfg "fw_store w"] run assms(1) show ?thesis
      by (auto simp: world_ok_def)
  qed
qed

lemma mem_create:
  assumes "world_ok cfg clk w" and "fv_create (memory_flow_service cfg clk ext) f w = (x, w')"
  shows "world_ok cfg clk w' \<and> balance_of fid w' \<le> balance_of fid w"
proof -
  let ?t = "clk (fw_tick w)" and ?t' = "clk (fw_tick w + 1)"
  obtain w1 where w1: "on_store clk (\<lambda>t t'. flow_create cfg None t t' f) w = (x, w1)"
    and w': "w' = (case x of None \<Rightarrow> log_event (EvCreated (fl_id f)) w1 | Some _ \<Rightarrow> w1)"
    using assms(2) by (auto simp: memory_flow_service_def split: prod.splits option.splits)
  note run = on_storeD [OF w1]
  note step = store_step_balance [OF assms(1) _ _ refl, of "CreateOp ?t ?t' f" _ w']
  show ?thesis
  proof (cases x)
    case None
    with run have "flow_perform cfg (CreateOp ?t ?t' f) (fw_store w) = (AnsCreated, fw_store w')"
      by (simp add: w' log_event_def)
    from step [OF _ this, of "[EvCreated (fl_id f)]" fid] run None show ?thesis
      by (auto simp: w' log_event_def exchanged_id_def created_id_def)
  next
    case (Some err)
    with run have "flow_perform cfg (CreateOp ?t ?t' f) (fw_store w) = (AnsErr err, fw_store w')"
      by (simp add: w')
    from step [OF _ this, of "[]" fid] run Some show ?thesis
      by (simp add: w')
  qed
qed

lemma rest_keeps:
  "lift_rest g w = (x, w') \<Longrightarrow> world_ok cfg clk w \<Longrightarrow> world_ok cfg clk w' \<and> balance_of fid w' \<le> balance_of fid w"
  by (auto simp: world_ok_def balance_of_def dest: lift_rest_world)

lemma memory_driver:
  "fv_drivers (memory_flow_service cfg clk ext) inst m v = (Inr (Some d), v') \<Longrightarrow> \<exists>d0. d = logged_driver d0"
  by (auto simp: memory_flow_service_def split: prod.splits sum.splits option.splits)

interpretation memory_flows: flow_backend "memory_flow_service cfg clk ext" "world_ok cfg clk" "balance_of fid" fid
  for cfg clk ext fid
proof (unfold_locales, goal_cases)
  case (1 w f e w')
  then show ?case by (rule mem_create)
next
  case (2 w c i x w')
  then show ?case by (rule mem_get)
next
  case (3 w b c f x w')
  then show ?case by (rule mem_update)
next
  case (4 w st y w')
  then show ?case by (rule mem_resolve)
next
  case (5 w k t e w')
  then show ?case by (auto simp: memory_flow_service_def dest: rest_keeps [where fid = fid])
next
  case (6 w cn z w')
  then show ?case by (auto simp: memory_flow_service_def dest: rest_keeps [where fid = fid])
next
  case (7 w t' w')
  then show ?case by (auto simp: memory_flow_service_def world_ok_def balance_of_def)
next
  case (8 w z w')
  then show ?case by (auto simp: memory_flow_service_def dest: rest_keeps [where fid = fid])
next
  case (9 w inst m dr w')
  then show ?case
    by (auto simp: memory_flow_service_def split: prod.splits sum.splits option.splits dest: rest_keeps [where fid = fid])
next
  case (10 w c i x w')
  then show ?case by (rule mem_consume)
next
  case (11 inst m v d v' w r au w')
  from memory_driver [OF 11(1)] 11(2,3) show ?case
    by (auto simp: logged_driver_def dest: rest_keeps [where fid = fid])
next
  case (12 inst m v d v' w poll f p w')
  from memory_driver [OF 12(1)] obtain d0 where "d = logged_driver d0" by blast
  with 12(3,4) obtain g where "lift_rest g (log_event (EvPolled f) w) = (p, w')"
    by (auto simp: logged_driver_def)
  from lift_rest_world [OF this] 12(2) show ?case
    by (auto simp: log_event_def world_ok_def balance_of_def created_id_def exchanged_id_def)
next
  case (13 inst m v d v' w ex f code tr w')
  from memory_driver [OF 13(1)] obtain d0 where "d = logged_driver d0" by blast
  with 13(3,4) obtain g where "lift_rest g (log_event (EvExchanged f code) w) = (tr, w')"
    by (auto simp: logged_driver_def)
  from lift_rest_world [OF this] 13(2) show ?case
    by (auto simp: log_event_def world_ok_def balance_of_def created_id_def exchanged_id_def)
qed

subsection \<open>The schedule of device polls\<close>

text \<open>The flows the driver was polled with, each as the poll had claimed it.\<close>

definition polled :: "string \<Rightarrow> flow_event list \<Rightarrow> flow list" where
  "polled fid evs = List.map_filter (\<lambda>ev. case ev of EvPolled f \<Rightarrow> (if fl_id f = fid then Some f else None) | _ \<Rightarrow> None) evs"

lemma polled_append [simp]: "polled fid (a @ b) = polled fid a @ polled fid b"
  by (simp add: polled_def List.map_filter_def)

lemma polled_single [simp]:
  "polled fid [EvCreated i] = []"
  "polled fid [EvPolled f] = (if fl_id f = fid then [f] else [])"
  "polled fid [EvExchanged f code] = []"
  "polled fid [] = []"
  by (simp_all add: polled_def map_filter_simps)

abbreviation next_poll :: "flow \<Rightarrow> gtime" where
  "next_poll f \<equiv> pg_next_poll (fl_progress f)"

abbreviation interval_of :: "flow \<Rightarrow> duration" where
  "interval_of f \<equiv> pg_interval (fl_progress f)"

text \<open>A claim moves the next poll one interval past the time of the poll.\<close>

definition poll_time :: "flow \<Rightarrow> gtime" where
  "poll_time f = next_poll f - interval_of f"

definition spaced :: "flow list \<Rightarrow> bool" where
  "spaced ps = sorted_wrt (\<lambda>f g. poll_time f + interval_of f \<le> poll_time g) ps"

definition created_times :: "string \<Rightarrow> 'y fworld \<Rightarrow> nat" where
  "created_times fid w = length (filter (created_id fid) (fw_log w))"

text \<open>
  What holds of a progress after \<open>ps\<close> were polled: none of them may be followed by a poll before its
  interval, and the interval grew at most by a step for each.
\<close>

definition on_schedule :: "int \<Rightarrow> flow list \<Rightarrow> nat \<Rightarrow> flow \<Rightarrow> bool" where
  "on_schedule B ps n f \<longleftrightarrow>
     (\<forall>p \<in> set ps. next_poll p \<le> next_poll f) \<and>
     (fl_method f = MethodDevice \<longrightarrow> 0 < interval_of f \<and> interval_of f \<le> B + slow_down_step * int n)"

definition schedule_inv :: "flow_config \<Rightarrow> (nat \<Rightarrow> gtime) \<Rightarrow> int \<Rightarrow> string \<Rightarrow> 'y fworld \<Rightarrow> bool" where
  "schedule_inv cfg clk B fid w \<longleftrightarrow>
     world_ok cfg clk w \<and>
     (let ps = polled fid (fw_log w) in
      (created_times fid w = 0 \<longrightarrow> ps = [] \<and> stored (fw_store w) fid = None) \<and>
      (created_times fid w = 1 \<and> B + slow_down_step * int (length ps) \<le> max_int64 \<longrightarrow>
         spaced ps \<and>
         (\<forall>e. stored (fw_store w) fid = Some e \<and> \<not> flow_consumed (en_flow e) \<longrightarrow>
            on_schedule B ps (length ps) (en_flow e))))"

lemma schedule_same_store:
  "schedule_inv cfg clk B fid w \<Longrightarrow> fw_store w' = fw_store w \<Longrightarrow> fw_log w' = fw_log w \<Longrightarrow>
     schedule_inv cfg clk B fid w'"
  by (simp add: schedule_inv_def world_ok_def created_times_def)

lemma schedule_rest: "lift_rest g w = (x, w') \<Longrightarrow> schedule_inv cfg clk B fid w \<Longrightarrow> schedule_inv cfg clk B fid w'"
  using lift_rest_world [of g w x w'] schedule_same_store [of cfg clk B fid w w'] by simp

text \<open>A store whose flow of that id is gone, is the same, has lost its secrets or is consumed.\<close>

lemma schedule_shrink:
  assumes "schedule_inv cfg clk B fid w" and "flow_inv cfg (fw_store w')" and "fw_log w' = fw_log w"
    and "\<And>e'. stored (fw_store w') fid = Some e' \<Longrightarrow> \<exists>e. stored (fw_store w) fid = Some e \<and>
      (flow_consumed (en_flow e') \<or> flow_consumed (en_flow e') = flow_consumed (en_flow e) \<and>
         fl_progress (en_flow e') = fl_progress (en_flow e) \<and> fl_method (en_flow e') = fl_method (en_flow e))"
  shows "schedule_inv cfg clk B fid w'"
proof -
  let ?ps = "polled fid (fw_log w)"
  have "stored (fw_store w') fid = None" if "stored (fw_store w) fid = None"
    using assms(4) that by (cases "stored (fw_store w') fid") auto
  moreover have "on_schedule B ?ps (length ?ps) (en_flow e')"
    if e': "stored (fw_store w') fid = Some e'" "\<not> flow_consumed (en_flow e')"
      and n: "created_times fid w = 1" "B + slow_down_step * int (length ?ps) \<le> max_int64" for e'
  proof -
    obtain e where "stored (fw_store w) fid = Some e" "\<not> flow_consumed (en_flow e)"
      "fl_progress (en_flow e') = fl_progress (en_flow e)" "fl_method (en_flow e') = fl_method (en_flow e)"
      using assms(4) [OF e'(1)] e'(2) by auto
    with assms(1) n show ?thesis
      by (simp add: schedule_inv_def Let_def on_schedule_def)
  qed
  ultimately show ?thesis
    using assms(1-3) by (simp add: schedule_inv_def world_ok_def created_times_def Let_def)
qed

lemma schedule_settles:
  assumes "schedule_inv cfg clk B fid w" and "settles cfg now (fw_store w) (fw_store w')" and "fw_log w' = fw_log w"
  shows "schedule_inv cfg clk B fid w'"
proof (rule schedule_shrink [OF assms(1) _ assms(3)])
  show "flow_inv cfg (fw_store w')"
    using assms(1) settles_inv [OF assms(2)] by (simp add: schedule_inv_def world_ok_def)
  fix e' assume "stored (fw_store w') fid = Some e'"
  from settles_stored [OF assms(2) this] obtain e where
    "stored (fw_store w) fid = Some e" "e' = e \<or> e' = expire_locked e" by blast
  then show "\<exists>e. stored (fw_store w) fid = Some e \<and>
      (flow_consumed (en_flow e') \<or> flow_consumed (en_flow e') = flow_consumed (en_flow e) \<and>
         fl_progress (en_flow e') = fl_progress (en_flow e) \<and> fl_method (en_flow e') = fl_method (en_flow e))"
    by (auto simp: expire_locked_def flow_consumed_def)
qed

lemma schedule_get:
  assumes "fv_get (memory_flow_service cfg clk ext) c i w = (x, w')" and "schedule_inv cfg clk B fid w"
  shows "schedule_inv cfg clk B fid w'"
    and "x = Inr f \<Longrightarrow> fl_id f = i \<and> (\<exists>e. stored (fw_store w') i = Some e \<and> en_flow e = f)"
proof -
  have run: "flow_get cfg None (clk (fw_tick w)) c i (fw_store w) = (x, fw_store w')" "fw_log w' = fw_log w"
    using on_storeD [of clk "\<lambda>t t'. flow_get cfg None t c i" w x w'] assms(1)
    by (simp_all add: memory_flow_service_def)
  have inv: "flow_inv cfg (fw_store w)"
    using assms(2) by (simp add: schedule_inv_def world_ok_def)
  show "schedule_inv cfg clk B fid w'"
    using inv run(1)
  proof (cases rule: get_cases)
    case (failed err)
    with schedule_settles [OF assms(2) _ run(2)] show ?thesis by blast
  next
    case (found e)
    with schedule_same_store [OF assms(2) _ run(2)] show ?thesis by blast
  qed
  assume "x = Inr f"
  with inv run(1) show "fl_id f = i \<and> (\<exists>e. stored (fw_store w') i = Some e \<and> en_flow e = f)"
    using flow_invD(1) [OF inv, of i] by (cases rule: get_cases) auto
qed

lemma schedule_resolve:
  assumes "fv_resolve (memory_flow_service cfg clk ext) st w = (x, w')" and "schedule_inv cfg clk B fid w"
  shows "schedule_inv cfg clk B fid w'"
proof -
  have run: "flow_resolve_state cfg None (clk (fw_tick w)) st (fw_store w) = (x, fw_store w')" "fw_log w' = fw_log w"
    using on_storeD [of clk "\<lambda>t t'. flow_resolve_state cfg None t st" w x w'] assms(1)
    by (simp_all add: memory_flow_service_def)
  have inv: "flow_inv cfg (fw_store w)"
    using assms(2) by (simp add: schedule_inv_def world_ok_def)
  show ?thesis
    using inv run(1)
  proof (cases rule: resolve_cases)
    case (failed err)
    with schedule_settles [OF assms(2) _ run(2)] show ?thesis by blast
  next
    case (resolved e)
    with schedule_same_store [OF assms(2) _ run(2)] show ?thesis by blast
  qed
qed

text \<open>Consuming leaves the flow consumed, so no update of it matters to the schedule.\<close>

lemma schedule_consume:
  assumes "fv_consume (memory_flow_service cfg clk ext) c i w = (x, w')" and "schedule_inv cfg clk B fid w"
  shows "schedule_inv cfg clk B fid w'" and "x = Inr f \<Longrightarrow> \<not> pending (fl_id f) (fw_store w')"
proof -
  let ?t = "clk (fw_tick w)" and ?t' = "clk (fw_tick w + 1)"
  have run: "flow_consume cfg None ?t ?t' c i (fw_store w) = (x, fw_store w')" "fw_log w' = fw_log w"
    using on_storeD [of clk "\<lambda>t t'. flow_consume cfg None t t' c i" w x w'] assms(1)
    by (simp_all add: memory_flow_service_def)
  have inv: "flow_inv cfg (fw_store w)" and clk: "?t' \<noteq> 0"
    using assms(2) by (simp_all add: schedule_inv_def world_ok_def)
  show "schedule_inv cfg clk B fid w'"
    using inv run(1)
  proof (cases rule: consume_cases)
    case (failed err)
    with schedule_settles [OF assms(2) _ run(2)] show ?thesis by blast
  next
    case (consumed e)
    note st = consume_effect_stored [OF consumed(6)]
    have id: "fl_id (en_flow e) = i" using flow_invD(1) [OF inv consumed(2)] .
    have "flow_inv cfg (fw_store w')"
      using consume_effect_inv [OF inv _ consumed(6)] consumed(2) id by simp
    then show ?thesis
    proof (rule schedule_shrink [OF assms(2) _ run(2)])
      fix e' assume "stored (fw_store w') fid = Some e'"
      with st clk consumed(2) id show "\<exists>e. stored (fw_store w) fid = Some e \<and>
          (flow_consumed (en_flow e') \<or> flow_consumed (en_flow e') = flow_consumed (en_flow e) \<and>
             fl_progress (en_flow e') = fl_progress (en_flow e) \<and> fl_method (en_flow e') = fl_method (en_flow e))"
        by (cases "fid = i") auto
    qed
  qed
  assume x: "x = Inr f"
  show "\<not> pending (fl_id f) (fw_store w')"
    using inv run(1)
  proof (cases rule: consume_cases)
    case (consumed e)
    with x clk consume_effect_stored [OF consumed(6)] show ?thesis
      by (auto simp: pending_def)
  qed (use x in simp)
qed

text \<open>An update is harmless if its progress is on schedule, or if the flow is consumed anyway.\<close>

lemma schedule_update:
  assumes "fv_update (memory_flow_service cfg clk ext) b c g w = (x, w')" and "schedule_inv cfg clk B fid w"
    and safe: "fl_id g = fid \<Longrightarrow> pending fid (fw_store w) \<Longrightarrow> created_times fid w = 1 \<Longrightarrow>
      B + slow_down_step * int (length (polled fid (fw_log w))) \<le> max_int64 \<Longrightarrow>
      fl_method g = MethodDevice \<and>
      on_schedule B (polled fid (fw_log w)) (length (polled fid (fw_log w))) g"
  shows "schedule_inv cfg clk B fid w'"
    and "x = Inr h \<Longrightarrow> \<exists>e e'. stored (fw_store w) (fl_id g) = Some e \<and> stored (fw_store w') (fl_id g) = Some e' \<and>
      en_flow e' = h \<and> h = updated_flow (fw_store w) g (en_flow e)"
    and "fw_log w' = fw_log w" and "\<not> pending i (fw_store w) \<Longrightarrow> \<not> pending i (fw_store w')"
proof -
  let ?t = "clk (fw_tick w)"
  have run: "flow_update cfg None ?t c g (fw_store w) = (x, fw_store w')" and log: "fw_log w' = fw_log w"
    using on_storeD [of clk "\<lambda>t t'. flow_update cfg None t c g" w x w'] assms(1)
    by (simp_all add: memory_flow_service_def)
  have inv: "flow_inv cfg (fw_store w)"
    using assms(2) by (simp add: schedule_inv_def world_ok_def)
  show "fw_log w' = fw_log w" by (rule log)
  have perform: "flow_perform cfg (UpdateOp ?t c g) (fw_store w) = (answer_value AnsFlow x, fw_store w')"
    using run by (simp add: answer_of_value)
  show "\<not> pending i (fw_store w) \<Longrightarrow> \<not> pending i (fw_store w')"
    using flows.spend_closes [OF inv _ perform, of i] by (auto split: if_splits)
  show "x = Inr h \<Longrightarrow> \<exists>e e'. stored (fw_store w) (fl_id g) = Some e \<and> stored (fw_store w') (fl_id g) = Some e' \<and>
      en_flow e' = h \<and> h = updated_flow (fw_store w) g (en_flow e)"
    using inv run
  proof (cases rule: update_cases)
    case (updated e)
    have id: "fl_id (en_flow e) = fl_id g" using flow_invD(1) [OF inv updated(2)] .
    assume "x = Inr h"
    with updated(1) have h: "h = updated_flow (fw_store w) g (en_flow e)" by simp
    show ?thesis
      using updated(2) by (simp add: h updated(6) id flow_simps)
  qed simp
  show "schedule_inv cfg clk B fid w'"
    using inv run
  proof (cases rule: update_cases)
    case (failed err)
    with schedule_settles [OF assms(2) _ log] show ?thesis by blast
  next
    case (updated e)
    have id: "fl_id (en_flow e) = fl_id g" using flow_invD(1) [OF inv updated(2)] .
    have st: "stored (fw_store w') = (stored (fw_store w))(fl_id g \<mapsto> e\<lparr>en_flow := updated_flow (fw_store w) g (en_flow e)\<rparr>)"
      using updated(6) id by (simp add: flow_simps)
    have inv': "flow_inv cfg (fw_store w')"
      using perform_inv [OF inv perform] .
    show ?thesis
    proof (cases "fl_id g = fid \<and> pending fid (fw_store w)")
      case False
      show ?thesis
        using st updated(2) False
        by (intro schedule_shrink [OF assms(2) inv' log]) (auto simp: pending_def split: if_splits)
    next
      case True
      let ?ps = "polled fid (fw_log w)"
      have "on_schedule B ?ps (length ?ps) (updated_flow (fw_store w) g (en_flow e))"
        if "created_times fid w = 1" "B + slow_down_step * int (length ?ps) \<le> max_int64"
        using safe that True by (simp add: on_schedule_def updated_flow_def)
      with st True assms(2) log inv' updated(2) show ?thesis
        by (auto simp: schedule_inv_def Let_def world_ok_def created_times_def)
    qed
  qed
qed

lemma schedule_create:
  assumes "fv_create (memory_flow_service cfg clk ext) f w = (x, w')" and "schedule_inv cfg clk B fid w"
    and new: "fl_method f = MethodDevice \<Longrightarrow> 0 < interval_of f \<and> interval_of f \<le> B"
  shows "schedule_inv cfg clk B fid w'"
proof -
  let ?t = "clk (fw_tick w)" and ?t' = "clk (fw_tick w + 1)"
  obtain w1 where w1: "on_store clk (\<lambda>t t'. flow_create cfg None t t' f) w = (x, w1)"
    and w': "w' = (case x of None \<Rightarrow> log_event (EvCreated (fl_id f)) w1 | Some _ \<Rightarrow> w1)"
    using assms(1) by (auto simp: memory_flow_service_def split: prod.splits option.splits)
  have run: "flow_create cfg None ?t ?t' f (fw_store w) = (x, fw_store w1)" and log: "fw_log w1 = fw_log w"
    using on_storeD [OF w1] by auto
  have inv: "flow_inv cfg (fw_store w)" and clk: "\<forall>n. clk n \<noteq> 0"
    using assms(2) by (simp_all add: schedule_inv_def world_ok_def)
  show ?thesis
    using inv run
  proof (cases rule: create_cases)
    case (refused err)
    with schedule_settles [OF assms(2) refused(2) log] w' show ?thesis by simp
  next
    case (created s1)
    let ?s2 = "evict_locked cfg (fl_caller f) ?t' s1"
    note room = create_effect_room [OF inv created(3)]
    have s: "fw_store w' = flow_insert cfg f ?s2" and log': "fw_log w' = fw_log w @ [EvCreated (fl_id f)]"
      using created log w' by (auto simp: create_effect_def log_event_def)
    have ok: "world_ok cfg clk w'"
      using room(3) clk created(1) w' by (simp add: world_ok_def log_event_def)
    have ps: "polled fid (fw_log w') = polled fid (fw_log w)"
      by (simp add: log')
    show ?thesis
    proof (cases "fl_id f = fid")
      case True
      have n: "created_times fid w' = created_times fid w + 1"
        using True by (simp add: created_times_def log' created_id_def)
      have "created_times fid w = 0 \<Longrightarrow> polled fid (fw_log w) = []"
        using assms(2) by (simp add: schedule_inv_def Let_def)
      moreover have "on_schedule B [] 0 (en_flow (new_entry cfg f ?s2))"
        using new by (simp add: on_schedule_def new_entry_def)
      ultimately show ?thesis
        using ok n ps True by (simp add: schedule_inv_def Let_def s flow_simps spaced_def)
    next
      case False
      have n: "created_times fid w' = created_times fid w"
        using False by (simp add: created_times_def log' created_id_def)
      have old: "\<exists>e. stored (fw_store w) fid = Some e \<and> (e' = e \<or> e' = expire_locked e)"
        if "stored (fw_store w') fid = Some e'" for e'
      proof -
        have "stored ?s2 fid = Some e'" using that False by (simp add: s flow_simps)
        then have "stored s1 fid = Some e'"
          using evict_effect(2) [OF room(1), of "fl_caller f" ?t'] by (simp add: evicts_def)
        have "settles cfg ?t (fw_store w) s1" using created(3) by (simp add: create_effect_def)
        from settles_stored [OF this \<open>stored s1 fid = Some e'\<close>] show ?thesis by blast
      qed
      let ?w = "w'\<lparr>fw_log := fw_log w\<rparr>"
      have "schedule_inv cfg clk B fid ?w"
      proof (rule schedule_shrink [OF assms(2)])
        show "flow_inv cfg (fw_store ?w)" using ok by (simp add: world_ok_def)
        fix e' assume "stored (fw_store ?w) fid = Some e'"
        then show "\<exists>e. stored (fw_store w) fid = Some e \<and>
            (flow_consumed (en_flow e') \<or> flow_consumed (en_flow e') = flow_consumed (en_flow e) \<and>
               fl_progress (en_flow e') = fl_progress (en_flow e) \<and> fl_method (en_flow e') = fl_method (en_flow e))"
          using old by (auto simp: expire_locked_def flow_consumed_def)
      qed simp
      moreover have "created_times fid ?w = created_times fid w'"
        using n by (simp add: created_times_def)
      ultimately show ?thesis
        using ok ps by (simp add: schedule_inv_def Let_def)
    qed
  qed
qed

subsection \<open>The schedule across a call\<close>

definition intervals_bounded :: "'y externals \<Rightarrow> int \<Rightarrow> bool" where
  "intervals_bounded ext B \<longleftrightarrow> default_interval \<le> B \<and>
     (\<forall>inst m y d y' r y1 a y2. ex_drivers ext inst m y = (Inr (Some d), y') \<longrightarrow>
        dr_start d r y1 = (Inr a, y2) \<longrightarrow> au_interval a \<le> B)"

lemma intervals_boundedD:
  "intervals_bounded ext B \<Longrightarrow> ex_drivers ext inst m y = (Inr (Some d), y') \<Longrightarrow>
     dr_start d r y1 = (Inr a, y2) \<Longrightarrow> au_interval a \<le> B"
  unfolding intervals_bounded_def by blast

lemma memory_driver_found:
  assumes "service_driver (memory_flow_service cfg clk ext) inst m w = (x, w')"
  shows "fw_store w' = fw_store w \<and> fw_log w' = fw_log w"
    and "x = Inr d \<Longrightarrow> \<exists>d0 y y'. d = logged_driver d0 \<and> ex_drivers ext inst m y = (Inr (Some d0), y')"
  using assms
  by (auto simp: service_driver_def memory_flow_service_def lift_rest_def
      split: flow_method.splits prod.splits sum.splits option.splits if_splits)

lemma memory_plain:
  "fv_now (memory_flow_service cfg clk ext) w = (t, w') \<Longrightarrow> fw_store w' = fw_store w \<and> fw_log w' = fw_log w"
  "fv_key (memory_flow_service cfg clk ext) cn w = (z, w') \<Longrightarrow> fw_store w' = fw_store w \<and> fw_log w' = fw_log w"
  "fv_save (memory_flow_service cfg clk ext) k tr w = (e, w') \<Longrightarrow> fw_store w' = fw_store w \<and> fw_log w' = fw_log w"
  "fv_new_id (memory_flow_service cfg clk ext) w = (z, w') \<Longrightarrow> fw_store w' = fw_store w \<and> fw_log w' = fw_log w"
  by (auto simp: memory_flow_service_def dest: lift_rest_world)

lemma schedule_finish:
  assumes "service_finish (memory_flow_service cfg clk ext) f oc k w = (v, w')"
    and "schedule_inv cfg clk B fid w" and "\<not> pending (fl_id f) (fw_store w)"
  shows "schedule_inv cfg clk B fid w'"
proof -
  let ?ended = "f\<lparr>fl_progress := (fl_progress f)\<lparr>pg_outcome := oc, pg_credential_key := k\<rparr>, fl_secrets := no_secrets\<rparr>"
  obtain x where up: "fv_update (memory_flow_service cfg clk ext) True (fl_caller f) ?ended w = (x, w')"
    using assms(1) by (auto simp: service_finish_def Let_def split: prod.splits sum.splits)
  show ?thesis
    using assms(3) by (intro schedule_update(1) [OF up assms(2)]) auto
qed

lemma schedule_save:
  assumes "service_save_credential (memory_flow_service cfg clk ext) f tr w = (r, w')"
    and "schedule_inv cfg clk B fid w" and "\<not> pending (fl_id f) (fw_store w)"
  shows "schedule_inv cfg clk B fid w'"
proof -
  have ends: "schedule_inv cfg clk B fid w'"
    if "service_finish (memory_flow_service cfg clk ext) f oc k v = (u, w')" "fw_store v = fw_store w \<and> fw_log v = fw_log w"
    for oc k v u
    using schedule_finish [OF that(1) schedule_same_store [OF assms(2)]] that(2) assms(3) by simp
  show ?thesis
    using assms(1) unfolding service_save_credential_def
    by (auto split: prod.splits sum.splits option.splits if_splits dest!: memory_plain intro: ends)
qed

text \<open>The world a driver's poll of a claimed flow runs in, and what its answer leads to.\<close>

lemma schedule_answered:
  assumes run: "poll_answered (memory_flow_service cfg clk ext) c i now claimed result w = (r, w')"
    and inv: "schedule_inv cfg clk B fid w"
    and claimed: "fl_method claimed = MethodDevice" "now + interval_of claimed = next_poll claimed"
    and on: "fl_id claimed = fid \<Longrightarrow> created_times fid w = 1 \<Longrightarrow>
      B + slow_down_step * int (length (polled fid (fw_log w))) \<le> max_int64 \<Longrightarrow>
      (\<forall>p \<in> set (polled fid (fw_log w)). next_poll p \<le> next_poll claimed) \<and> 0 < interval_of claimed \<and>
      interval_of claimed + slow_down_step \<le> B + slow_down_step * int (length (polled fid (fw_log w)))"
  shows "schedule_inv cfg clk B fid w'"
proof -
  let ?sv = "memory_flow_service cfg clk ext"
  let ?ps = "polled fid (fw_log w)"
  let ?interval = "wrap64 (interval_of claimed + slow_down_step)"
  let ?slower = "claimed\<lparr>fl_progress := (fl_progress claimed)\<lparr>pg_interval := ?interval, pg_next_poll := now + ?interval\<rparr>\<rparr>"
  have slower: "schedule_inv cfg clk B fid v" if "fv_update ?sv False c ?slower w = (x, v)" for x v
  proof (rule schedule_update(1) [OF that inv])
    assume "fl_id ?slower = fid" and n: "created_times fid w = 1"
      "B + slow_down_step * int (length (polled fid (fw_log w))) \<le> max_int64"
    then have "fl_id claimed = fid" by simp
    note on = on [OF this n]
    have "?interval = interval_of claimed + slow_down_step"
      using on n by (intro wrap64_id) (auto simp: slow_down_step_def min_int64_def)
    with on claimed show "fl_method ?slower = MethodDevice \<and> on_schedule B ?ps (length ?ps) ?slower"
      by (auto simp: on_schedule_def slow_down_step_def)
  qed
  have ended: "schedule_inv cfg clk B fid v'"
    if "fv_consume ?sv c i w = (Inr f, v)" "service_finish ?sv f oc k v = (u, v')" for f v oc k u v'
    using schedule_finish [OF that(2)] schedule_consume [OF that(1) inv] by blast
  have saved: "schedule_inv cfg clk B fid v'"
    if "fv_consume ?sv c i w = (Inr f, v)" "service_save_credential ?sv f tr v = (u, v')" for f v tr u v'
    using schedule_save [OF that(2)] schedule_consume [OF that(1) inv] by blast
  have lost: "schedule_inv cfg clk B fid v" if "fv_consume ?sv c i w = (x, v)" for x v
    using schedule_consume(1) [OF that inv] .
  show ?thesis
    using run inv unfolding poll_answered_def Let_def
    by (auto split: poll_status.splits prod.splits sum.splits dest: slower ended saved lost)
qed

lemma schedule_claimed:
  assumes run: "poll_claimed (memory_flow_service cfg clk ext) (logged_driver d0) c i now f w = (r, w')"
    and inv: "schedule_inv cfg clk B fid w"
    and st: "stored (fw_store w) i = Some e" "en_flow e = f" "fl_id f = i"
    and f: "fl_method f = MethodDevice" "\<not> flow_consumed f" "next_poll f \<le> now"
  shows "schedule_inv cfg clk B fid w'"
proof -
  let ?sv = "memory_flow_service cfg clk ext" and ?ps = "polled fid (fw_log w)"
  let ?claim = "f\<lparr>fl_progress := (fl_progress f)\<lparr>pg_next_poll := now + interval_of f\<rparr>\<rparr>"
  obtain x w1 where up: "fv_update ?sv False c ?claim w = (x, w1)"
    by (cases "fv_update ?sv False c ?claim w")
  have sched: "on_schedule B ?ps (length ?ps) f \<and> spaced ?ps"
    if "fl_id f = fid" "created_times fid w = 1" "B + slow_down_step * int (length ?ps) \<le> max_int64"
    using inv that st f(2) by (auto simp: schedule_inv_def Let_def)
  have safe: "fl_method ?claim = MethodDevice \<and> on_schedule B ?ps (length ?ps) ?claim"
    if "fl_id ?claim = fid" "created_times fid w = 1" "B + slow_down_step * int (length ?ps) \<le> max_int64"
    using sched that f by (force simp: on_schedule_def)
  have inv1: "schedule_inv cfg clk B fid w1"
    by (rule schedule_update(1) [OF up inv]) (use safe in blast)
  have log1: "fw_log w1 = fw_log w"
    by (rule schedule_update(3) [OF up inv]) (use safe in blast)
  show ?thesis
  proof (cases x)
    case (Inl err)
    with run up inv1 show ?thesis by (auto simp: poll_claimed_def Let_def split: if_splits)
  next
    case (Inr claimed)
    have "\<exists>e e'. stored (fw_store w) (fl_id ?claim) = Some e \<and> stored (fw_store w1) (fl_id ?claim) = Some e' \<and>
        en_flow e' = claimed \<and> claimed = updated_flow (fw_store w) ?claim (en_flow e)"
      by (rule schedule_update(2) [OF up inv _ Inr]) (use safe in blast)
    with st obtain e' where c: "claimed = updated_flow (fw_store w) ?claim f"
      and e': "stored (fw_store w1) i = Some e'" "en_flow e' = claimed"
      by auto
    have ids: "fl_id claimed = i" "fl_method claimed = MethodDevice" "interval_of claimed = interval_of f"
      "next_poll claimed = now + interval_of f" "poll_time claimed = now"
      using st(3) f(1) by (simp_all add: c updated_flow_def poll_time_def)
    let ?w = "log_event (EvPolled claimed) w1"
    have logw: "fw_log ?w = fw_log w @ [EvPolled claimed]" "fw_store ?w = fw_store w1"
      by (simp_all add: log_event_def log1)
    have times: "created_times fid ?w = created_times fid w"
      by (simp add: created_times_def logw created_id_def)
    have due: "(\<forall>p \<in> set ?ps. next_poll p \<le> now) \<and> spaced ?ps \<and> 0 < interval_of f \<and>
        interval_of f \<le> B + slow_down_step * int (length ?ps)"
      if "i = fid" "created_times fid w = 1" "B + slow_down_step * int (length ?ps) \<le> max_int64"
      using sched that st(3) f(1,3) by (force simp: on_schedule_def)
    have inv2: "schedule_inv cfg clk B fid ?w"
    proof (cases "i = fid")
      case False
      with inv1 ids(1) logw times log1 show ?thesis
        by (simp add: schedule_inv_def Let_def world_ok_def created_times_def)
    next
      case True
      then have ps: "polled fid (fw_log ?w) = ?ps @ [claimed]"
        by (simp add: logw ids(1))
      have "created_times fid w \<noteq> 0"
        using inv st(1) True by (auto simp: schedule_inv_def Let_def)
      moreover have "spaced (?ps @ [claimed])" and "on_schedule B (?ps @ [claimed]) (length (?ps @ [claimed])) claimed"
        if n: "created_times fid w = 1" "B + slow_down_step * int (length (?ps @ [claimed])) \<le> max_int64"
      proof -
        have "B + slow_down_step * int (length ?ps) \<le> max_int64"
          using n(2) by (simp add: slow_down_step_def)
        note due = due [OF True n(1) this]
        show "spaced (?ps @ [claimed])"
          using due ids by (simp add: spaced_def sorted_wrt_append poll_time_def)
        show "on_schedule B (?ps @ [claimed]) (length (?ps @ [claimed])) claimed"
          using due ids by (auto simp: on_schedule_def slow_down_step_def)
      qed
      ultimately show ?thesis
        using inv1 e' times True by (simp add: schedule_inv_def Let_def world_ok_def ps logw(2))
    qed
    show ?thesis
    proof (cases "dr_poll d0")
      case None
      with run up Inr inv1 show ?thesis by (simp add: poll_claimed_def logged_driver_def)
    next
      case (Some poll)
      obtain y w2 where answer: "lift_rest (poll claimed) ?w = (y, w2)"
        by (cases "lift_rest (poll claimed) ?w")
      have inv3: "schedule_inv cfg clk B fid w2"
        using schedule_rest [OF answer inv2] .
      have r: "(case y of Inl err \<Rightarrow> ((view_of claimed, Some (WrapErr ''oauthflow: poll'' err)), w2)
          | Inr result \<Rightarrow> poll_answered ?sv c i now claimed result w2) = (r, w')"
        using run up Inr Some answer by (simp add: poll_claimed_def logged_driver_def split: sum.splits)
      show ?thesis
      proof (cases y)
        case (Inl err)
        with r inv3 show ?thesis by simp
      next
        case (Inr result)
        have same: "fw_log w2 = fw_log ?w" using lift_rest_world [OF answer] by simp
        show ?thesis
        proof (rule schedule_answered [OF _ inv3])
          show "poll_answered ?sv c i now claimed result w2 = (r, w')" using r Inr by simp
          show "fl_method claimed = MethodDevice" and "now + interval_of claimed = next_poll claimed"
            using ids by simp_all
          assume n: "fl_id claimed = fid" "created_times fid w2 = 1"
            "B + slow_down_step * int (length (polled fid (fw_log w2))) \<le> max_int64"
          have ps: "polled fid (fw_log w2) = ?ps @ [claimed]"
            using n(1) by (simp add: same logw)
          have "created_times fid w = 1"
            using n(2) times same by (simp add: created_times_def)
          moreover have "B + slow_down_step * int (length ?ps) \<le> max_int64"
            using n(3) ps by (simp add: slow_down_step_def)
          ultimately have "(\<forall>p \<in> set ?ps. next_poll p \<le> now) \<and> spaced ?ps \<and> 0 < interval_of f \<and>
              interval_of f \<le> B + slow_down_step * int (length ?ps)"
            using due n(1) ids(1) by simp
          then show "(\<forall>p \<in> set (polled fid (fw_log w2)). next_poll p \<le> next_poll claimed) \<and> 0 < interval_of claimed \<and>
              interval_of claimed + slow_down_step \<le> B + slow_down_step * int (length (polled fid (fw_log w2)))"
            using ids by (auto simp: ps slow_down_step_def)
        qed
      qed
    qed
  qed
qed

lemma schedule_poll:
  assumes run: "service_poll (memory_flow_service cfg clk ext) c i w = (r, w')"
    and inv: "schedule_inv cfg clk B fid w"
  shows "schedule_inv cfg clk B fid w'"
proof -
  let ?sv = "memory_flow_service cfg clk ext"
  obtain x w1 where g: "fv_get ?sv c i w = (x, w1)" by (cases "fv_get ?sv c i w")
  have inv1: "schedule_inv cfg clk B fid w1" using schedule_get(1) [OF g inv] .
  show ?thesis
  proof (cases "\<exists>f. x = Inr f \<and> fl_method f = MethodDevice \<and> \<not> flow_consumed f")
    case False
    with run g inv1 show ?thesis by (cases x) (auto simp: service_poll_def split: if_splits)
  next
    case True
    then obtain f where f: "x = Inr f" "fl_method f = MethodDevice" "\<not> flow_consumed f" by blast
    obtain e where e: "fl_id f = i" "stored (fw_store w1) i = Some e" "en_flow e = f"
      using schedule_get(2) [OF g inv f(1)] by blast
    obtain y w2 where d: "service_driver ?sv (fl_instance f) (fl_method f) w1 = (y, w2)"
      by (cases "service_driver ?sv (fl_instance f) (fl_method f) w1")
    note same = memory_driver_found(1) [OF d]
    obtain now w3 where n: "fv_now ?sv w2 = (now, w3)" by (cases "fv_now ?sv w2")
    note same3 = memory_plain(1) [OF n]
    have inv2: "schedule_inv cfg clk B fid w2" and inv3: "schedule_inv cfg clk B fid w3"
      using schedule_same_store [OF inv1] same same3 by auto
    show ?thesis
    proof (cases y)
      case (Inl err)
      with run g f d inv2 show ?thesis by (simp add: service_poll_def)
    next
      case (Inr dr)
      obtain d0 where d0: "dr = logged_driver d0"
        using memory_driver_found(2) [OF d Inr] by blast
      show ?thesis
      proof (cases "now < next_poll f")
        case True
        with run g f d n Inr inv3 show ?thesis by (simp add: service_poll_def)
      next
        case False
        with run g f d n Inr d0 have "poll_claimed ?sv (logged_driver d0) c i now f w3 = (r, w')"
          by (simp add: service_poll_def)
        from schedule_claimed [OF this inv3, of e] show ?thesis
          using e f False same same3 by simp
      qed
    qed
  qed
qed

lemma schedule_complete_flow:
  assumes run: "complete_flow (memory_flow_service cfg clk ext) f i w = (r, w')"
    and inv: "schedule_inv cfg clk B fid w"
  shows "schedule_inv cfg clk B fid w'"
proof -
  let ?sv = "memory_flow_service cfg clk ext"
  obtain x w1 where d: "service_driver ?sv (fl_instance f) (fl_method f) w = (x, w1)"
    by (cases "service_driver ?sv (fl_instance f) (fl_method f) w")
  have inv1: "schedule_inv cfg clk B fid w1"
    by (rule schedule_same_store [OF inv]) (use memory_driver_found(1) [OF d] in auto)
  obtain y w2 where y: "fv_consume ?sv (fl_caller f) (fl_id f) w1 = (y, w2)"
    by (cases "fv_consume ?sv (fl_caller f) (fl_id f) w1")
  have inv2: "schedule_inv cfg clk B fid w2" using schedule_consume(1) [OF y inv1] .
  show ?thesis
  proof (cases "\<exists>dr consumed. x = Inr dr \<and> y = Inr consumed")
    case False
    with run d y inv inv1 inv2 show ?thesis
      by (cases x; cases y) (auto simp: complete_flow_def split: if_splits)
  next
    case True
    then obtain dr consumed where x: "x = Inr dr" and c: "y = Inr consumed" by blast
    obtain d0 where d0: "dr = logged_driver d0" using memory_driver_found(2) [OF d x] by blast
    have gone: "\<not> pending (fl_id consumed) (fw_store w2)"
      using schedule_consume(2) [OF y inv1 c] .
    have finished: "schedule_inv cfg clk B fid v"
      if "service_finish ?sv consumed oc k w2 = (u, v)" for oc k u v
      using schedule_finish [OF that inv2 gone] .
    have exchanged: "schedule_inv cfg clk B fid v \<and> \<not> pending (fl_id consumed) (fw_store v)"
      if "lift_rest g (log_event (EvExchanged consumed code) w2) = (u, v)"
      for g code v and u :: "go_err + token_record"
    proof -
      have "schedule_inv cfg clk B fid (log_event (EvExchanged consumed code) w2)"
        using inv2 by (simp add: schedule_inv_def world_ok_def created_times_def log_event_def created_id_def Let_def)
      with schedule_rest [OF that] lift_rest_world [OF that] gone show ?thesis
        by (simp add: log_event_def)
    qed
    have saved: "schedule_inv cfg clk B fid v'"
      if "lift_rest g (log_event (EvExchanged consumed code) w2) = (u, v)"
        "service_save_credential ?sv consumed tr v = (p, v')"
      for g code v tr p v' and u :: "go_err + token_record"
      using schedule_save [OF that(2)] exchanged [OF that(1)] by blast
    have failed: "schedule_inv cfg clk B fid v'"
      if "lift_rest g (log_event (EvExchanged consumed code) w2) = (u, v)"
        "service_finish ?sv consumed oc k v = (p, v')"
      for g code v oc k p v' and u :: "go_err + token_record"
      using schedule_finish [OF that(2)] exchanged [OF that(1)] by blast
    show ?thesis
    proof (cases "fl_method f = MethodDevice \<or> flow_consumed f \<or> ci_state i \<noteq> [] \<and> sc_state (fl_secrets f) \<noteq> ci_state i")
      case True
      with run inv show ?thesis by (auto simp: complete_flow_def split: if_splits)
    next
      case live: False
      show ?thesis
      proof (cases "ci_error i \<noteq> []")
        case True
        with run d x y c live show ?thesis
          by (auto simp: complete_flow_def split: prod.splits if_splits dest: finished)
      next
        case False
        with run d x y c live have r: "(case dr_exchange dr of None \<Rightarrow> ((zero_view, None), w2)
            | Some exchange \<Rightarrow> (case exchange consumed (ci_code i) w2 of
                (Inl err, w3) \<Rightarrow> (case service_finish ?sv consumed OutcomeFailed [] w3 of
                  (v, w4) \<Rightarrow> ((v, Some (WrapErr ''oauthflow: exchange'' err)), w4))
              | (Inr rec0, w3) \<Rightarrow> service_save_credential ?sv consumed rec0 w3)) = (r, w')"
          by (simp add: complete_flow_def cong: if_cong split: if_splits)
        show ?thesis
        proof (cases "dr_exchange d0")
          case None
          with r d0 inv2 show ?thesis by (simp add: logged_driver_def)
        next
          case (Some ex)
          obtain z w3 where z: "lift_rest (ex consumed (ci_code i)) (log_event (EvExchanged consumed (ci_code i)) w2) = (z, w3)"
            by (cases "lift_rest (ex consumed (ci_code i)) (log_event (EvExchanged consumed (ci_code i)) w2)")
          with r d0 Some saved [OF z] failed [OF z] show ?thesis
            by (cases z) (auto simp: logged_driver_def split: prod.splits)
        qed
      qed
    qed
  qed
qed

lemma schedule_start:
  assumes run: "service_start (memory_flow_service cfg clk ext) c inst0 m opts w = (r, w')"
    and inv: "schedule_inv cfg clk B fid w" and bounded: "intervals_bounded ext B"
  shows "schedule_inv cfg clk B fid w'"
proof -
  let ?sv = "memory_flow_service cfg clk ext" and ?inst = "trim_space inst0"
  let ?r = "fold (\<lambda>option. option) opts
    \<lparr>sr_caller = c, sr_instance = ?inst, sr_method = m, sr_redirect_uri = [], sr_params = []\<rparr>"
  obtain x w1 where d: "service_driver ?sv ?inst m w = (x, w1)" by (cases "service_driver ?sv ?inst m w")
  have inv1: "schedule_inv cfg clk B fid w1"
    by (rule schedule_same_store [OF inv]) (use memory_driver_found(1) [OF d] in auto)
  show ?thesis
  proof (cases x)
    case (Inl err)
    with run d inv inv1 show ?thesis
      by (auto simp: service_start_def Let_def split: option.splits if_splits)
  next
    case (Inr dr)
    obtain d0 y0 y1 where d0: "dr = logged_driver d0" and ex: "ex_drivers ext ?inst m y0 = (Inr (Some d0), y1)"
      using memory_driver_found(2) [OF d Inr] by blast
    obtain z w2 where s: "lift_rest (dr_start d0 ?r) w1 = (z, w2)" by (cases "lift_rest (dr_start d0 ?r) w1")
    have inv2: "schedule_inv cfg clk B fid w2" using schedule_rest [OF s inv1] .
    have bound: "au_interval a \<le> B \<and> default_interval \<le> B" if "z = Inr a" for a
      using s that bounded intervals_boundedD [OF bounded ex]
      by (auto simp: lift_rest_def intervals_bounded_def split: prod.splits)
    have same: "schedule_inv cfg clk B fid v" if "fw_store v = fw_store w2" "fw_log v = fw_log w2" for v
      by (rule schedule_same_store [OF inv2]) (use that in auto)
    show ?thesis
    proof (cases z)
      case (Inl err)
      with run d Inr d0 s inv inv1 inv2 show ?thesis
        by (auto simp: service_start_def Let_def logged_driver_def split: option.splits if_splits)
    next
      case a: (Inr a)
      have create: "schedule_inv cfg clk B fid v"
        if "fv_create ?sv (started_flow i c ?inst m ?r a now) u = (e, v)"
          "fw_store u = fw_store w2" "fw_log u = fw_log w2" for i now u e v
        using bound [OF a]
        by (intro schedule_create [OF that(1) same [OF that(2,3)]])
          (auto simp: started_flow_def no_progress_def Let_def default_interval_def)
      show ?thesis
        using run d Inr d0 s a inv inv1 inv2 unfolding service_start_def Let_def
        by (auto simp: logged_driver_def split: prod.splits sum.splits option.splits if_splits
            dest!: memory_plain create intro: same)
    qed
  qed
qed

lemma schedule_call:
  assumes "service_call (memory_flow_service cfg clk ext) call w = (r, w')"
    and "schedule_inv cfg clk B fid w" and "intervals_bounded ext B"
  shows "schedule_inv cfg clk B fid w'"
proof (cases call)
  case (StartCall c inst m opts)
  with assms schedule_start show ?thesis by simp
next
  case (GetCall c i)
  with assms show ?thesis
    by (auto simp: service_get_def split: prod.splits sum.splits dest: schedule_get(1))
next
  case (PollCall c i)
  with assms schedule_poll show ?thesis by simp
next
  case (CompleteCall c i inp)
  with assms show ?thesis
    by (auto simp: service_complete_def Let_def split: prod.splits sum.splits if_splits
        dest: schedule_get(1) schedule_complete_flow)
next
  case (CallbackCall inp)
  with assms show ?thesis
    by (auto simp: service_callback_def Let_def split: prod.splits sum.splits if_splits
        dest!: schedule_get(1) schedule_resolve schedule_complete_flow)
qed

lemma schedule_calls:
  "service_calls (memory_flow_service cfg clk ext) calls w = (rs, w') \<Longrightarrow> schedule_inv cfg clk B fid w \<Longrightarrow>
     intervals_bounded ext B \<Longrightarrow> schedule_inv cfg clk B fid w'"
proof (induction calls arbitrary: w rs)
  case Nil
  then show ?case by simp
next
  case (Cons call calls)
  then show ?case by (auto split: prod.splits dest: schedule_call)
qed

subsection \<open>Properties\<close>

text \<open>A product to instantiate the properties at: both kinds of driver, a clock ten seconds apart.\<close>

definition demo_device :: "unit flow_driver" where
  "demo_device =
     \<lparr>dr_start = (\<lambda>r y. (Inr \<lparr>au_authorization_url = [], au_user_code = ''UC'', au_verification_uri = ''https://v'',
                           au_verification_uri_complete = [], au_interval = seconds 5, au_expires_in = 0,
                           au_secrets = no_secrets\<lparr>sc_device_code := ''dc''\<rparr>\<rparr>, y)),
      dr_poll = Some (\<lambda>f y. (Inr \<lparr>po_status = PollSlowDown, po_record = api_key_record ''key''\<rparr>, y)),
      dr_exchange = None\<rparr>"

definition demo_code :: "unit flow_driver" where
  "demo_code =
     \<lparr>dr_start = (\<lambda>r y. (Inr \<lparr>au_authorization_url = ''https://a'', au_user_code = [], au_verification_uri = [],
                           au_verification_uri_complete = [], au_interval = 0, au_expires_in = 0,
                           au_secrets = no_secrets\<lparr>sc_state := ''st'', sc_verifier := ''v''\<rparr>\<rparr>, y)),
      dr_poll = None,
      dr_exchange = Some (\<lambda>f code y. (Inr (api_key_record ''token''), y))\<rparr>"

definition demo_externals :: "unit externals" where
  "demo_externals =
     \<lparr>ex_save = (\<lambda>k t y. (None, y)),
      ex_drivers = (\<lambda>inst m y. (Inr (Some (if m = MethodDevice then demo_device else demo_code)), y)),
      ex_key = (\<lambda>cn y. (Inr ''conn'', y)),
      ex_new_id = (\<lambda>y. (Inr ''f1'', y))\<rparr>"

definition demo_clock :: "nat \<Rightarrow> gtime" where
  "demo_clock n = seconds (10 * int n + 10)"

abbreviation demo_flow_service :: "unit fworld flow_service" where
  "demo_flow_service \<equiv> memory_flow_service demo_flow_config demo_clock demo_externals"

lemma demo_clock_nonzero: "demo_clock n \<noteq> 0"
  by (simp add: demo_clock_def)

definition code_input :: complete_input where
  "code_input = \<lparr>ci_code = ''code'', ci_state = ''st'', ci_error = [], ci_redirect_uri = []\<rparr>"

text \<open>
  C2. An authorization code is exchanged at most once per flow: whatever calls a product makes, with
  whatever codes, in whatever order, the exchanges the service asks for with a flow never exceed the
  flows created under its id, and a flow still pending has had none of its own.
\<close>
theorem code_exchanged_at_most_once:
  assumes "\<And>n. clk n \<noteq> 0" and "service_calls (memory_flow_service cfg clk ext) calls (start_world y) = (rs, w)"
  shows "length (filter (exchanged_id fid) (fw_log w)) + (if pending fid (fw_store w) then 1 else 0) \<le>
    length (filter (created_id fid) (fw_log w))"
proof -
  have "world_ok cfg clk (start_world y)" and "balance_of fid (start_world y) = 0"
    using assms(1) flow_inv_new
    by (auto simp: world_ok_def start_world_def balance_of_def pending_def new_flow_store_def)
  then have "memory_flows.within cfg clk fid 0 (start_world y)"
    by (simp add: memory_flows.within_def)
  from memory_flows.within_calls [OF assms(2) this] show ?thesis
    by (simp add: memory_flows.within_def balance_of_def split: if_splits)
qed

theorem code_exchanged_at_most_once_witness:
  "length (filter (exchanged_id ''f1'') (fw_log (snd (service_calls demo_flow_service
     [StartCall local_caller ''openai'' MethodBrowser [], CompleteCall local_caller ''f1'' code_input,
      CompleteCall local_caller ''f1'' code_input, CallbackCall code_input] (start_world ()))))) \<le> 1"
proof -
  let ?calls = "[StartCall local_caller ''openai'' MethodBrowser [], CompleteCall local_caller ''f1'' code_input,
      CompleteCall local_caller ''f1'' code_input, CallbackCall code_input]"
  let ?log = "fw_log (snd (service_calls demo_flow_service ?calls (start_world ())))"
  have "length (filter (created_id ''f1'') ?log) \<le> 1"
    by code_simp
  from order_trans [OF add_leD1 [OF code_exchanged_at_most_once [OF demo_clock_nonzero surjective_pairing]] this]
  show ?thesis .
qed



text \<open>One reading of the store by the service, for a flow its owner may see.\<close>

lemma memory_get_live:
  assumes "stored (fw_store w) fid = Some e" and "fl_caller (en_flow e) = c"
    and "\<not> flow_expired (en_flow e) (clk (fw_tick w))"
  shows "fv_get (memory_flow_service cfg clk ext) c fid w = (Inr (en_flow e), w\<lparr>fw_tick := fw_tick w + 2\<rparr>)"
  using assms by (simp add: memory_flow_service_def on_store_def flow_get_def owned_locked_def)

text \<open>
  A completion with the wrong OAuth state spends nothing: the flow, the store and everything the
  drivers and the credential store hold stay as they were, no code is exchanged, and the owner is shown
  the pending flow with the mismatch.
\<close>
theorem state_mismatch_spends_nothing:
  assumes "stored (fw_store w) fid = Some e" and "fl_caller (en_flow e) = c"
    and "\<not> flow_expired (en_flow e) (clk (fw_tick w))" and "\<not> flow_consumed (en_flow e)"
    and "fl_method (en_flow e) \<noteq> MethodDevice"
    and "\<not> blank (ci_code i) \<or> \<not> blank (ci_error i)" and "\<not> blank (ci_state i)"
    and "trim_space (ci_state i) \<noteq> sc_state (fl_secrets (en_flow e))"
  shows "service_complete (memory_flow_service cfg clk ext) c fid i w =
    ((view_of (en_flow e), Some err_state_mismatch), w\<lparr>fw_tick := fw_tick w + 2\<rparr>)"
  using assms(4-8) memory_get_live [where clk = clk, OF assms(1-3), of cfg ext]
  by (auto simp: service_complete_def trim_input_def complete_flow_def blank_def Let_def)

definition pending_world :: "unit fworld" where
  "pending_world = snd (service_calls demo_flow_service [StartCall local_caller ''openai'' MethodBrowser []] (start_world ()))"

lemma pending_world_flow:
  "case stored (fw_store pending_world) ''f1'' of None \<Rightarrow> False
   | Some e \<Rightarrow> fl_caller (en_flow e) = local_caller \<and> \<not> flow_consumed (en_flow e) \<and>
       fl_method (en_flow e) = MethodBrowser \<and> sc_state (fl_secrets (en_flow e)) = ''st'' \<and>
       fl_instance (en_flow e) = ''openai'' \<and> \<not> flow_expired (en_flow e) (seconds 500) \<and>
       \<not> flow_expired (en_flow e) (demo_clock (fw_tick pending_world))"
  by code_simp

theorem state_mismatch_spends_nothing_witness:
  "snd (service_complete demo_flow_service local_caller ''f1'' (code_input\<lparr>ci_state := ''other''\<rparr>) pending_world) =
     pending_world\<lparr>fw_tick := fw_tick pending_world + 2\<rparr>"
proof -
  obtain e where e: "stored (fw_store pending_world) ''f1'' = Some e" "fl_caller (en_flow e) = local_caller"
      "\<not> flow_expired (en_flow e) (demo_clock (fw_tick pending_world))" "\<not> flow_consumed (en_flow e)"
    and m: "fl_method (en_flow e) \<noteq> MethodDevice" and st: "sc_state (fl_secrets (en_flow e)) = ''st''"
    using pending_world_flow by (auto split: option.splits)
  have i: "\<not> blank (ci_code (code_input\<lparr>ci_state := ''other''\<rparr>)) \<or> \<not> blank (ci_error (code_input\<lparr>ci_state := ''other''\<rparr>))"
    "\<not> blank (ci_state (code_input\<lparr>ci_state := ''other''\<rparr>))"
    "trim_space (ci_state (code_input\<lparr>ci_state := ''other''\<rparr>)) = ''other''"
    by code_simp+
  have "trim_space (ci_state (code_input\<lparr>ci_state := ''other''\<rparr>)) \<noteq> sc_state (fl_secrets (en_flow e))"
    using i(3) st by simp
  from state_mismatch_spends_nothing [where clk = demo_clock, OF e m i(1,2) this] show ?thesis
    by simp
qed

text \<open>The parts of the world an operation of the store leaves alone.\<close>

definition store_moved :: "'y fworld \<Rightarrow> 'y fworld \<Rightarrow> bool" where
  "store_moved w w' \<longleftrightarrow> fw_tick w' = fw_tick w + 2 \<and> fw_rest w' = fw_rest w \<and> fw_log w' = fw_log w"

lemma memory_consume_live:
  assumes "stored (fw_store w) fid = Some e" and "fl_caller (en_flow e) = c"
    and "\<not> flow_expired (en_flow e) (clk (fw_tick w))" and "\<not> flow_consumed (en_flow e)"
    and "fl_id (en_flow e) = fid"
  obtains w' where
    "fv_consume (memory_flow_service cfg clk ext) c fid w = (Inr (consumed_flow (clk (fw_tick w + 1)) (fw_store w) e), w')"
    and "store_moved w w'"
    and "stored (fw_store w') fid = Some (consumed_entry (clk (fw_tick w + 1)) (fw_store w) e)"
proof -
  let ?r = "flow_consume cfg None (clk (fw_tick w)) (clk (fw_tick w + 1)) c fid (fw_store w)"
  have r: "fst ?r = Inr (consumed_flow (clk (fw_tick w + 1)) (fw_store w) e) \<and>
      stored (snd ?r) fid = Some (consumed_entry (clk (fw_tick w + 1)) (fw_store w) e)"
    using assms
    by (cases e) (auto simp: flow_consume_def owned_locked_def next_flow_revision_def consumed_flow_def
        consumed_entry_def unindex_locked_def put_entry_def update_conv' Let_def split: prod.splits if_splits)
  show ?thesis
    using r that [of "w\<lparr>fw_store := snd ?r, fw_tick := fw_tick w + 2\<rparr>"]
    by (cases ?r) (simp add: memory_flow_service_def on_store_def store_moved_def)
qed

lemma memory_update_live:
  assumes "stored (fw_store w) (fl_id f) = Some e" and "fl_caller (en_flow e) = fl_caller f"
    and "\<not> flow_expired (en_flow e) (clk (fw_tick w))" and "fl_revision (en_flow e) = fl_revision f"
    and "fl_id (en_flow e) = fl_id f"
  obtains w' where
    "fv_update (memory_flow_service cfg clk ext) b (fl_caller f) f w = (Inr (updated_flow (fw_store w) f (en_flow e)), w')"
    and "store_moved w w'"
    and "stored (fw_store w') (fl_id f) = Some (e\<lparr>en_flow := updated_flow (fw_store w) f (en_flow e)\<rparr>)"
proof -
  let ?r = "flow_update cfg None (clk (fw_tick w)) (fl_caller f) f (fw_store w)"
  have r: "fst ?r = Inr (updated_flow (fw_store w) f (en_flow e)) \<and>
      stored (snd ?r) (fl_id f) = Some (e\<lparr>en_flow := updated_flow (fw_store w) f (en_flow e)\<rparr>)"
    using assms
    by (simp add: flow_update_def owned_locked_def next_flow_revision_def updated_flow_def put_entry_def
        update_conv' Let_def)
  show ?thesis
    using r that [of "w\<lparr>fw_store := snd ?r, fw_tick := fw_tick w + 2\<rparr>"]
    by (cases ?r) (simp add: memory_flow_service_def on_store_def store_moved_def)
qed

text \<open>The flow a completion with a saved credential leaves behind.\<close>

definition completed_flow :: "string \<Rightarrow> flow \<Rightarrow> flow" where
  "completed_flow k f =
     f\<lparr>fl_progress := (fl_progress f)\<lparr>pg_outcome := OutcomeComplete, pg_credential_key := k\<rparr>, fl_secrets := no_secrets\<rparr>"

lemma completed_flow_simps [simp]:
  "fl_id (completed_flow k f) = fl_id f" "fl_caller (completed_flow k f) = fl_caller f"
  "fl_revision (completed_flow k f) = fl_revision f"
  "flow_expired (completed_flow k f) t = flow_expired f t"
  by (simp_all add: completed_flow_def flow_expired_def)

lemma save_completes:
  assumes "\<And>cn. fv_key sv cn w = (Inr k, w1)" and "\<not> blank k" and "fv_save sv k tr w1 = (None, w2)"
    and "fv_update sv True (fl_caller f) (completed_flow k f) w2 = (Inr h, w3)"
  shows "service_save_credential sv f tr w = ((view_of h, None), w3)"
  using assms by (simp add: service_save_credential_def service_finish_def completed_flow_def Let_def)

text \<open>
  C33. A completion that succeeds is final and its owner can read it back: the code is exchanged with
  the flow just consumed, the credential saved under the product's key, the flow shown complete with
  that key, and until the flow expires its owner reads the very same view.
\<close>
theorem completed_flow_reads_back:
  assumes "flow_inv cfg (fw_store w)" and "stored (fw_store w) fid = Some e" and "fl_caller (en_flow e) = c"
    and "\<And>n. n \<le> fw_tick w + 8 \<Longrightarrow> \<not> flow_expired (en_flow e) (clk n) \<and> clk n \<noteq> 0"
    and "\<not> flow_consumed (en_flow e)" and "fl_method (en_flow e) \<in> {MethodBrowser, MethodManual}"
    and "\<not> blank (ci_code i)" and "blank (ci_error i)"
    and "blank (ci_state i) \<or> trim_space (ci_state i) = sc_state (fl_secrets (en_flow e))"
    and "ex_drivers ext (fl_instance (en_flow e)) (fl_method (en_flow e)) (fw_rest w) = (Inr (Some d), y1)"
    and "dr_exchange d = Some ex" and "\<And>f. ex f (trim_space (ci_code i)) y1 = (Inr tr, y2)"
    and "\<And>cn. ex_key ext cn y2 = (Inr k, y3)" and "\<not> blank k" and "ex_save ext k tr y3 = (None, y4)"
  shows "\<exists>v w'. service_complete (memory_flow_service cfg clk ext) c fid i w = ((v, None), w') \<and>
    vw_status v = Some FlowComplete \<and> vw_credential_key v = k \<and> fw_rest w' = y4 \<and>
    fst (service_get (memory_flow_service cfg clk ext) c fid w') = (v, None)"
proof -
  let ?sv = "memory_flow_service cfg clk ext"
  have id: "fl_id (en_flow e) = fid" using flow_invD(1) [OF assms(1,2)] .
  let ?w1 = "w\<lparr>fw_tick := fw_tick w + 2, fw_rest := y1\<rparr>"
  let ?f = "consumed_flow (clk (fw_tick ?w1 + 1)) (fw_store ?w1) e"
  let ?e2 = "consumed_entry (clk (fw_tick ?w1 + 1)) (fw_store ?w1) e"
  have get: "fv_get ?sv c fid w = (Inr (en_flow e), w\<lparr>fw_tick := fw_tick w + 2\<rparr>)"
    using memory_get_live [where clk = clk, OF assms(2,3)] assms(4) [of "fw_tick w"] by simp
  have driver: "service_driver ?sv (fl_instance (en_flow e)) (fl_method (en_flow e)) (w\<lparr>fw_tick := fw_tick w + 2\<rparr>) =
      (Inr (logged_driver d), ?w1)"
    using assms(6,10,11)
    by (auto simp: service_driver_def memory_flow_service_def lift_rest_def logged_driver_def split: flow_method.splits)
  obtain w2 where consume: "fv_consume ?sv c fid ?w1 = (Inr ?f, w2)" and moved: "store_moved ?w1 w2"
    and st2: "stored (fw_store w2) fid = Some ?e2"
    by (rule memory_consume_live [of ?w1 fid e c clk cfg ext]) (use assms(2-5) id in auto)
  have tick2: "fw_tick w2 = fw_tick w + 4" and rest2: "fw_rest w2 = y1"
    using moved by (simp_all add: store_moved_def)
  let ?w3 = "(log_event (EvExchanged ?f (trim_space (ci_code i))) w2)\<lparr>fw_rest := y2\<rparr>"
  have exchange: "lift_rest (ex ?f (trim_space (ci_code i))) (log_event (EvExchanged ?f (trim_space (ci_code i))) w2) =
      (Inr tr, ?w3)"
    using assms(12) rest2 by (simp add: lift_rest_def log_event_def)
  let ?w5 = "?w3\<lparr>fw_rest := y4\<rparr>" and ?h = "updated_flow (fw_store w2) (completed_flow k ?f) (en_flow ?e2)"
  have live: "\<not> flow_expired (en_flow ?e2) (clk n)" if "n \<le> fw_tick w + 8" for n
    using assms(4) [OF that] by (simp add: consumed_entry_def flow_expired_def consumed_flow_def)
  have "stored (fw_store ?w5) (fl_id (completed_flow k ?f)) = Some ?e2" "fw_tick ?w5 = fw_tick w + 4"
    "fw_store ?w5 = fw_store w2"
    using st2 id tick2 by (simp_all add: log_event_def)
  then obtain w6 where update: "fv_update ?sv True (fl_caller (completed_flow k ?f)) (completed_flow k ?f) ?w5 = (Inr ?h, w6)"
    and moved6: "store_moved ?w5 w6" and st6: "stored (fw_store w6) fid = Some (?e2\<lparr>en_flow := ?h\<rparr>)"
    by (rule_tac memory_update_live [of ?w5 "completed_flow k ?f" ?e2 clk cfg ext True])
      (use live [of "fw_tick w + 4"] id in auto)
  have save: "service_save_credential ?sv ?f tr ?w3 = ((view_of ?h, None), w6)"
    by (rule save_completes [where k = k and ?w1.0 = "?w3\<lparr>fw_rest := y3\<rparr>" and ?w2.0 = ?w5])
      (use assms(13-15) update in \<open>simp_all add: memory_flow_service_def lift_rest_def\<close>)
  have "service_complete ?sv c fid i w = ((view_of ?h, None), w6)"
    using assms(3,5,6,7,8,9,11) get driver consume exchange save id
    by (auto simp: service_complete_def complete_flow_def trim_input_def blank_def Let_def logged_driver_def)
  moreover have "vw_status (view_of ?h) = Some FlowComplete \<and> vw_credential_key (view_of ?h) = k"
    using assms(4) [of "fw_tick w + 3"]
    by (simp add: view_of_def Let_def flow_consumed_def consumed_entry_def consumed_flow_def updated_flow_def
        completed_flow_def is_zero_time_def eval_nat_numeral)
  moreover have "fw_rest w6 = y4" and tick6: "fw_tick w6 = fw_tick w + 6"
    using moved6 tick2 by (simp_all add: store_moved_def log_event_def)
  moreover have "fst (service_get ?sv c fid w6) = (view_of ?h, None)"
    using memory_get_live [where clk = clk, OF st6, of c cfg ext] assms(3) live [of "fw_tick w + 6"] tick6
    by (simp add: service_get_def)
  ultimately show ?thesis
    by blast
qed

lemma pending_world_inv: "flow_inv demo_flow_config (fw_store pending_world)"
proof -
  have "schedule_inv demo_flow_config demo_clock (seconds 5) ''f1'' (start_world ())"
    using flow_inv_new
    by (simp add: schedule_inv_def world_ok_def start_world_def created_times_def new_flow_store_def demo_clock_nonzero)
  moreover have "intervals_bounded demo_externals (seconds 5)"
    by (auto simp: intervals_bounded_def demo_externals_def demo_device_def demo_code_def default_interval_def split: if_splits)
  ultimately show ?thesis
    using schedule_calls [OF surjective_pairing]
    unfolding pending_world_def by (metis schedule_inv_def world_ok_def)
qed

theorem completed_flow_reads_back_witness:
  "\<exists>v w'. service_complete demo_flow_service local_caller ''f1'' code_input pending_world = ((v, None), w') \<and>
     vw_status v = Some FlowComplete \<and> vw_credential_key v = ''conn'' \<and>
     fst (service_get demo_flow_service local_caller ''f1'' w') = (v, None)"
proof -
  obtain e where e: "stored (fw_store pending_world) ''f1'' = Some e" "fl_caller (en_flow e) = local_caller"
    and p: "\<not> flow_consumed (en_flow e)" and m: "fl_method (en_flow e) = MethodBrowser"
    and st: "sc_state (fl_secrets (en_flow e)) = ''st''" and live: "\<not> flow_expired (en_flow e) (seconds 500)"
    using pending_world_flow by (auto split: option.splits)
  have "fw_tick pending_world = 3" by code_simp
  then have clk: "\<not> flow_expired (en_flow e) (demo_clock n) \<and> demo_clock n \<noteq> 0" if "n \<le> fw_tick pending_world + 8" for n
    using live that by (auto simp: flow_expired_def demo_clock_def)
  have i: "\<not> blank (ci_code code_input)" "blank (ci_error code_input)" "trim_space (ci_state code_input) = ''st''"
    "\<not> blank ''conn''"
    by code_simp+
  have meth: "fl_method (en_flow e) \<in> {MethodBrowser, MethodManual}" using m by simp
  have state: "blank (ci_state code_input) \<or> trim_space (ci_state code_input) = sc_state (fl_secrets (en_flow e))"
    using i(3) st by simp
  have drivers: "ex_drivers demo_externals (fl_instance (en_flow e)) (fl_method (en_flow e)) (fw_rest pending_world) =
      (Inr (Some demo_code), ())"
    using m by (simp add: demo_externals_def)
  have code: "dr_exchange demo_code = Some (\<lambda>f code y. (Inr (api_key_record ''token''), y))"
    by (simp add: demo_code_def)
  have ext: "\<And>cn. ex_key demo_externals cn () = (Inr ''conn'', ())"
    "ex_save demo_externals ''conn'' (api_key_record ''token'') () = (None, ())"
    by (simp_all add: demo_externals_def)
  show ?thesis
    using completed_flow_reads_back [where clk = demo_clock,
        OF pending_world_inv e clk p meth i(1,2) state drivers code refl ext(1) i(4) ext(2)]
    by blast
qed

end
