(* ===== verification/Sse_Relay.thy ===== *)
theory Sse_Relay
  imports Streaming
begin

text \<open>
  How \<^verbatim>\<open>engine.go\<close> relays a provider's stream to an HTTP client: the data of a server-sent event
  (\<^verbatim>\<open>sseData\<close>), the relay as it is (\<^verbatim>\<open>writeSSEStream\<close>) and the relay through a translator (the callbacks of
  \<^verbatim>\<open>handleMessages\<close>). What the handler does to its \<^verbatim>\<open>ResponseWriter\<close> is a list of writes. Reading a
  stream may never end, so the relays are partial functions.
\<close>

subsection \<open>Writes to the client\<close>

text \<open>
  \<open>WriteError\<close> is \<^verbatim>\<open>http.Error\<close> with the given status. \<open>WriteValue\<close> is \<^verbatim>\<open>json.NewEncoder(w).Encode\<close>.
\<close>

datatype 'v http_out =
    SetHeader string string | WriteStatus int | WriteValue 'v | WriteBytes string | WriteError int 'v | FlushOut

definition sse_headers :: "'v http_out list" where
  "sse_headers =
     [SetHeader ''Content-Type'' ''text/event-stream'', SetHeader ''Cache-Control'' ''no-cache'',
      SetHeader ''Connection'' ''keep-alive'']"

text \<open>One frame: the headers before the first, the bytes, and a flush when the writer can.\<close>

definition write_frame :: "bool \<Rightarrow> bool \<Rightarrow> string \<Rightarrow> 'v http_out list" where
  "write_frame flushes wrote frame =
     (if wrote then [] else sse_headers) @ WriteBytes frame # (if flushes then [FlushOut] else [])"

fun written_bytes :: "'v http_out list \<Rightarrow> string list" where
  "written_bytes [] = []"
| "written_bytes (WriteBytes b # os) = b # written_bytes os"
| "written_bytes (_ # os) = written_bytes os"

lemma written_bytes_append [simp]: "written_bytes (xs @ ys) = written_bytes xs @ written_bytes ys"
  by (induction xs rule: written_bytes.induct) auto

lemma written_bytes_frame [simp]: "written_bytes (write_frame flushes wrote frame) = [frame]"
  by (simp add: write_frame_def sse_headers_def)

lemma write_frame_nonempty [simp]: "write_frame flushes wrote frame \<noteq> []"
  by (simp add: write_frame_def)

subsection \<open>The data of a frame\<close>

abbreviation newline :: string where
  "newline \<equiv> [CHR 0x0A]"

fun crlf_to_lf :: "string \<Rightarrow> string" where
  "crlf_to_lf [] = []"
| "crlf_to_lf (c # cs) =
     (case cs of
        d # ds \<Rightarrow> (if c = CHR 0x0D \<and> d = CHR 0x0A then d # crlf_to_lf ds else c # crlf_to_lf cs)
      | [] \<Rightarrow> [c])"

definition data_value :: "string \<Rightarrow> string option" where
  "data_value line =
     (if has_prefix line ''data:''
      then (let v = trim_prefix line ''data:'' in
            Some (if has_prefix v '' '' then drop 1 v else v))
      else None)"

definition sse_values :: "string \<Rightarrow> string list" where
  "sse_values frame = List.map_filter data_value (split_on (CHR 0x0A) (crlf_to_lf frame))"

definition sse_data :: "string \<Rightarrow> string \<times> bool" where
  "sse_data frame = (join_with newline (sse_values frame), sse_values frame \<noteq> [])"

definition is_sse_done :: "string \<Rightarrow> bool" where
  "is_sse_done frame = (case sse_data frame of (payload, ok) \<Rightarrow> ok \<and> payload = ''[DONE]'')"

definition sse_data_payload :: "string \<Rightarrow> string \<times> bool \<times> bool" where
  "sse_data_payload frame =
     (case sse_data frame of
        (payload, ok) \<Rightarrow>
          (if \<not> ok then ([], False, False)
           else if payload = ''[DONE]'' then ([], True, True)
           else (payload, False, True)))"

subsection \<open>Relaying a stream as it is\<close>

definition err_after_done :: go_err where
  "err_after_done = Sentinel ''provider stream emitted an SSE event after data: [DONE]''"

definition err_before_done :: go_err where
  "err_before_done = Sentinel ''provider stream ended before data: [DONE]''"

partial_function (option) sse_loop ::
    "bool \<Rightarrow> 'w stream \<Rightarrow> bool \<Rightarrow> bool \<Rightarrow> 'v http_out list \<Rightarrow> 'w \<Rightarrow>
     ((go_err option \<times> bool \<times> 'v http_out list) \<times> 'w) option" where
  "sse_loop flushes s terminal wrote out w =
     (case sm_next s w of
        ((chunk, err), w1) \<Rightarrow>
          (if chunk \<noteq> [] \<and> terminal then Some ((Some err_after_done, wrote, out), w1)
           else
             (let wrote' = (wrote \<or> chunk \<noteq> []);
                  out' = (if chunk \<noteq> [] then out @ write_frame flushes wrote chunk else out);
                  terminal' = (terminal \<or> (chunk \<noteq> [] \<and> is_sse_done chunk))
              in case err of
                   None \<Rightarrow> sse_loop flushes s terminal' wrote' out' w1
                 | Some e \<Rightarrow>
                     (if e = IoEOF
                      then Some ((if terminal' then None else Some err_before_done, wrote', out'), w1)
                      else Some ((Some e, wrote', out'), w1)))))"

text \<open>\<^verbatim>\<open>writeSSEStream\<close>; the deferred close reports its error when there is no other.\<close>

definition write_sse_stream ::
    "bool \<Rightarrow> 'w stream \<Rightarrow> 'v http_out list \<Rightarrow> 'w \<Rightarrow>
     ((go_err option \<times> bool \<times> 'v http_out list) \<times> 'w) option" where
  "write_sse_stream flushes s out w =
     map_option
       (\<lambda>((err, wrote, out'), w1).
          case sm_close s w1 of
            (close_err, w2) \<Rightarrow> (((if err = None then close_err else err), wrote, out'), w2))
       (sse_loop flushes s False False out w)"

subsection \<open>Relaying through a translator\<close>

text \<open>
  llm-translate's stream translator only pulls payloads and emits events. Any such code is a strategy:
  what it emits, and what it does with the answer to a pull (\<open>None\<close> at the end of the chunks).
\<close>

codatatype translator = TrStop | TrEmit string translator | TrPull "string option \<Rightarrow> translator"

record ('w, 'v) relay =
  rl_err :: "go_err option"
  rl_pending :: "go_err option"
  rl_terminal :: bool
  rl_wrote :: bool
  rl_out :: "'v http_out list"
  rl_world :: 'w

partial_function (option) relay_pull ::
    "'w stream \<Rightarrow> ('w, 'v) relay \<Rightarrow> (string option \<times> ('w, 'v) relay) option" where
  "relay_pull s r =
     (case rl_pending r of
        Some e \<Rightarrow> Some (None, r\<lparr>rl_err := Some e\<rparr>)
      | None \<Rightarrow>
          (case sm_next s (rl_world r) of
             ((b, err), w1) \<Rightarrow>
               (let r1 = r\<lparr>rl_world := w1\<rparr> in
                if b = []
                then (case err of
                        Some e \<Rightarrow> Some (None, r1\<lparr>rl_err := Some (if e = IoEOF then err_before_done else e)\<rparr>)
                      | None \<Rightarrow> relay_pull s r1)
                else
                  (case sse_data_payload b of
                     (payload, done', ok) \<Rightarrow>
                       (if done' then Some (None, r1\<lparr>rl_pending := None, rl_terminal := True\<rparr>)
                        else if ok then Some (Some payload, r1\<lparr>rl_pending := err\<rparr>)
                        else relay_pull s (r1\<lparr>rl_pending := err\<rparr>))))))"

definition relay_emit :: "bool \<Rightarrow> string \<Rightarrow> ('w, 'v) relay \<Rightarrow> ('w, 'v) relay" where
  "relay_emit flushes event r =
     (if rl_err r \<noteq> None then r
      else r\<lparr>rl_wrote := True, rl_out := rl_out r @ write_frame flushes (rl_wrote r) event\<rparr>)"

partial_function (option) run_translator ::
    "bool \<Rightarrow> 'w stream \<Rightarrow> translator \<Rightarrow> ('w, 'v) relay \<Rightarrow> ('w, 'v) relay option" where
  "run_translator flushes s tr r =
     (case tr of
        TrStop \<Rightarrow> Some r
      | TrEmit event tr' \<Rightarrow> run_translator flushes s tr' (relay_emit flushes event r)
      | TrPull f \<Rightarrow>
          (case relay_pull s r of
             None \<Rightarrow> None
           | Some (answer, r') \<Rightarrow> run_translator flushes s (f answer) r'))"

definition new_relay :: "'v http_out list \<Rightarrow> 'w \<Rightarrow> ('w, 'v) relay" where
  "new_relay out w =
     \<lparr>rl_err = None, rl_pending = None, rl_terminal = False, rl_wrote = False, rl_out = out, rl_world = w\<rparr>"

subsection \<open>What a relay sends\<close>

definition live :: "'w \<Rightarrow> go_err option \<times> 'w" where
  "live w = (None, w)"

fun frame_writes :: "bool \<Rightarrow> bool \<Rightarrow> string list \<Rightarrow> 'v http_out list" where
  "frame_writes flushes wrote [] = []"
| "frame_writes flushes wrote (f # fs) = write_frame flushes wrote f @ frame_writes flushes True fs"

lemma frame_writes_append:
  "frame_writes flushes wrote (fs @ gs) = frame_writes flushes wrote fs @ frame_writes flushes (wrote \<or> fs \<noteq> []) gs"
  by (induction fs arbitrary: wrote) auto

lemma written_frame_writes [simp]: "written_bytes (frame_writes flushes wrote fs) = fs"
  by (induction fs arbitrary: wrote) auto

lemma frame_writes_Nil_iff [simp]: "frame_writes flushes wrote fs = [] \<longleftrightarrow> fs = []"
  by (cases fs) auto

text \<open>No frame follows the one that says the stream is done.\<close>

fun proper_frames :: "bool \<Rightarrow> string list \<Rightarrow> bool" where
  "proper_frames finished [] = True"
| "proper_frames finished (f # fs) \<longleftrightarrow> \<not> finished \<and> proper_frames (is_sse_done f) fs"

lemma proper_frames_snoc:
  "proper_frames finished (fs @ [f]) \<longleftrightarrow>
     proper_frames finished fs \<and> \<not> finished \<and> \<not> list_ex is_sse_done fs"
  by (induction fs arbitrary: finished) auto

lemma proper_frames_done:
  "proper_frames False fs \<Longrightarrow> list_ex is_sse_done fs \<Longrightarrow>
     \<exists>front f. fs = front @ [f] \<and> is_sse_done f \<and> \<not> list_ex is_sse_done front"
  by (cases fs rule: rev_cases) (auto simp: proper_frames_snoc)

definition sse_ends ::
    "bool \<Rightarrow> 'w stream \<Rightarrow> bool \<Rightarrow> bool \<Rightarrow> 'v http_out list \<Rightarrow> 'w \<Rightarrow>
     (go_err option \<times> bool \<times> 'v http_out list) \<times> 'w \<Rightarrow> bool" where
  "sse_ends flushes s terminal wrote out w res \<longleftrightarrow>
     (case res of ((err, wrote', out'), w') \<Rightarrow>
        (\<exists>final eo. sm_next s w = ((final, eo), w') \<and>
           (if final \<noteq> [] \<and> terminal then err = Some err_after_done \<and> wrote' = wrote \<and> out' = out
            else wrote' = (wrote \<or> final \<noteq> []) \<and> out' = out @ frame_writes flushes wrote (real_frames [final]) \<and>
              (case eo of
                 None \<Rightarrow> False
               | Some e \<Rightarrow>
                   err = (if e = IoEOF
                          then (if terminal \<or> (final \<noteq> [] \<and> is_sse_done final) then None else Some err_before_done)
                          else Some e)))))"

definition sse_post ::
    "bool \<Rightarrow> 'w stream \<Rightarrow> bool \<Rightarrow> bool \<Rightarrow> 'v http_out list \<Rightarrow> 'w \<Rightarrow>
     (go_err option \<times> bool \<times> 'v http_out list) \<times> 'w \<Rightarrow> bool" where
  "sse_post flushes s terminal wrote out w res \<longleftrightarrow>
     (\<exists>read w1. pulls live s w read w1 \<and> proper_frames terminal (real_frames read) \<and>
        sse_ends flushes s (terminal \<or> list_ex is_sse_done (real_frames read)) (wrote \<or> real_frames read \<noteq> [])
          (out @ frame_writes flushes wrote (real_frames read)) w1 res)"

lemma sse_post_now: "sse_ends flushes s terminal wrote out w res \<Longrightarrow> sse_post flushes s terminal wrote out w res"
  unfolding sse_post_def by (intro exI [of _ "[]"] exI [of _ w]) simp

lemma sse_post_step:
  assumes "sse_post flushes s (terminal \<or> (chunk \<noteq> [] \<and> is_sse_done chunk)) (wrote \<or> chunk \<noteq> [])
      (out @ frame_writes flushes wrote (real_frames [chunk])) w1 res"
    and "sm_next s w = ((chunk, None), w1)" and "\<not> (chunk \<noteq> [] \<and> terminal)"
  shows "sse_post flushes s terminal wrote out w res"
proof -
  from assms(1) obtain read w2 where q: "pulls live s w1 read w2"
      "proper_frames (terminal \<or> (chunk \<noteq> [] \<and> is_sse_done chunk)) (real_frames read)"
    and e: "sse_ends flushes s ((terminal \<or> (chunk \<noteq> [] \<and> is_sse_done chunk)) \<or> list_ex is_sse_done (real_frames read))
      ((wrote \<or> chunk \<noteq> []) \<or> real_frames read \<noteq> [])
      ((out @ frame_writes flushes wrote (real_frames [chunk])) @
         frame_writes flushes (wrote \<or> chunk \<noteq> []) (real_frames read)) w2 res"
    unfolding sse_post_def by blast
  have "pulls live s w (chunk # read) w2"
    using assms(2) q(1) by (auto intro: pulls_frame simp: live_def)
  moreover have "proper_frames terminal (real_frames (chunk # read))"
    using q(2) assms(3) by (auto split: if_splits)
  moreover have "sse_ends flushes s (terminal \<or> list_ex is_sse_done (real_frames (chunk # read)))
      (wrote \<or> real_frames (chunk # read) \<noteq> [])
      (out @ frame_writes flushes wrote (real_frames (chunk # read))) w2 res"
    using e by (cases "chunk = []") (simp_all add: disj_assoc disj_commute)
  ultimately show ?thesis
    unfolding sse_post_def by blast
qed

lemma sse_loop_post:
  assumes "sse_loop flushes s terminal wrote out w = Some res"
  shows "sse_post flushes s terminal wrote out w res"
proof (rule sse_loop.raw_induct [of sse_post, OF _ assms])
  fix loop :: "bool \<Rightarrow> 'w stream \<Rightarrow> bool \<Rightarrow> bool \<Rightarrow> 'v http_out list \<Rightarrow> 'w \<Rightarrow>
     ((go_err option \<times> bool \<times> 'v http_out list) \<times> 'w) option"
  fix flushes s terminal wrote and out :: "'v http_out list" and w :: 'w and res
  assume IH: "\<And>flushes s terminal wrote out w res. loop flushes s terminal wrote out w = Some res \<Longrightarrow>
      sse_post flushes s terminal wrote out w res"
    and step: "(case sm_next s w of
        ((chunk, err), w1) \<Rightarrow>
          (if chunk \<noteq> [] \<and> terminal then Some ((Some err_after_done, wrote, out), w1)
           else
             (let wrote' = (wrote \<or> chunk \<noteq> []);
                  out' = (if chunk \<noteq> [] then out @ write_frame flushes wrote chunk else out);
                  terminal' = (terminal \<or> (chunk \<noteq> [] \<and> is_sse_done chunk))
              in case err of
                   None \<Rightarrow> loop flushes s terminal' wrote' out' w1
                 | Some e \<Rightarrow>
                     (if e = IoEOF
                      then Some ((if terminal' then None else Some err_before_done, wrote', out'), w1)
                      else Some ((Some e, wrote', out'), w1))))) = Some res"
  obtain chunk eo w1 where nx: "sm_next s w = ((chunk, eo), w1)" by (metis surj_pair)
  have out: "(if chunk \<noteq> [] then out @ write_frame flushes wrote chunk else out) =
      out @ frame_writes flushes wrote (real_frames [chunk])"
    by simp
  consider (over) "chunk \<noteq> []" terminal | (ended) e where "\<not> (chunk \<noteq> [] \<and> terminal)" "eo = Some e"
    | (more) "\<not> (chunk \<noteq> [] \<and> terminal)" "eo = None"
    by (cases eo) auto
  then show "sse_post flushes s terminal wrote out w res"
  proof cases
    case over
    with nx step show ?thesis by (intro sse_post_now) (auto simp: sse_ends_def)
  next
    case ended
    with nx step show ?thesis
      by (intro sse_post_now) (auto simp: sse_ends_def Let_def split: if_splits)
  next
    case more
    with nx step have "loop flushes s (terminal \<or> (chunk \<noteq> [] \<and> is_sse_done chunk)) (wrote \<or> chunk \<noteq> [])
        (out @ frame_writes flushes wrote (real_frames [chunk])) w1 = Some res"
      unfolding out [symmetric] by (simp add: Let_def)
    from sse_post_step [OF IH [OF this]] nx more show ?thesis by simp
  qed
qed

text \<open>The relay of a stream that ends or fails, in closed form.\<close>

lemma sse_loop_pulls:
  "pulls live s w read w1 \<Longrightarrow> sm_next s w1 = ((final, Some e), w2) \<Longrightarrow>
     proper_frames terminal (real_frames (read @ [final])) \<Longrightarrow>
     sse_loop flushes s terminal wrote out w =
       Some ((if e = IoEOF
              then (if terminal \<or> list_ex is_sse_done (real_frames (read @ [final])) then None else Some err_before_done)
              else Some e,
              wrote \<or> real_frames (read @ [final]) \<noteq> [],
              out @ frame_writes flushes wrote (real_frames (read @ [final]))), w2)"
proof (induction arbitrary: terminal wrote out rule: pulls.induct)
  case (pulls_done w)
  then show ?case by (subst sse_loop.simps) (auto simp: Let_def)
next
  case (pulls_frame w w1' frame w2' frames w')
  then have n: "sm_next s w = ((frame, None), w2')"
    by (simp add: live_def)
  have "\<not> (frame \<noteq> [] \<and> terminal)"
    using pulls_frame.prems(2) by auto
  then show ?case
    by (subst sse_loop.simps)
      (use pulls_frame.IH [of "terminal \<or> (frame \<noteq> [] \<and> is_sse_done frame)"] pulls_frame.prems
        in \<open>auto simp: n Let_def\<close>)
qed

lemma write_sse_stream_loop:
  "write_sse_stream flushes s out w = Some ((err, wrote, out'), w') \<Longrightarrow>
     \<exists>err1 w1. sse_loop flushes s False False out w = Some ((err1, wrote, out'), w1) \<and>
       w' = snd (sm_close s w1) \<and> err = (if err1 = None then fst (sm_close s w1) else err1)"
  unfolding write_sse_stream_def
  by (cases "sse_loop flushes s False False out w") (fastforce simp: split_beta)+

lemma write_sse_stream_post:
  "write_sse_stream flushes s out w = Some ((err, wrote, out'), w') \<Longrightarrow>
     \<exists>err1 w1. sse_post flushes s False False out w ((err1, wrote, out'), w1) \<and>
       w' = snd (sm_close s w1) \<and> err = (if err1 = None then fst (sm_close s w1) else err1)"
  using write_sse_stream_loop sse_loop_post by meson

text \<open>
  What the relay wrote: every nonempty frame it read, in order, at most one of which says the stream is
  done, and that one last; nothing else, and nothing at all when it reports that it wrote nothing.
\<close>

lemma sse_post_writes:
  assumes "sse_post flushes s False False out w ((err, wrote, out'), w')"
  shows "\<exists>frames. out' = out @ frame_writes flushes False frames \<and> proper_frames False frames \<and>
    (wrote \<longleftrightarrow> frames \<noteq> []) \<and> (err = None \<longrightarrow> list_ex is_sse_done frames)"
proof -
  from assms obtain read w1 final eo where p: "proper_frames False (real_frames read)"
    and e: "sse_ends flushes s (list_ex is_sse_done (real_frames read)) (real_frames read \<noteq> [])
      (out @ frame_writes flushes False (real_frames read)) w1 ((err, wrote, out'), w')"
    unfolding sse_post_def by auto
  then obtain final eo where n: "sm_next s w1 = ((final, eo), w')"
    and c: "if final \<noteq> [] \<and> list_ex is_sse_done (real_frames read)
      then err = Some err_after_done \<and> wrote = (real_frames read \<noteq> []) \<and> out' = out @ frame_writes flushes False (real_frames read)
      else wrote = (real_frames read \<noteq> [] \<or> final \<noteq> []) \<and>
        out' = (out @ frame_writes flushes False (real_frames read)) @ frame_writes flushes (real_frames read \<noteq> []) (real_frames [final]) \<and>
        (case eo of None \<Rightarrow> False | Some e \<Rightarrow>
           err = (if e = IoEOF then (if list_ex is_sse_done (real_frames read) \<or> (final \<noteq> [] \<and> is_sse_done final) then None
                                     else Some err_before_done) else Some e))"
    unfolding sse_ends_def by (auto split: prod.splits)
  show ?thesis
  proof (cases "final \<noteq> [] \<and> list_ex is_sse_done (real_frames read)")
    case True
    with c p show ?thesis by (intro exI [of _ "real_frames read"]) auto
  next
    case False
    let ?fs = "real_frames (read @ [final])"
    have "proper_frames False ?fs"
      using p False by (auto simp: proper_frames_snoc)
    moreover have "out' = out @ frame_writes flushes False ?fs"
      using c False by (simp add: frame_writes_append)
    ultimately show ?thesis
      using c False by (intro exI [of _ ?fs]) (auto split: option.splits if_splits)
  qed
qed

lemma write_sse_untouched: "write_sse_stream flushes s out w = Some ((err, False, out'), w') \<Longrightarrow> out' = out"
  using write_sse_stream_post sse_post_writes by fastforce


definition demo_frames :: "string list" where
  "demo_frames = [''data: hi'' @ newline @ newline, [], ''data: [DONE]'' @ newline @ newline]"

lemma demo_frames_done:
  "is_sse_done (''data: [DONE]'' @ newline @ newline)" "\<not> is_sse_done (''data: hi'' @ newline @ newline)"
  by code_simp+

lemma demo_relay:
  "write_sse_stream False demo_stream ([] :: unit http_out list) demo_frames =
     Some ((None, True, sse_headers @ [WriteBytes (''data: hi'' @ newline @ newline),
       WriteBytes (''data: [DONE]'' @ newline @ newline)]), [])"
proof -
  have "sse_loop False demo_stream False False ([] :: unit http_out list) demo_frames =
     Some ((None, True, sse_headers @ [WriteBytes (''data: hi'' @ newline @ newline),
       WriteBytes (''data: [DONE]'' @ newline @ newline)]), [])"
    unfolding demo_frames_def
    using demo_frames_done
    by (simp add: sse_loop.simps demo_stream_def write_frame_def Let_def)
  then show ?thesis
    by (simp add: write_sse_stream_def demo_stream_def)
qed


text \<open>
  C22. The relay returns, with the answer it should: if the stream, read from the given world, ends or fails
  after frames of which none follows the done frame, the relay closes it once, writes exactly its
  nonempty frames, and reports the failure, the missing done frame, or else what the close reports.
\<close>
theorem relay_returns:
  assumes "pulls live s w read w1" and "sm_next s w1 = ((final, Some e), w2)"
    and "proper_frames False (real_frames (read @ [final]))"
  shows "write_sse_stream flushes s out w =
    Some ((if e \<noteq> IoEOF then Some e
           else if list_ex is_sse_done (real_frames (read @ [final])) then fst (sm_close s w2)
           else Some err_before_done,
           real_frames (read @ [final]) \<noteq> [],
           out @ frame_writes flushes False (real_frames (read @ [final]))), snd (sm_close s w2))"
  unfolding write_sse_stream_def sse_loop_pulls [OF assms]
  by (simp add: split_beta)

theorem relay_returns_witness:
  "write_sse_stream True demo_stream ([] :: unit http_out list) [''data: hi'' @ newline @ newline] =
     Some ((Some err_before_done, True, sse_headers @ [WriteBytes (''data: hi'' @ newline @ newline), FlushOut]), [])"
proof -
  have p: "pulls live demo_stream [''data: hi'' @ newline @ newline] [''data: hi'' @ newline @ newline] []"
    by (rule pulls_frame [where ?w1.0 = "[''data: hi'' @ newline @ newline]" and ?w2.0 = "[]"])
      (simp_all add: live_def demo_stream_def)
  show ?thesis
    using relay_returns [OF p, where final = "[]" and e = IoEOF and ?w2.0 = "[]" and flushes = True and out = "[]"]
      demo_frames_done
    by (simp add: demo_stream_def write_frame_def)
qed

subsection \<open>What a translated relay sends\<close>

definition relay_step :: "bool \<Rightarrow> ('w, 'v) relay \<Rightarrow> ('w, 'v) relay \<Rightarrow> bool" where
  "relay_step flushes r r' \<longleftrightarrow>
     (\<exists>events. rl_out r' = rl_out r @ frame_writes flushes (rl_wrote r) events \<and>
        rl_wrote r' = (rl_wrote r \<or> events \<noteq> []) \<and> (rl_err r \<noteq> None \<longrightarrow> events = [] \<and> rl_err r' \<noteq> None))"

lemma relay_step_refl: "relay_step flushes r r"
  unfolding relay_step_def by (intro exI [of _ "[]"]) simp

lemma relay_step_trans: "relay_step flushes r r1 \<Longrightarrow> relay_step flushes r1 r2 \<Longrightarrow> relay_step flushes r r2"
proof -
  assume "relay_step flushes r r1" "relay_step flushes r1 r2"
  then obtain es fs where "rl_out r1 = rl_out r @ frame_writes flushes (rl_wrote r) es"
      "rl_wrote r1 = (rl_wrote r \<or> es \<noteq> [])" "rl_err r \<noteq> None \<longrightarrow> es = [] \<and> rl_err r1 \<noteq> None"
      "rl_out r2 = rl_out r1 @ frame_writes flushes (rl_wrote r1) fs"
      "rl_wrote r2 = (rl_wrote r1 \<or> fs \<noteq> [])" "rl_err r1 \<noteq> None \<longrightarrow> fs = [] \<and> rl_err r2 \<noteq> None"
    unfolding relay_step_def by blast
  then show ?thesis
    unfolding relay_step_def by (intro exI [of _ "es @ fs"]) (auto simp: frame_writes_append)
qed

lemma relay_step_emit: "relay_step flushes r (relay_emit flushes event r)"
  unfolding relay_step_def relay_emit_def
  by (intro exI [of _ "if rl_err r = None then [event] else []"]) simp

definition relay_keeps :: "('w, 'v) relay \<Rightarrow> ('w, 'v) relay \<Rightarrow> bool" where
  "relay_keeps r r' \<longleftrightarrow>
     rl_out r' = rl_out r \<and> rl_wrote r' = rl_wrote r \<and> (rl_err r \<noteq> None \<longrightarrow> rl_err r' \<noteq> None)"

lemma relay_pull_keeps:
  assumes "relay_pull s r = Some (answer, r')"
  shows "relay_keeps r r'"
proof -
  have "\<forall>answer r'. res = (answer, r') \<longrightarrow> relay_keeps r r'" if "relay_pull s r = Some res" for res
  proof (rule relay_pull.raw_induct [of "\<lambda>s r res. \<forall>answer r'. res = (answer, r') \<longrightarrow> relay_keeps r r'", OF _ that])
    fix pull :: "'w stream \<Rightarrow> ('w, 'v) relay \<Rightarrow> (string option \<times> ('w, 'v) relay) option"
    fix s r res
    assume IH: "\<And>s r res. pull s r = Some res \<Longrightarrow> \<forall>answer r'. res = (answer, r') \<longrightarrow> relay_keeps r r'"
      and step: "(case rl_pending r of
        Some e \<Rightarrow> Some (None, r\<lparr>rl_err := Some e\<rparr>)
      | None \<Rightarrow>
          (case sm_next s (rl_world r) of
             ((b, err), w1) \<Rightarrow>
               (let r1 = r\<lparr>rl_world := w1\<rparr> in
                if b = []
                then (case err of
                        Some e \<Rightarrow> Some (None, r1\<lparr>rl_err := Some (if e = IoEOF then err_before_done else e)\<rparr>)
                      | None \<Rightarrow> pull s r1)
                else
                  (case sse_data_payload b of
                     (payload, done', ok) \<Rightarrow>
                       (if done' then Some (None, r1\<lparr>rl_pending := None, rl_terminal := True\<rparr>)
                        else if ok then Some (Some payload, r1\<lparr>rl_pending := err\<rparr>)
                        else pull s (r1\<lparr>rl_pending := err\<rparr>)))))) = Some res"
    obtain b eo w1 where n: "sm_next s (rl_world r) = ((b, eo), w1)" by (metis surj_pair)
    obtain p d k where d: "sse_data_payload b = (p, d, k)" by (metis surj_pair)
    have again: "pull s r1 = Some res \<Longrightarrow> relay_keeps r r1 \<Longrightarrow> \<forall>answer r'. res = (answer, r') \<longrightarrow> relay_keeps r r'" for r1
      using IH [of s r1 res] by (auto simp: relay_keeps_def)
    show "\<forall>answer r'. res = (answer, r') \<longrightarrow> relay_keeps r r'"
    proof (cases "rl_pending r = None \<and> (b = [] \<and> eo = None \<or> b \<noteq> [] \<and> \<not> d \<and> \<not> k)")
      case True
      then show ?thesis
      proof (cases "b = []")
        case True
        with \<open>rl_pending r = None \<and> _\<close> step n show ?thesis
          by (intro again [of "r\<lparr>rl_world := w1\<rparr>"]) (auto simp: Let_def relay_keeps_def)
      next
        case False
        with \<open>rl_pending r = None \<and> _\<close> step n d show ?thesis
          by (intro again [of "r\<lparr>rl_world := w1, rl_pending := eo\<rparr>"]) (auto simp: Let_def relay_keeps_def)
      qed
    next
      case False
      with step n d show ?thesis
        by (auto simp: Let_def relay_keeps_def split: option.splits if_splits)
    qed
  qed
  with assms show ?thesis by blast
qed

lemma relay_step_pull: "relay_pull s r = Some (answer, r') \<Longrightarrow> relay_step flushes r r'"
  unfolding relay_step_def
  by (intro exI [of _ "[]"]) (auto dest!: relay_pull_keeps simp: relay_keeps_def)

lemma run_translator_step:
  assumes "run_translator flushes s tr r = Some r'"
  shows "relay_step flushes r r'"
proof (rule run_translator.raw_induct [of "\<lambda>flushes s tr r r'. relay_step flushes r r'", OF _ assms])
  fix run :: "bool \<Rightarrow> 'w stream \<Rightarrow> translator \<Rightarrow> ('w, 'v) relay \<Rightarrow> ('w, 'v) relay option"
  fix flushes s tr r and r' :: "('w, 'v) relay"
  assume IH: "\<And>flushes s tr r r'. run flushes s tr r = Some r' \<Longrightarrow> relay_step flushes r r'"
    and step: "(case tr of
        TrStop \<Rightarrow> Some r
      | TrEmit event tr' \<Rightarrow> run flushes s tr' (relay_emit flushes event r)
      | TrPull f \<Rightarrow>
          (case relay_pull s r of
             None \<Rightarrow> None
           | Some (answer, r') \<Rightarrow> run flushes s (f answer) r')) = Some r'"
  show "relay_step flushes r r'"
  proof (cases tr)
    case TrStop
    with step show ?thesis by (simp add: relay_step_refl)
  next
    case (TrEmit event tr')
    with step have "run flushes s tr' (relay_emit flushes event r) = Some r'" by simp
    from relay_step_trans [OF relay_step_emit IH [OF this]] show ?thesis .
  next
    case (TrPull f)
    with step obtain answer r1 where "relay_pull s r = Some (answer, r1)" "run flushes s (f answer) r1 = Some r'"
      by (auto split: option.splits)
    from relay_step_trans [OF relay_step_pull [OF this(1)] IH [OF this(2)]] show ?thesis .
  qed
qed

text \<open>
  Whatever the translator does, the client gets its events one frame each, with the headers before the
  first of them only and nothing else, so the response is untouched exactly when it wrote none; and
  from the moment the provider's stream failed nothing more is written and the failure is kept.
\<close>
theorem translated_relay_writes_events:
  assumes "run_translator flushes s tr r = Some r'"
  shows "\<exists>events. rl_out r' = rl_out r @ frame_writes flushes (rl_wrote r) events \<and>
    written_bytes (rl_out r') = written_bytes (rl_out r) @ events \<and>
    rl_wrote r' = (rl_wrote r \<or> events \<noteq> []) \<and>
    (rl_err r \<noteq> None \<longrightarrow> rl_out r' = rl_out r \<and> rl_err r' \<noteq> None)"
proof -
  obtain events where "rl_out r' = rl_out r @ frame_writes flushes (rl_wrote r) events"
      "rl_wrote r' = (rl_wrote r \<or> events \<noteq> [])" "rl_err r \<noteq> None \<longrightarrow> events = [] \<and> rl_err r' \<noteq> None"
    using run_translator_step [OF assms] unfolding relay_step_def by blast
  then show ?thesis
    by (intro exI [of _ events]) simp
qed

text \<open>A translator that passes each payload on and stops at the end of the chunks.\<close>

primcorec copy_from :: "string option option \<Rightarrow> translator" where
  "copy_from st =
     (case st of
        None \<Rightarrow> TrPull (\<lambda>answer. copy_from (Some answer))
      | Some None \<Rightarrow> TrStop
      | Some (Some p) \<Rightarrow> TrEmit p (copy_from None))"

lemma demo_translated:
  "run_translator False demo_stream (copy_from None) (new_relay [] demo_frames) =
     Some \<lparr>rl_err = None, rl_pending = None, rl_terminal = True, rl_wrote = True,
           rl_out = sse_headers @ [WriteBytes ''hi''], rl_world = []\<rparr>"
proof -
  have p: "sse_data_payload (''data: hi'' @ newline @ newline) = (''hi'', False, True)"
    "sse_data_payload (''data: [DONE]'' @ newline @ newline) = ([], True, True)"
    by code_simp+
  show ?thesis
    unfolding demo_frames_def using p
    by (simp add: run_translator.simps relay_pull.simps demo_stream_def copy_from.code
        relay_emit_def write_frame_def new_relay_def Let_def)
qed

theorem translated_relay_writes_events_witness:
  "\<exists>events. sse_headers @ [WriteBytes ''hi''] = (frame_writes False False events :: unit http_out list) \<and> events \<noteq> []"
  using translated_relay_writes_events [OF demo_translated] by (auto simp: new_relay_def)

subsection \<open>Events read back\<close>

text \<open>An event whose data has the given lines, each line ended by \<open>eol\<close>, with the blank line that ends it.\<close>

definition sse_event :: "string \<Rightarrow> string list \<Rightarrow> string" where
  "sse_event eol ls = concat (map (\<lambda>l. ''data: '' @ l @ eol) ls) @ eol"

definition plain_line :: "string \<Rightarrow> bool" where
  "plain_line l \<longleftrightarrow> CHR 0x0A \<notin> set l \<and> CHR 0x0D \<notin> set l"

lemma crlf_to_lf_plain: "CHR 0x0D \<notin> set l \<Longrightarrow> crlf_to_lf (l @ r) = l @ crlf_to_lf r"
proof (induction l)
  case Nil
  then show ?case by simp
next
  case (Cons c l)
  then show ?case by (cases "l @ r") auto
qed

lemma crlf_to_lf_eol:
  "eol = newline \<or> eol = CHR 0x0D # newline \<Longrightarrow> crlf_to_lf (eol @ r) = newline @ crlf_to_lf r"
  by (cases r) auto

lemma crlf_to_lf_event:
  assumes "eol = newline \<or> eol = CHR 0x0D # newline" and "list_all plain_line ls"
  shows "crlf_to_lf (sse_event eol ls) = sse_event newline ls"
  using assms(2)
proof (induction ls)
  case Nil
  then show ?case
    using crlf_to_lf_eol [OF assms(1), of "[]"] by (simp add: sse_event_def)
next
  case (Cons l ls)
  have p: "CHR 0x0D \<notin> set (''data: '' @ l)"
    using Cons.prems by (auto simp: plain_line_def)
  have "crlf_to_lf (sse_event eol (l # ls)) = crlf_to_lf ((''data: '' @ l) @ eol @ sse_event eol ls)"
    by (simp add: sse_event_def)
  also have "\<dots> = (''data: '' @ l) @ newline @ sse_event newline ls"
    unfolding crlf_to_lf_plain [OF p] crlf_to_lf_eol [OF assms(1)] using Cons by simp
  finally show ?case by (simp add: sse_event_def)
qed

lemma split_on_line: "d \<notin> set l \<Longrightarrow> split_on d (l @ d # r) = l # split_on d r"
  by (induction l) auto

lemma data_value_line: "data_value (''data: '' @ l) = Some l"
  by (simp add: data_value_def trim_prefix_def)

lemma split_on_event:
  "list_all plain_line ls \<Longrightarrow>
     split_on (CHR 0x0A) (sse_event newline ls) = map (\<lambda>l. ''data: '' @ l) ls @ [[], []]"
proof (induction ls)
  case Nil
  then show ?case by (simp add: sse_event_def)
next
  case (Cons l ls)
  have "split_on (CHR 0x0A) (sse_event newline (l # ls)) =
      split_on (CHR 0x0A) ((''data: '' @ l) @ CHR 0x0A # sse_event newline ls)"
    by (simp add: sse_event_def)
  also have "\<dots> = (''data: '' @ l) # split_on (CHR 0x0A) (sse_event newline ls)"
    using Cons.prems by (intro split_on_line) (auto simp: plain_line_def)
  finally show ?case using Cons by simp
qed

lemma map_filter_data_lines: "List.map_filter data_value (map (\<lambda>l. ''data: '' @ l) ls @ [[], []]) = ls"
proof (induction ls)
  case Nil
  then show ?case by (simp add: List.map_filter_def data_value_def)
next
  case (Cons l ls)
  then show ?case using data_value_line [of l] by (simp add: List.map_filter_def)
qed

text \<open>
  C24. The data of an event reads back: for lines without line breaks of their own, whatever they hold, and
  for either line end, the data of their event is the lines joined by line feeds, and there is data
  exactly when there is a line.
\<close>
theorem sse_data_roundtrip:
  assumes "eol = newline \<or> eol = CHR 0x0D # newline" and "list_all plain_line ls"
  shows "sse_data (sse_event eol ls) = (join_with newline ls, ls \<noteq> []) \<and>
    is_sse_done (sse_event eol ls) = (ls = [''[DONE]''])"
proof -
  have v: "sse_values (sse_event eol ls) = ls"
    unfolding sse_values_def crlf_to_lf_event [OF assms] split_on_event [OF assms(2)]
    by (rule map_filter_data_lines)
  have j: "join_with newline ls = ''[DONE]'' \<Longrightarrow> ls \<noteq> [] \<Longrightarrow> ls = [''[DONE]'']"
  proof (cases ls)
    case (Cons a as)
    assume e: "join_with newline ls = ''[DONE]''"
    show ?thesis
    proof (cases as)
      case Nil
      with Cons e show ?thesis by simp
    next
      case c: (Cons b bs)
      have "CHR 0x0A \<in> set (join_with newline ls)"
        using Cons c by simp
      with e show ?thesis by simp
    qed
  qed simp
  show ?thesis
    using v j by (auto simp: sse_data_def is_sse_done_def)
qed

theorem sse_data_roundtrip_witness:
  "sse_data (sse_event (CHR 0x0D # newline) [''{a:'', '' 1}'']) = (''{a:'' @ newline @ '' 1}'', True)"
  using sse_data_roundtrip [of "CHR 0x0D # newline" "[''{a:'', '' 1}'']"] by (simp add: plain_line_def)

end
