(* ===== verification/Contracts.thy ===== *)
theory Contracts
  imports Catalog_Store Credentials
begin

text \<open>
  \<^verbatim>\<open>provider_contracts.go\<close>: connections, exact targets, and the orchestrator that connects a
  provider (authentication, discovery, probes, publication) through an adapter, whose operations are
  functions on the world. \<open>None\<close> for a health stands for Go's zero evidence, before any was observed.
  A nil list and an empty one are both \<open>[]\<close>.
\<close>

subsection \<open>Connections\<close>

datatype connection_kind =
    ConnSystem | ConnPersonal | ConnPersonalSubscription | ConnAnonymous | OtherConnection string

datatype auth_kind =
    AuthAPIKey | AuthOAuthDevice | AuthOAuthBrowser | AuthServiceAccount | AuthWorkloadIdentity
  | AuthOfficialClient | AuthAnonymous | OtherAuth string

record connection =
  pc_id :: string
  pc_provider :: string
  pc_kind :: connection_kind
  pc_auth :: auth_kind
  pc_owner :: string
  pc_credential :: "credential option"

definition err_provider_required :: go_err where
  "err_provider_required = Sentinel ''provider id is required''"

definition is_codex_provider :: "string \<Rightarrow> bool" where
  "is_codex_provider p \<longleftrightarrow> to_lower (trim_space p) \<in> {''codex'', ''openai_codex'', ''chatgpt''}"

definition connection_validate :: "connection \<Rightarrow> go_err option" where
  "connection_validate c =
     (if blank (pc_provider c) then Some err_provider_required
      else if pc_kind c = ConnAnonymous \<and> pc_auth c \<noteq> AuthAnonymous
      then Some (Sentinel ''anonymous connections require anonymous auth'')
      else if pc_auth c = AuthAnonymous \<and> pc_kind c \<noteq> ConnAnonymous
      then Some (Sentinel ''anonymous auth requires an anonymous connection'')
      else if is_codex_provider (pc_provider c)
      then (if pc_kind c \<noteq> ConnPersonalSubscription \<or> pc_auth c \<noteq> AuthOAuthDevice
            then Some (Sentinel ''codex requires a personal subscription OAuth device connection'')
            else if blank (pc_owner c) then Some (Sentinel ''codex requires a connection owner'')
            else None)
      else None)"

subsection \<open>Publishing exact targets\<close>

datatype probe_status = ProbeNotProbed | ProbeVerified | ProbeFailed | OtherProbe string

record completion_probe =
  cp_target :: target
  cp_status :: probe_status
  cp_observed_at :: gtime
  cp_latency :: duration
  cp_failure_code :: string

definition inference_verified :: "completion_probe \<Rightarrow> bool" where
  "inference_verified p \<longleftrightarrow>
     cp_status p = ProbeVerified \<and> tg_provider (cp_target p) \<noteq> [] \<and> tg_model (cp_target p) \<noteq> []"

datatype publication_policy = PublishDiscovered | PublishVerified | OtherPublication string

definition publication_supported :: "publication_policy \<Rightarrow> bool" where
  "publication_supported p \<longleftrightarrow> p = PublishDiscovered \<or> p = PublishVerified"

definition verified_targets :: "completion_probe list \<Rightarrow> target set" where
  "verified_targets probes = set (map cp_target (filter inference_verified probes))"

fun publish_loop ::
    "publication_policy \<Rightarrow> target set \<Rightarrow> string \<Rightarrow> target set \<Rightarrow> model_info list \<Rightarrow> target list" where
  "publish_loop policy verified provider seen [] = []"
| "publish_loop policy verified provider seen (m # ms) =
     (let t = \<lparr>tg_provider = provider, tg_model = trim_space (mi_id m)\<rparr> in
      if tg_model t = [] \<or> t \<in> seen \<or> (policy = PublishVerified \<and> t \<notin> verified)
      then publish_loop policy verified provider seen ms
      else t # publish_loop policy verified provider (insert t seen) ms)"

definition publish_exact_targets ::
    "string \<Rightarrow> catalog_evidence \<Rightarrow> completion_probe list \<Rightarrow> publication_policy \<Rightarrow> go_err + target list" where
  "publish_exact_targets provider catalog probes policy =
     (if blank provider then Inl err_provider_required
      else if \<not> publication_supported policy
      then Inl (Sentinel ''unsupported target publication policy'')
      else if ce_status catalog \<noteq> CatalogDiscovered then Inr []
      else Inr (publish_loop policy (verified_targets probes) provider {} (ce_models catalog)))"

subsection \<open>Adapters and the orchestrator\<close>

type_synonym json_object = "(string \<times> any_val) list"

record 'w adapter =
  ad_validate :: "(connection \<Rightarrow> 'w \<Rightarrow> go_err option \<times> 'w) option"
  ad_discover :: "(connection \<Rightarrow> 'w \<Rightarrow> (go_err + model_info list) \<times> 'w) option"
  ad_select :: "(connection \<Rightarrow> model_info list \<Rightarrow> 'w \<Rightarrow> target list \<times> 'w) option"
  ad_complete :: "(connection \<Rightarrow> target \<Rightarrow> json_object \<Rightarrow> 'w \<Rightarrow> (go_err + json_object) \<times> 'w) option"

text \<open>A registered adapter has discovery and completion.\<close>

record 'w registered =
  rg_validate :: "(connection \<Rightarrow> 'w \<Rightarrow> go_err option \<times> 'w) option"
  rg_discover :: "connection \<Rightarrow> 'w \<Rightarrow> (go_err + model_info list) \<times> 'w"
  rg_select :: "(connection \<Rightarrow> model_info list \<Rightarrow> 'w \<Rightarrow> target list \<times> 'w) option"
  rg_complete :: "connection \<Rightarrow> target \<Rightarrow> json_object \<Rightarrow> 'w \<Rightarrow> (go_err + json_object) \<times> 'w"

record 'w orchestrator =
  or_adapters :: "string \<rightharpoonup> 'w registered"
  or_now :: "'w \<Rightarrow> gtime \<times> 'w"

definition new_orchestrator :: "('w \<Rightarrow> gtime \<times> 'w) \<Rightarrow> 'w orchestrator" where
  "new_orchestrator now = \<lparr>or_adapters = Map.empty, or_now = now\<rparr>"

definition orchestrator_register ::
    "string \<Rightarrow> 'w adapter \<Rightarrow> 'w orchestrator \<Rightarrow> go_err option \<times> 'w orchestrator" where
  "orchestrator_register provider0 ad o' =
     (let provider = to_lower (trim_space provider0) in
      if provider = [] then (Some err_provider_required, o')
      else
        (case (ad_discover ad, ad_complete ad) of
           (Some discover, Some complete) \<Rightarrow>
             (None, o'\<lparr>or_adapters := (or_adapters o')(provider \<mapsto>
                \<lparr>rg_validate = ad_validate ad, rg_discover = discover, rg_select = ad_select ad,
                 rg_complete = complete\<rparr>)\<rparr>)
         | _ \<Rightarrow> (Some (Sentinel ''provider adapter requires model discovery and completion''), o')))"

record connect_request =
  cq_connection :: connection
  cq_policy :: publication_policy
  cq_authenticated :: bool

record connect_result =
  cx_connection :: connection
  cx_catalog :: catalog_evidence
  cx_probes :: "completion_probe list"
  cx_health :: "health_evidence option"
  cx_targets :: "target list"

definition error_class_text :: "error_class \<Rightarrow> string" where
  "error_class_text c =
     (case c of
        NoClass \<Rightarrow> [] | ClassNone \<Rightarrow> ''none'' | ClassAuth \<Rightarrow> ''auth'' | ClassForbidden \<Rightarrow> ''forbidden''
      | ClassRateLimited \<Rightarrow> ''rate_limited'' | ClassTransport \<Rightarrow> ''transport''
      | ClassUpstream \<Rightarrow> ''upstream'' | ClassConfiguration \<Rightarrow> ''configuration''
      | ClassInvalidRequest \<Rightarrow> ''invalid_request'' | ClassUnsupported \<Rightarrow> ''unsupported''
      | OtherErrorClass s \<Rightarrow> s)"

definition probe_payload :: json_object where
  "probe_payload =
     [(''messages'', AList [AObject [(''role'', AString ''user''), (''content'', AString ''Reply with: ok'')]]),
      (''max_tokens'', AInt 16)]"

definition default_probe_targets :: "string \<Rightarrow> model_info list \<Rightarrow> target list" where
  "default_probe_targets provider models =
     (case find_first (\<lambda>m. if trim_space (mi_id m) = [] then None else Some (trim_space (mi_id m))) models of
        Some model \<Rightarrow> [\<lparr>tg_provider = provider, tg_model = model\<rparr>]
      | None \<Rightarrow> [])"

subsection \<open>Connecting\<close>

text \<open>
  One round of the probe loop: the target with the provider filled in, the evidence, and the health
  a failure leaves. \<open>complete\<close> is the adapter's operation with the connection and payload given.
\<close>

definition probe_target ::
    "(string \<Rightarrow> gtime option) \<Rightarrow> ('w \<Rightarrow> gtime \<times> 'w) \<Rightarrow> (target \<Rightarrow> 'w \<Rightarrow> (go_err + json_object) \<times> 'w) \<Rightarrow>
     string \<Rightarrow> target \<Rightarrow> 'w \<Rightarrow> (completion_probe \<times> health_evidence option) \<times> 'w" where
  "probe_target parse_time now complete provider t0 w =
     (let t = (if tg_provider t0 = [] then t0\<lparr>tg_provider := provider\<rparr> else t0) in
      case now w of
        (started, w1) \<Rightarrow>
          (case complete t w1 of
             (answer, w2) \<Rightarrow>
               (case now w2 of
                  (finished, w3) \<Rightarrow>
                    (let probe = \<lparr>cp_target = t, cp_status = ProbeVerified, cp_observed_at = finished,
                                  cp_latency = time_sub finished started, cp_failure_code = []\<rparr>
                     in case answer of
                          Inr _ \<Rightarrow> ((probe, None), w3)
                        | Inl e \<Rightarrow>
                            (let h = classify_provider_error parse_time e finished
                             in ((probe\<lparr>cp_status := ProbeFailed,
                                        cp_failure_code := error_class_text (he_class h)\<rparr>, Some h), w3))))))"

fun probe_loop ::
    "(string \<Rightarrow> gtime option) \<Rightarrow> ('w \<Rightarrow> gtime \<times> 'w) \<Rightarrow> (target \<Rightarrow> 'w \<Rightarrow> (go_err + json_object) \<times> 'w) \<Rightarrow>
     string \<Rightarrow> target list \<Rightarrow> health_evidence option \<Rightarrow> 'w \<Rightarrow>
     (completion_probe list \<times> health_evidence option) \<times> 'w" where
  "probe_loop parse_time now complete provider [] health w = (([], health), w)"
| "probe_loop parse_time now complete provider (t # ts) health w =
     (case probe_target parse_time now complete provider t w of
        ((probe, failed), w1) \<Rightarrow>
          (case probe_loop parse_time now complete provider ts
                  (case failed of Some h \<Rightarrow> Some h | None \<Rightarrow> health) w1 of
             ((probes, health'), w2) \<Rightarrow> ((probe # probes, health'), w2)))"

definition new_connect_result :: "connection \<Rightarrow> connect_result" where
  "new_connect_result c =
     \<lparr>cx_connection = c, cx_catalog = zero_evidence, cx_probes = [], cx_health = None, cx_targets = []\<rparr>"

definition healthy_at :: "gtime \<Rightarrow> health_evidence" where
  "healthy_at t =
     classify_provider_failure (\<lambda>_. None)
       \<lparr>pf_status = 200, pf_retry_after = [], pf_observed_at = t, pf_failed = False\<rparr>"

text \<open>
  The part of \<^verbatim>\<open>Connect\<close> after authentication: discovery, the probes and the publication.
\<close>

definition connect_models ::
    "(string \<Rightarrow> gtime option) \<Rightarrow> ('w \<Rightarrow> gtime \<times> 'w) \<Rightarrow> 'w registered \<Rightarrow> string \<Rightarrow> connect_request \<Rightarrow>
     connect_result \<Rightarrow> 'w \<Rightarrow> (connect_result \<times> go_err option) \<times> 'w" where
  "connect_models parse_time now ad provider rq result w =
     (case rg_discover ad (cq_connection rq) w of
        (found, w1) \<Rightarrow>
          (case now w1 of
             (t, w2) \<Rightarrow>
               (case found of
                  Inl e \<Rightarrow>
                    ((result\<lparr>cx_catalog := zero_evidence\<lparr>ce_status := CatalogFailed, ce_observed_at := t\<rparr>,
                             cx_health := Some (classify_provider_error parse_time e t)\<rparr>, Some e), w2)
                | Inr models \<Rightarrow>
                    (let evidence = zero_evidence\<lparr>ce_status := CatalogDiscovered, ce_models := models,
                                                  ce_observed_at := t\<rparr>
                     in if models = []
                        then ((result\<lparr>cx_catalog := evidence\<lparr>ce_status := CatalogEmpty\<rparr>,
                                      cx_health := Some (healthy_at t)\<rparr>, None), w2)
                        else
                          (case (case rg_select ad of
                                   None \<Rightarrow> (default_probe_targets provider models, w2)
                                 | Some f \<Rightarrow> f (cq_connection rq) models w2) of
                             (targets, w3) \<Rightarrow>
                               (case probe_loop parse_time now
                                       (\<lambda>t. rg_complete ad (cq_connection rq) t probe_payload)
                                       provider targets (Some (healthy_at t)) w3 of
                                  ((probes, health), w4) \<Rightarrow>
                                    (let result' = result\<lparr>cx_catalog := evidence, cx_probes := probes,
                                                          cx_health := health\<rparr>
                                     in case publish_exact_targets provider evidence probes (cq_policy rq) of
                                          Inl e \<Rightarrow> ((result', Some e), w4)
                                        | Inr ts \<Rightarrow> ((result'\<lparr>cx_targets := ts\<rparr>, None), w4))))))))"

definition connect ::
    "(string \<Rightarrow> gtime option) \<Rightarrow> 'w orchestrator \<Rightarrow> connect_request \<Rightarrow> 'w \<Rightarrow>
     (connect_result \<times> go_err option) \<times> 'w" where
  "connect parse_time o' rq w =
     (let result = new_connect_result (cq_connection rq);
          provider = to_lower (trim_space (pc_provider (cq_connection rq)))
      in case connection_validate (cq_connection rq) of
           Some e \<Rightarrow> ((result, Some e), w)
         | None \<Rightarrow>
             (case publish_exact_targets provider zero_evidence [] (cq_policy rq) of
                Inl e \<Rightarrow> ((result, Some e), w)
              | Inr _ \<Rightarrow>
                  (case or_adapters o' provider of
                     None \<Rightarrow> ((result, Some (Sentinel ''provider adapter is not registered'')), w)
                   | Some ad \<Rightarrow>
                       (if cq_authenticated rq
                        then connect_models parse_time (or_now o') ad provider rq result w
                        else
                          (case rg_validate ad of
                             None \<Rightarrow> ((result, Some (Sentinel ''provider authentication is not validated'')), w)
                           | Some validate \<Rightarrow>
                               (case validate (cq_connection rq) w of
                                  (Some e, w1) \<Rightarrow>
                                    (case or_now o' w1 of
                                       (t, w2) \<Rightarrow>
                                         ((result\<lparr>cx_health := Some (classify_provider_error parse_time e t),
                                                  cx_catalog := zero_evidence\<lparr>ce_status := CatalogNotProbed\<rparr>\<rparr>,
                                           Some e), w2))
                                | (None, w1) \<Rightarrow>
                                    connect_models parse_time (or_now o') ad provider rq result w1))))))"

subsection \<open>What is published\<close>

text \<open>The first occurrence of each element, in order.\<close>

definition first_occurrences :: "'a list \<Rightarrow> 'a list" where
  "first_occurrences xs = rev (remdups (rev xs))"

lemma remdups_snoc: "remdups (xs @ [x]) = filter (\<lambda>y. y \<noteq> x) (remdups xs) @ [x]"
  by (induction xs) auto

lemma first_occurrences_Cons:
  "first_occurrences (x # xs) = x # filter (\<lambda>y. y \<noteq> x) (first_occurrences xs)"
  by (simp add: first_occurrences_def remdups_snoc rev_filter)

lemma first_occurrences_Nil [simp]: "first_occurrences [] = []"
  by (simp add: first_occurrences_def)

lemma set_first_occurrences [simp]: "set (first_occurrences xs) = set xs"
  by (simp add: first_occurrences_def)

lemma distinct_first_occurrences [simp]: "distinct (first_occurrences xs)"
  by (simp add: first_occurrences_def)

definition model_target :: "string \<Rightarrow> model_info \<Rightarrow> target" where
  "model_target provider m = \<lparr>tg_provider = provider, tg_model = trim_space (mi_id m)\<rparr>"

definition publishable :: "publication_policy \<Rightarrow> target set \<Rightarrow> target \<Rightarrow> bool" where
  "publishable policy verified t \<longleftrightarrow> tg_model t \<noteq> [] \<and> (policy = PublishVerified \<longrightarrow> t \<in> verified)"

lemma publish_loop_filter:
  "publish_loop policy verified provider seen ms =
     filter (\<lambda>t. t \<notin> seen) (first_occurrences (filter (publishable policy verified) (map (model_target provider) ms)))"
proof (induction ms arbitrary: seen)
  case Nil
  then show ?case by simp
next
  case (Cons m ms)
  let ?t = "model_target provider m"
  have f: "filter (\<lambda>t. t \<notin> insert ?t seen) ts = filter (\<lambda>t. t \<notin> seen) (filter (\<lambda>t. t \<noteq> ?t) ts)" for ts
    by (induction ts) auto
  have g: "?t \<in> seen \<Longrightarrow> filter (\<lambda>t. t \<notin> seen) (filter (\<lambda>t. t \<noteq> ?t) ts) = filter (\<lambda>t. t \<notin> seen) ts" for ts
    by (induction ts) auto
  show ?case
    using Cons [of seen] Cons [of "insert ?t seen"] f g
    by (auto simp: Let_def publishable_def first_occurrences_Cons simp flip: model_target_def)
qed

lemma publish_exact:
  "publish_exact_targets provider catalog probes policy = Inr ts \<Longrightarrow>
     ts = (if ce_status catalog \<noteq> CatalogDiscovered then []
           else first_occurrences (filter (publishable policy (verified_targets probes))
                  (map (model_target provider) (ce_models catalog))))"
  by (auto simp: publish_exact_targets_def publish_loop_filter split: if_splits)

lemma verified_targets_simps [simp]:
  "verified_targets [] = {}"
  "verified_targets (p # ps) =
     (if inference_verified p then insert (cp_target p) (verified_targets ps) else verified_targets ps)"
  by (auto simp: verified_targets_def)

lemma verified_targets_iff:
  "t \<in> verified_targets probes \<longleftrightarrow> (\<exists>p\<in>set probes. inference_verified p \<and> cp_target p = t)"
  by (auto simp: verified_targets_def)

text \<open>A probe is verified by an answer of its own target.\<close>

lemma probe_target_verified:
  "probe_target pt now complete provider t0 w = ((p, h), w') \<Longrightarrow> cp_status p = ProbeVerified \<Longrightarrow>
     \<exists>w1 w2 answer. complete (cp_target p) w1 = (Inr answer, w2)"
  by (fastforce simp: probe_target_def Let_def split: prod.splits sum.splits)

lemma probe_target_target:
  "probe_target pt now complete provider t0 w = ((p, h), w') \<Longrightarrow>
     cp_target p = (if tg_provider t0 = [] then t0\<lparr>tg_provider := provider\<rparr> else t0) \<and>
     (h = None \<longleftrightarrow> cp_status p = ProbeVerified) \<and> cp_status p \<in> {ProbeVerified, ProbeFailed}"
  by (auto simp: probe_target_def Let_def split: prod.splits sum.splits)

lemma probe_loop_verified:
  "probe_loop pt now complete provider ts health w = ((probes, health'), w') \<Longrightarrow> p \<in> set probes \<Longrightarrow>
     cp_status p = ProbeVerified \<Longrightarrow> \<exists>w1 w2 answer. complete (cp_target p) w1 = (Inr answer, w2)"
proof (induction ts arbitrary: health w probes health' w')
  case Nil
  then show ?case by simp
next
  case (Cons t ts)
  then show ?case
    by (fastforce split: prod.splits dest: probe_target_verified)
qed

lemma connect_models_published:
  assumes "connect_models pt now ad provider rq (new_connect_result c) w = ((res, None), w')"
  shows "cx_targets res = (if ce_status (cx_catalog res) \<noteq> CatalogDiscovered then []
      else first_occurrences (filter (publishable (cq_policy rq) (verified_targets (cx_probes res)))
             (map (model_target provider) (ce_models (cx_catalog res))))) \<and>
    (\<forall>p\<in>set (cx_probes res). cp_status p = ProbeVerified \<longrightarrow>
       (\<exists>w1 w2 answer. rg_complete ad (cq_connection rq) (cp_target p) probe_payload w1 = (Inr answer, w2)))"
proof -
  obtain found w1 where d: "rg_discover ad (cq_connection rq) w = (found, w1)" by fastforce
  obtain t w2 where n: "now w1 = (t, w2)" by fastforce
  show ?thesis
  proof (cases found)
    case (Inl e)
    with assms d n show ?thesis by (simp add: connect_models_def)
  next
    case (Inr models)
    show ?thesis
    proof (cases "models = []")
      case True
      with assms d n Inr show ?thesis by (auto simp: connect_models_def Let_def new_connect_result_def)
    next
      case False
      obtain targets w3 where s: "(case rg_select ad of None \<Rightarrow> (default_probe_targets provider models, w2)
          | Some f \<Rightarrow> f (cq_connection rq) models w2) = (targets, w3)" by fastforce
      obtain probes health w4 where p: "probe_loop pt now (\<lambda>t. rg_complete ad (cq_connection rq) t probe_payload)
          provider targets (Some (healthy_at t)) w3 = ((probes, health), w4)" by (metis surj_pair)
      obtain ts where ts: "publish_exact_targets provider
          (zero_evidence\<lparr>ce_status := CatalogDiscovered, ce_models := models, ce_observed_at := t\<rparr>) probes
          (cq_policy rq) = Inr ts"
        using assms d n Inr False s p
        by (auto simp: connect_models_def Let_def split: sum.splits)
      with assms d n Inr False s p have "cx_targets res = ts" "cx_probes res = probes"
        "cx_catalog res = zero_evidence\<lparr>ce_status := CatalogDiscovered, ce_models := models, ce_observed_at := t\<rparr>"
        by (auto simp: connect_models_def Let_def)
      with publish_exact [OF ts] probe_loop_verified [OF p] show ?thesis by auto
    qed
  qed
qed

subsection \<open>The order of a connect\<close>

datatype connect_event = EvValidate | EvDiscover | EvComplete target

definition log_registered :: "'w registered \<Rightarrow> ('w \<times> connect_event list) registered" where
  "log_registered ad =
     \<lparr>rg_validate = map_option (\<lambda>f c. logging EvValidate (f c)) (rg_validate ad),
      rg_discover = (\<lambda>c. logging EvDiscover (rg_discover ad c)),
      rg_select = map_option (\<lambda>f c ms. carry (f c ms)) (rg_select ad),
      rg_complete = (\<lambda>c t p. logging (EvComplete t) (rg_complete ad c t p))\<rparr>"

definition log_orchestrator :: "'w orchestrator \<Rightarrow> ('w \<times> connect_event list) orchestrator" where
  "log_orchestrator o' =
     \<lparr>or_adapters = map_option log_registered \<circ> or_adapters o', or_now = carry (or_now o')\<rparr>"

lemma log_registered_sel [simp]:
  "rg_discover (log_registered ad) c = logging EvDiscover (rg_discover ad c)"
  "rg_complete (log_registered ad) c t p = logging (EvComplete t) (rg_complete ad c t p)"
  "rg_validate (log_registered ad) = map_option (\<lambda>f c. logging EvValidate (f c)) (rg_validate ad)"
  "rg_select (log_registered ad) = map_option (\<lambda>f c ms. carry (f c ms)) (rg_select ad)"
  by (simp_all add: log_registered_def)

lemma log_probe_target:
  "probe_target pt (carry now) (\<lambda>t. logging (EvComplete t) (complete t)) provider t (w, l) =
     (case probe_target pt now complete provider t w of
        (r, w') \<Rightarrow> (r, (w', l @ [EvComplete (cp_target (fst r))])))"
  by (simp add: probe_target_def Let_def split: prod.split sum.split)

lemma log_probe_loop:
  "probe_loop pt (carry now) (\<lambda>t. logging (EvComplete t) (complete t)) provider ts health (w, l) =
     (case probe_loop pt now complete provider ts health w of
        (r, w') \<Rightarrow> (r, (w', l @ map (EvComplete \<circ> cp_target) (fst r))))"
proof (induction ts arbitrary: health w l)
  case Nil
  then show ?case by simp
next
  case (Cons t ts)
  obtain p h w1 where p: "probe_target pt now complete provider t w = ((p, h), w1)" by (metis surj_pair)
  show ?case
    by (simp add: log_probe_target p Cons split: prod.split)
qed

lemma log_connect_models:
  "connect_models pt (carry now) (log_registered ad) provider rq result (w, l) =
     (case connect_models pt now ad provider rq result w of
        ((res, err), w') \<Rightarrow>
          ((res, err), (w', l @ EvDiscover #
             (if ce_models (cx_catalog res) = [] then [] else map (EvComplete \<circ> cp_target) (cx_probes res)))))"
proof -
  obtain found w1 where d: "rg_discover ad (cq_connection rq) w = (found, w1)" by fastforce
  obtain t w2 where n: "now w1 = (t, w2)" by fastforce
  show ?thesis
  proof (cases "found = Inr [] \<or> (\<exists>e. found = Inl e)")
    case True
    with d n show ?thesis by (auto simp: connect_models_def Let_def zero_evidence_def)
  next
    case False
    then obtain models where m: "found = Inr models" "models \<noteq> []" by (cases found) auto
    obtain targets w3 where s: "(case rg_select ad of None \<Rightarrow> (default_probe_targets provider models, w2)
          | Some f \<Rightarrow> f (cq_connection rq) models w2) = (targets, w3)" by fastforce
    obtain probes health w4 where p: "probe_loop pt now (\<lambda>t. rg_complete ad (cq_connection rq) t probe_payload)
          provider targets (Some (healthy_at t)) w3 = ((probes, health), w4)" by (metis surj_pair)
    show ?thesis
      using s by (cases "rg_select ad")
        (auto simp: connect_models_def d n m log_probe_loop p Let_def split: sum.split)
  qed
qed

lemma new_connect_result_sel [simp]:
  "cx_probes (new_connect_result c) = []" "cx_targets (new_connect_result c) = []"
  "cx_catalog (new_connect_result c) = zero_evidence" "cx_health (new_connect_result c) = None"
  by (simp_all add: new_connect_result_def)

lemma zero_evidence_models [simp]: "ce_models zero_evidence = []"
  by (simp add: zero_evidence_def)

lemma connect_models_no_models:
  "connect_models pt now ad provider rq (new_connect_result c) w = ((res, err), w') \<Longrightarrow>
     ce_models (cx_catalog res) = [] \<Longrightarrow> cx_probes res = []"
  by (auto simp: connect_models_def Let_def split: prod.splits sum.splits if_splits)

text \<open>The registered adapter of the connection's provider accepts its credential, asked in this world.\<close>

definition credential_accepted :: "'w orchestrator \<Rightarrow> connect_request \<Rightarrow> 'w \<Rightarrow> bool" where
  "credential_accepted o' rq w \<longleftrightarrow>
     (\<exists>ad validate w1. or_adapters o' (to_lower (trim_space (pc_provider (cq_connection rq)))) = Some ad \<and>
        rg_validate ad = Some validate \<and> validate (cq_connection rq) w = (None, w1))"

text \<open>
  Connecting keeps its order: a connection that fails validation reaches no operation of the adapter;
  without established authentication the adapter's validation comes first, and only its success lets
  discovery run; then each probe is one completion, of the target its evidence names, in order.
  Logging the operations changes nothing else.
\<close>
theorem connect_order:
  assumes "connect pt (log_orchestrator o') rq (w, []) = ((res, err), (w', evs))"
  shows "connect pt o' rq w = ((res, err), w') \<and>
    (connection_validate (cq_connection rq) \<noteq> None \<longrightarrow> evs = []) \<and>
    ((evs = [] \<or> (evs = [EvValidate] \<and> \<not> cq_authenticated rq)) \<and> err \<noteq> None \<and> cx_probes res = [] \<and> cx_targets res = []
     \<or> evs = (if cq_authenticated rq then [] else [EvValidate]) @ EvDiscover # map (EvComplete \<circ> cp_target) (cx_probes res) \<and>
       (cq_authenticated rq \<or> credential_accepted o' rq w))"
proof -
  let ?c = "cq_connection rq"
  let ?p = "to_lower (trim_space (pc_provider ?c))"
  consider (bad) e where "connection_validate ?c = Some e"
    | (unpublished) e where "connection_validate ?c = None"
        "publish_exact_targets ?p zero_evidence [] (cq_policy rq) = Inl e"
    | (missing) ts where "connection_validate ?c = None"
        "publish_exact_targets ?p zero_evidence [] (cq_policy rq) = Inr ts" "or_adapters o' ?p = None"
    | (found) ts ad where "connection_validate ?c = None"
        "publish_exact_targets ?p zero_evidence [] (cq_policy rq) = Inr ts" "or_adapters o' ?p = Some ad"
    by (cases "connection_validate ?c"; cases "publish_exact_targets ?p zero_evidence [] (cq_policy rq)";
        cases "or_adapters o' ?p") auto
  then show ?thesis
  proof cases
    case found
    let ?m = "connect_models pt (or_now o') ad ?p rq (new_connect_result ?c)"
    have m: "?m v = ((fst (fst (?m v)), snd (fst (?m v))), snd (?m v))" for v
      by simp
    have none: "ce_models (cx_catalog (fst (fst (?m v)))) = [] \<Longrightarrow> cx_probes (fst (fst (?m v))) = []" for v
      by (rule connect_models_no_models [OF m])
    have log: "connect_models pt (carry (or_now o')) (log_registered ad) ?p rq (new_connect_result ?c) (v, l) =
        (fst (?m v), (snd (?m v), l @ EvDiscover # map (EvComplete \<circ> cp_target) (cx_probes (fst (fst (?m v))))))" for v l
      using none [of v] by (auto simp: log_connect_models split: prod.split)
    show ?thesis
    proof (cases "cq_authenticated rq")
      case True
      with found assms log [of w] show ?thesis
        by (auto simp: connect_def log_orchestrator_def Let_def intro!: prod_eqI)
    next
      case False
      show ?thesis
      proof (cases "rg_validate ad")
        case None
        with False found assms show ?thesis
          by (auto simp: connect_def log_orchestrator_def Let_def)
      next
        case (Some validate)
        obtain eo w2 where v: "validate ?c w = (eo, w2)" by fastforce
        obtain t w3 where n: "or_now o' w2 = (t, w3)" by fastforce
        show ?thesis
          using False Some found assms log [of w2] v n
          by (cases eo) (auto simp: connect_def log_orchestrator_def credential_accepted_def Let_def intro!: prod_eqI)
      qed
    qed
  next
    case bad
    then have "connect pt o' rq w = ((new_connect_result ?c, Some e), w)"
      "connect pt (log_orchestrator o') rq (w, []) = ((new_connect_result ?c, Some e), (w, []))"
      by (simp_all add: connect_def Let_def)
    with assms show ?thesis by auto
  next
    case unpublished
    then have "connect pt o' rq w = ((new_connect_result ?c, Some e), w)"
      "connect pt (log_orchestrator o') rq (w, []) = ((new_connect_result ?c, Some e), (w, []))"
      by (simp_all add: connect_def Let_def)
    with assms unpublished show ?thesis by auto
  next
    case missing
    with assms show ?thesis by (auto simp: connect_def log_orchestrator_def Let_def)
  qed
qed

text \<open>An adapter of one model that answers each probe, for the witnesses; the world is the clock.\<close>

definition demo_registered :: "int registered" where
  "demo_registered =
     \<lparr>rg_validate = Some (\<lambda>c w. (None, w)),
      rg_discover = (\<lambda>c w. (Inr [empty_model_info\<lparr>mi_id := '' m1 ''\<rparr>, empty_model_info\<lparr>mi_id := ''m1''\<rparr>], w)),
      rg_select = None, rg_complete = (\<lambda>c t p w. (Inr [], w + 5))\<rparr>"

definition demo_orchestrator :: "int orchestrator" where
  "demo_orchestrator = \<lparr>or_adapters = [''kilo'' \<mapsto> demo_registered], or_now = (\<lambda>w. (w, w))\<rparr>"

definition demo_connect :: connect_request where
  "demo_connect =
     \<lparr>cq_connection = \<lparr>pc_id = [], pc_provider = ''Kilo'', pc_kind = ConnAnonymous, pc_auth = AuthAnonymous,
                       pc_owner = [], pc_credential = None\<rparr>,
      cq_policy = PublishVerified, cq_authenticated = False\<rparr>"

definition demo_probe :: completion_probe where
  "demo_probe =
     \<lparr>cp_target = \<lparr>tg_provider = ''kilo'', tg_model = ''m1''\<rparr>, cp_status = ProbeVerified, cp_observed_at = 12,
      cp_latency = 5, cp_failure_code = []\<rparr>"

lemma demo_trim [simp]:
  "trim_space ''Kilo'' = ''Kilo''" "trim_space ''kilo'' = ''kilo''" "trim_space ''m1'' = ''m1''"
  "trim_space '' m1 '' = ''m1''" "to_lower ''Kilo'' = ''kilo''" "to_lower ''kilo'' = ''kilo''"
  by code_simp+

lemmas demo_connect_simps =
  connect_def connect_models_def log_orchestrator_def log_registered_def demo_connect_def
  demo_orchestrator_def demo_registered_def demo_probe_def connection_validate_def is_codex_provider_def blank_def
  publish_exact_targets_def publication_supported_def inference_verified_def
  probe_target_def default_probe_targets_def time_sub_def min_int64_def max_int64_def new_connect_result_def
  zero_evidence_def empty_model_info_def Let_def

lemma demo_connect_log:
  "connect (\<lambda>_. None) (log_orchestrator demo_orchestrator) demo_connect (7, []) =
     ((\<lparr>cx_connection = cq_connection demo_connect,
        cx_catalog = zero_evidence\<lparr>ce_status := CatalogDiscovered,
          ce_models := [empty_model_info\<lparr>mi_id := '' m1 ''\<rparr>, empty_model_info\<lparr>mi_id := ''m1''\<rparr>],
          ce_observed_at := 7\<rparr>,
        cx_probes = [demo_probe], cx_health = Some (healthy_at 7),
        cx_targets = [\<lparr>tg_provider = ''kilo'', tg_model = ''m1''\<rparr>]\<rparr>, None),
      (12, [EvValidate, EvDiscover, EvComplete \<lparr>tg_provider = ''kilo'', tg_model = ''m1''\<rparr>]))"
  by (simp add: demo_connect_simps del: to_lower.simps)

theorem connect_order_witness:
  "fst (fst (connect (\<lambda>_. None) demo_orchestrator demo_connect 7)) =
     fst (fst (connect (\<lambda>_. None) (log_orchestrator demo_orchestrator) demo_connect (7, [])))"
  using connect_order [OF demo_connect_log] by (simp add: demo_connect_log)

text \<open>
  C4. What a connect publishes: the targets are distinct, name the lower-cased provider and the trimmed ID of
  a discovered model, in the order of the catalog; under the verification policy each of them was
  answered by a completion of that exact target, and each discovered model with such a probe is
  among them.
\<close>
theorem published_targets_answered:
  assumes "connect pt o' rq w = ((res, None), w')"
    and provider: "provider = to_lower (trim_space (pc_provider (cq_connection rq)))"
  shows "cx_targets res =
      (if ce_status (cx_catalog res) \<noteq> CatalogDiscovered then []
       else first_occurrences (filter (publishable (cq_policy rq) (verified_targets (cx_probes res)))
              (map (model_target provider) (ce_models (cx_catalog res))))) \<and>
    (cq_policy rq = PublishVerified \<longrightarrow>
       (\<forall>t\<in>set (cx_targets res). \<exists>ad w1 answer w2. or_adapters o' provider = Some ad \<and>
          rg_complete ad (cq_connection rq) t probe_payload w1 = (Inr answer, w2)))"
proof -
  obtain ad v where ad: "or_adapters o' provider = Some ad"
    and m: "connect_models pt (or_now o') ad provider rq (new_connect_result (cq_connection rq)) v = ((res, None), w')"
    using assms by (auto simp: connect_def Let_def split: option.splits sum.splits if_splits prod.splits)
  from connect_models_published [OF m] ad show ?thesis
    by (fastforce simp: publishable_def verified_targets_iff inference_verified_def split: if_splits)
qed

theorem published_targets_answered_witness:
  "\<exists>ad w1 answer w2. or_adapters demo_orchestrator ''kilo'' = Some ad \<and>
     rg_complete ad (cq_connection demo_connect) \<lparr>tg_provider = ''kilo'', tg_model = ''m1''\<rparr> probe_payload w1 =
       (Inr answer, w2)"
proof -
  have r: "connect (\<lambda>_. None) demo_orchestrator demo_connect 7 =
     ((\<lparr>cx_connection = cq_connection demo_connect,
        cx_catalog = zero_evidence\<lparr>ce_status := CatalogDiscovered,
          ce_models := [empty_model_info\<lparr>mi_id := '' m1 ''\<rparr>, empty_model_info\<lparr>mi_id := ''m1''\<rparr>],
          ce_observed_at := 7\<rparr>,
        cx_probes = [demo_probe], cx_health = Some (healthy_at 7),
        cx_targets = [\<lparr>tg_provider = ''kilo'', tg_model = ''m1''\<rparr>]\<rparr>, None), 12)"
    by (simp add: demo_connect_simps del: to_lower.simps)
  have p: "''kilo'' = to_lower (trim_space (pc_provider (cq_connection demo_connect)))"
    by (simp add: demo_connect_def del: to_lower.simps)
  have v: "cq_policy demo_connect = PublishVerified"
    by (simp add: demo_connect_def)
  show ?thesis
    using published_targets_answered [OF r p, THEN conjunct2, rule_format, OF v,
        of "\<lparr>tg_provider = ''kilo'', tg_model = ''m1''\<rparr>"] by simp
qed

text \<open>
  Publication against its specification: for a provider and a known policy it is the first occurrences
  of the publishable targets of a discovered catalog, in order, and empty for any other catalog; the
  two errors are a blank provider and an unknown policy, in this order.
\<close>
theorem publication_spec:
  "publish_exact_targets provider catalog probes policy =
     (if blank provider then Inl err_provider_required
      else if policy \<notin> {PublishDiscovered, PublishVerified}
      then Inl (Sentinel ''unsupported target publication policy'')
      else Inr (if ce_status catalog = CatalogDiscovered
                then first_occurrences (filter (publishable policy (verified_targets probes))
                       (map (model_target provider) (ce_models catalog)))
                else []))"
  by (simp add: publish_exact_targets_def publication_supported_def publish_loop_filter)

text \<open>
  Codex never falls through to another kind of access: any connection of a provider named as Codex
  that validates, whatever the case and the spaces of its name, is a personal subscription over device
  OAuth with an owner; any other leaves the world as it was, whatever is registered.
\<close>
theorem codex_only_personal:
  assumes "is_codex_provider (pc_provider (cq_connection rq))"
  shows "(pc_kind (cq_connection rq) = ConnPersonalSubscription \<and> pc_auth (cq_connection rq) = AuthOAuthDevice \<and>
            \<not> blank (pc_owner (cq_connection rq)))
       \<or> (\<exists>e. connect pt o' rq w = ((new_connect_result (cq_connection rq), Some e), w))"
  using assms by (auto simp: connect_def connection_validate_def Let_def)

theorem codex_only_personal_witness:
  "\<exists>e. connect (\<lambda>_. None) (demo_orchestrator\<lparr>or_adapters := [''codex'' \<mapsto> demo_registered]\<rparr>)
      (demo_connect\<lparr>cq_connection := (cq_connection demo_connect)\<lparr>pc_provider := '' Codex ''\<rparr>\<rparr>) 7 =
    ((new_connect_result ((cq_connection demo_connect)\<lparr>pc_provider := '' Codex ''\<rparr>), Some e), 7)"
proof -
  have "is_codex_provider '' Codex ''"
    by code_simp
  then show ?thesis
    using codex_only_personal [where rq = "demo_connect\<lparr>cq_connection := (cq_connection demo_connect)\<lparr>pc_provider := '' Codex ''\<rparr>\<rparr>"
        and w = 7 and o' = "demo_orchestrator\<lparr>or_adapters := [''codex'' \<mapsto> demo_registered]\<rparr>" and pt = "\<lambda>_. None"]
    by (simp add: demo_connect_def)
qed

end
