(* ===== verification/Engine.thy ===== *)
theory Engine
  imports Sse_Relay Contracts
begin

text \<open>
  The older HTTP engine (\<^verbatim>\<open>engine.go\<close>): authentication, target resolution, chat completions with
  failover over targets, the Messages endpoint over the first target, and usage telemetry. The hooks, the
  clock, the context and the providers are functions on the world; a response is the list of writes to
  its \<^verbatim>\<open>ResponseWriter\<close>. llm-translate and \<^verbatim>\<open>encoding/json\<close> are parameters of the environment, and so is the
  text of an error (\<^verbatim>\<open>err.Error()\<close>). Routes are an association list in the order a range over the Go map
  takes; a handler that relays a stream may not return (\<open>None\<close>).
\<close>

subsection \<open>The engine and its environment\<close>

record route_config =
  rc_targets :: "target list"
  rc_fallback :: bool
  rc_description :: string

record http_request =
  hr_method :: string
  hr_path :: string
  hr_headers :: string_map
  hr_body :: "go_err + string"

record usage_record =
  ur_request_id :: string
  ur_principal :: string
  ur_project :: string
  ur_provider :: string
  ur_model :: string
  ur_input_tokens :: int
  ur_output_tokens :: int
  ur_duration :: duration
  ur_stream :: bool
  ur_status :: int
  ur_error :: string

text \<open>A registered provider, as the two interfaces the handlers look for.\<close>

record 'w engine_provider =
  ep_stream :: "(string \<Rightarrow> json_object \<Rightarrow> credential option \<Rightarrow> 'w \<Rightarrow> (go_err + 'w stream) \<times> 'w) option"
  ep_complete :: "(string \<Rightarrow> json_object \<Rightarrow> credential option \<Rightarrow> 'w \<Rightarrow> (go_err + json_object) \<times> 'w) option"

record 'w engine =
  en_routes :: "(string \<times> route_config) list"
  en_providers :: "string \<rightharpoonup> 'w engine_provider"
  en_auth :: "(http_request \<Rightarrow> 'w \<Rightarrow> (go_err + principal option) \<times> 'w) option"
  en_policy :: "(principal option \<Rightarrow> target \<Rightarrow> 'w \<Rightarrow> (bool \<times> string) \<times> 'w) option"
  en_resolver :: "(principal option \<Rightarrow> string \<Rightarrow> 'w \<Rightarrow> (go_err + credential option) \<times> 'w) option"
  en_usage :: "(usage_record \<Rightarrow> 'w \<Rightarrow> 'w) option"

record 'w http_env =
  ev_ctx :: "'w \<Rightarrow> go_err option \<times> 'w"
  ev_now :: "'w \<Rightarrow> gtime \<times> 'w"
  ev_flushes :: bool
  ev_decode :: "string \<Rightarrow> json_object option"
  ev_text :: "go_err \<Rightarrow> string"
  ev_to_openai :: "json_object \<Rightarrow> any_val \<times> json_object"
  ev_to_anthropic :: "json_object \<Rightarrow> string \<Rightarrow> json_object"
  ev_translator :: "string \<Rightarrow> translator"

definition allow_all_policy :: "principal option \<Rightarrow> target \<Rightarrow> 'w \<Rightarrow> (bool \<times> string) \<times> 'w" where
  "allow_all_policy who t w = ((True, []), w)"

definition new_engine :: "'w engine \<Rightarrow> 'w engine" where
  "new_engine cfg =
     cfg\<lparr>en_providers := Map.empty,
         en_policy := (case en_policy cfg of None \<Rightarrow> Some allow_all_policy | Some p \<Rightarrow> Some p)\<rparr>"

definition register_provider :: "string \<Rightarrow> 'w engine_provider \<Rightarrow> 'w engine \<Rightarrow> 'w engine" where
  "register_provider key p e = e\<lparr>en_providers := (en_providers e)(key \<mapsto> p)\<rparr>"

definition static_resolver ::
    "(string \<rightharpoonup> credential) \<Rightarrow> principal option \<Rightarrow> string \<Rightarrow> 'w \<Rightarrow> (go_err + credential option) \<times> 'w" where
  "static_resolver creds who provider w = (Inr (creds provider), w)"

subsection \<open>Replies\<close>

datatype reply = ReplyJson any_val | ReplyModels "model_info list" | ReplyText "piece list"

type_synonym response = "reply http_out list"

definition json_header :: "reply http_out" where
  "json_header = SetHeader ''Content-Type'' ''application/json''"

definition error_value :: "string \<Rightarrow> string \<Rightarrow> any_val" where
  "error_value message kind = AObject [(''error'', AObject [(''message'', AString message), (''type'', AString kind)])]"

definition json_error :: "int \<Rightarrow> any_val \<Rightarrow> response" where
  "json_error status v = [json_header, WriteStatus status, WriteValue (ReplyJson v)]"

definition messages_error :: "string \<Rightarrow> string \<Rightarrow> any_val" where
  "messages_error kind message =
     AObject [(''type'', AString ''error''), (''error'', AObject [(''type'', AString kind), (''message'', AString message)])]"

definition plain_error :: "int \<Rightarrow> string \<Rightarrow> response" where
  "plain_error status body = [WriteError status (ReplyText [Lit body])]"

text \<open>The \<^verbatim>\<open>http.Error\<close> bodies of the Messages endpoint that quote a message with \<^verbatim>\<open>%q\<close>.\<close>

definition quoted_error :: "int \<Rightarrow> string \<Rightarrow> response" where
  "quoted_error status message =
     [WriteError status (ReplyText [Lit ''{\"type\":\"error\",\"error\":{\"message\":'', Quoted message, Lit ''}}''])]"

subsection \<open>Endpoints\<close>

datatype endpoint = EpModels | EpChat | EpMessages | EpHealth | EpNotFound

definition endpoint_of :: "string \<Rightarrow> string \<Rightarrow> endpoint" where
  "endpoint_of verb path =
     (let p = trim_suffix path ''/'' in
      if has_suffix p ''/v1/models'' \<or> p = ''/models''
      then (if verb = ''GET'' then EpModels else EpNotFound)
      else if has_suffix p ''/v1/chat/completions'' \<or> p = ''/chat/completions''
      then (if verb = ''POST'' then EpChat else EpNotFound)
      else if has_suffix p ''/v1/messages'' \<or> p = ''/messages''
      then (if verb = ''POST'' then EpMessages else EpNotFound)
      else if has_suffix p ''/healthz'' \<or> has_suffix p ''/health'' then EpHealth
      else EpNotFound)"

definition authenticate :: "'w engine \<Rightarrow> http_request \<Rightarrow> 'w \<Rightarrow> (go_err + principal option) \<times> 'w" where
  "authenticate e rq w =
     (case en_auth e of
        Some f \<Rightarrow> f rq w
      | None \<Rightarrow> (Inr (Some \<lparr>pr_id = ''anonymous'', pr_type = ''anonymous'', pr_project = []\<rparr>), w))"

subsection \<open>Resolving targets\<close>

fun allowed_targets ::
    "(principal option \<Rightarrow> target \<Rightarrow> 'w \<Rightarrow> (bool \<times> string) \<times> 'w) option \<Rightarrow> principal option \<Rightarrow>
     target list \<Rightarrow> 'w \<Rightarrow> target list \<times> 'w" where
  "allowed_targets policy who [] w = ([], w)"
| "allowed_targets policy who (t # ts) w =
     (case (case policy of None \<Rightarrow> ((True, []), w) | Some p \<Rightarrow> p who t w) of
        ((allowed, _), w1) \<Rightarrow>
          (case allowed_targets policy who ts w1 of
             (valid, w2) \<Rightarrow> ((if allowed then t # valid else valid), w2)))"

definition resolve_targets :: "'w engine \<Rightarrow> principal option \<Rightarrow> string \<Rightarrow> 'w \<Rightarrow> target list \<times> 'w" where
  "resolve_targets e who requested w =
     (case map_of (en_routes e) requested of
        Some route \<Rightarrow> allowed_targets (en_policy e) who (rc_targets route) w
      | None \<Rightarrow>
          (case cut_byte CHR ''/'' requested of
             Some (provider, model) \<Rightarrow>
               allowed_targets (en_policy e) who [\<lparr>tg_provider = provider, tg_model = model\<rparr>] w
           | None \<Rightarrow> ([], w)))"

subsection \<open>Telemetry\<close>

definition usage_of ::
    "('w http_env) \<Rightarrow> principal option \<Rightarrow> target \<Rightarrow> duration \<Rightarrow> bool \<Rightarrow> int \<Rightarrow> go_err option \<Rightarrow> usage_record" where
  "usage_of env who t d stream status err =
     \<lparr>ur_request_id = [],
      ur_principal = (case who of None \<Rightarrow> [] | Some p \<Rightarrow> pr_id p),
      ur_project = (case who of None \<Rightarrow> [] | Some p \<Rightarrow> pr_project p),
      ur_provider = tg_provider t, ur_model = tg_model t, ur_input_tokens = 0, ur_output_tokens = 0,
      ur_duration = d, ur_stream = stream, ur_status = status,
      ur_error = (case err of None \<Rightarrow> [] | Some e \<Rightarrow> ev_text env e)\<rparr>"

definition record_usage :: "'w engine \<Rightarrow> usage_record \<Rightarrow> 'w \<Rightarrow> 'w" where
  "record_usage e u w = (case en_usage e of None \<Rightarrow> w | Some f \<Rightarrow> f u w)"

subsection \<open>Listing models\<close>

definition unix_seconds :: "gtime \<Rightarrow> int" where
  "unix_seconds t = t div 1000000000 - 62135596800"

definition alias_row :: "int \<Rightarrow> string \<times> route_config \<Rightarrow> model_info" where
  "alias_row created nr =
     (case nr of
        (name, route) \<Rightarrow>
          empty_model_info\<lparr>mi_id := name, mi_object := ''model'', mi_created := created, mi_owned_by := ''route'',
            mi_description :=
              (if rc_description route = []
               then ''Route alias across '' @ decimal (length (rc_targets route)) @ '' targets''
               else rc_description route)\<rparr>)"

definition handle_models :: "'w http_env \<Rightarrow> 'w engine \<Rightarrow> http_request \<Rightarrow> 'w \<Rightarrow> response \<times> 'w" where
  "handle_models env e rq w =
     (case authenticate e rq w of
        (Inl err, w1) \<Rightarrow>
          ([WriteError 401 (ReplyText
             [Lit ''{\"error\":{\"message\":'', Quoted (ev_text env err), Lit '',\"type\":\"auth_error\"}}''])], w1)
      | (Inr _, w1) \<Rightarrow>
          (case ev_now env w1 of
             (t, w2) \<Rightarrow> ([json_header, WriteValue (ReplyModels (map (alias_row (unix_seconds t)) (en_routes e)))], w2)))"

subsection \<open>Chat completions\<close>

text \<open>How one target ends: it served with a status, the loop goes on, or it breaks.\<close>

datatype chat_step = CsServed int "go_err option" | CsNext "go_err option" | CsBreak go_err

definition after_failure :: "'w http_env \<Rightarrow> go_err \<Rightarrow> 'w \<Rightarrow> chat_step \<times> 'w" where
  "after_failure env err w =
     (case ev_ctx env w of
        (ended, w1) \<Rightarrow> ((if ended \<noteq> None \<or> \<not> failover_eligible err then CsBreak err else CsNext (Some err)), w1))"

definition chat_failed :: "'w http_env \<Rightarrow> go_err \<Rightarrow> response \<Rightarrow> 'w \<Rightarrow> ((chat_step \<times> response) \<times> 'w) option" where
  "chat_failed env err out w = (case after_failure env err w of (st, w1) \<Rightarrow> Some ((st, out), w1))"

definition chat_stream ::
    "'w http_env \<Rightarrow> (credential option \<Rightarrow> 'w \<Rightarrow> (go_err + 'w stream) \<times> 'w) \<Rightarrow> credential option \<Rightarrow>
     response \<Rightarrow> 'w \<Rightarrow> ((chat_step \<times> response) \<times> 'w) option" where
  "chat_stream env open cred out w =
     (case open cred w of
        (Inl err, w1) \<Rightarrow> chat_failed env err out w1
      | (Inr s, w1) \<Rightarrow>
          (case write_sse_stream (ev_flushes env) s out w1 of
             None \<Rightarrow> None
           | Some ((err, wrote, out'), w2) \<Rightarrow>
               (if err \<noteq> None \<and> \<not> wrote then chat_failed env (the err) out' w2
                else Some ((CsServed (if err = None then 200 else 502) err, out'), w2))))"

definition chat_complete ::
    "'w http_env \<Rightarrow> (credential option \<Rightarrow> 'w \<Rightarrow> (go_err + json_object) \<times> 'w) \<Rightarrow> credential option \<Rightarrow>
     response \<Rightarrow> 'w \<Rightarrow> ((chat_step \<times> response) \<times> 'w) option" where
  "chat_complete env complete cred out w =
     (case complete cred w of
        (Inl err, w1) \<Rightarrow> chat_failed env err out w1
      | (Inr answer, w1) \<Rightarrow>
          Some ((CsServed 200 None, out @ [json_header, WriteValue (ReplyJson (AObject answer))]), w1))"

definition chat_target ::
    "'w http_env \<Rightarrow> 'w engine \<Rightarrow> principal option \<Rightarrow> json_object \<Rightarrow> bool \<Rightarrow> target \<Rightarrow> go_err option \<Rightarrow>
     response \<Rightarrow> 'w \<Rightarrow> ((chat_step \<times> response) \<times> 'w) option" where
  "chat_target env e who payload stream t last_err out w =
     (case (case en_resolver e of None \<Rightarrow> (Inr None, w) | Some f \<Rightarrow> f who (tg_provider t) w) of
        (Inl err, w1) \<Rightarrow> chat_failed env err out w1
      | (Inr cred, w1) \<Rightarrow>
          (case en_providers e (tg_provider t) of
             None \<Rightarrow> Some ((CsNext (Some (Sentinel ''provider not registered'')), out), w1)
           | Some p \<Rightarrow>
               (if stream
                then
                  (case ep_stream p of
                     None \<Rightarrow> Some ((CsNext (Some (Sentinel ''provider does not support streaming'')), out), w1)
                   | Some f \<Rightarrow> chat_stream env (f (tg_model t) payload) cred out w1)
                else
                  (case ep_complete p of
                     None \<Rightarrow> Some ((CsNext last_err, out), w1)
                   | Some f \<Rightarrow> chat_complete env (f (tg_model t) payload) cred out w1))))"

datatype chat_end = ChatServed target int "go_err option" | ChatFailed "go_err option" target

fun chat_loop ::
    "'w http_env \<Rightarrow> 'w engine \<Rightarrow> principal option \<Rightarrow> json_object \<Rightarrow> bool \<Rightarrow> target list \<Rightarrow> go_err option \<Rightarrow>
     target \<Rightarrow> response \<Rightarrow> 'w \<Rightarrow> ((chat_end \<times> response) \<times> 'w) option" where
  "chat_loop env e who payload stream [] last_err last_target out w = Some ((ChatFailed last_err last_target, out), w)"
| "chat_loop env e who payload stream (t # ts) last_err last_target out w =
     (case chat_target env e who payload stream t last_err out w of
        None \<Rightarrow> None
      | Some ((CsServed status err, out'), w1) \<Rightarrow> Some ((ChatServed t status err, out'), w1)
      | Some ((CsBreak err, out'), w1) \<Rightarrow> Some ((ChatFailed (Some err) t, out'), w1)
      | Some ((CsNext err', out'), w1) \<Rightarrow> chat_loop env e who payload stream ts err' t out' w1)"

definition zero_target :: target where
  "zero_target = \<lparr>tg_provider = [], tg_model = []\<rparr>"

text \<open>
  The handler up to its telemetry: the response and, once targets were tried, the record of the
  request, which \<open>handle_chat\<close> hands to the usage hook last.
\<close>

definition chat_exchange ::
    "'w http_env \<Rightarrow> 'w engine \<Rightarrow> http_request \<Rightarrow> 'w \<Rightarrow> ((response \<times> usage_record option) \<times> 'w) option" where
  "chat_exchange env e rq w =
     (case authenticate e rq w of
        (Inl err, w1) \<Rightarrow> Some ((json_error 401 (error_value (ev_text env err) ''auth_error''), None), w1)
      | (Inr who, w1) \<Rightarrow>
          (case hr_body rq of
             Inl err \<Rightarrow> Some ((plain_error 400 ''{\"error\":{\"message\":\"read request body failed\"}}'', None), w1)
           | Inr body \<Rightarrow>
               (case ev_decode env body of
                  None \<Rightarrow> Some ((plain_error 400 ''{\"error\":{\"message\":\"malformed json body\"}}'', None), w1)
                | Some payload \<Rightarrow>
                    (let requested = text_of (field payload ''model'');
                         stream = (field payload ''stream'' = ABool True)
                     in if requested = []
                        then Some ((plain_error 400
                                      (''{\"error\":{\"message\":\"'' @ [CHR 0x27] @ ''model'' @ [CHR 0x27] @
                                       '' field is required\"}}''), None), w1)
                        else
                          (case resolve_targets e who requested w1 of
                             (targets, w2) \<Rightarrow>
                               (if targets = []
                                then Some ((json_error 404 (error_value
                                       ''no enabled provider available for requested model'' ''model_not_found''), None), w2)
                                else
                                  (case ev_now env w2 of
                                     (start, w3) \<Rightarrow>
                                       (case chat_loop env e who payload stream targets None zero_target [] w3 of
                                          None \<Rightarrow> None
                                        | Some ((ChatServed t status err, out), w4) \<Rightarrow>
                                            (case ev_now env w4 of
                                               (end_time, w5) \<Rightarrow>
                                                 Some ((out, Some (usage_of env who t (time_sub end_time start) stream status err)), w5))
                                        | Some ((ChatFailed err t, out), w4) \<Rightarrow>
                                            (case ev_now env w4 of
                                               (end_time, w5) \<Rightarrow>
                                                 Some ((out @ json_error 502 (error_value
                                                          (case err of None \<Rightarrow> ''all targets failed'' | Some x \<Rightarrow> ev_text env x)
                                                          ''upstream_error''),
                                                        Some (usage_of env who t (time_sub end_time start) stream 502 err)), w5))))))))))"

definition handle_chat :: "'w http_env \<Rightarrow> 'w engine \<Rightarrow> http_request \<Rightarrow> 'w \<Rightarrow> (response \<times> 'w) option" where
  "handle_chat env e rq w =
     map_option (\<lambda>((out, usage), w1). (out, case usage of None \<Rightarrow> w1 | Some u \<Rightarrow> record_usage e u w1))
       (chat_exchange env e rq w)"

subsection \<open>Messages\<close>

definition openai_payload :: "'w http_env \<Rightarrow> string \<Rightarrow> bool \<Rightarrow> json_object \<Rightarrow> json_object" where
  "openai_payload env model stream rq =
     (case ev_to_openai env rq of
        (msgs, extra) \<Rightarrow>
          fold (\<lambda>(k, v) m. AList.update k v m) extra
            [(''model'', AString model), (''messages'', msgs), (''stream'', ABool stream)])"

definition upstream_failed_event :: string where
  "upstream_failed_event =
     ''event: error'' @ newline @
     ''data: {\"type\":\"error\",\"error\":{\"type\":\"api_error\",\"message\":\"upstream stream failed\"}}'' @
     newline @ newline"

text \<open>What follows the translated events.\<close>

definition relay_end :: "'w http_env \<Rightarrow> ('w, reply) relay \<Rightarrow> response \<times> 'w" where
  "relay_end env r =
     (case rl_err r of
        Some err \<Rightarrow>
          (if \<not> rl_wrote r then (rl_out r @ quoted_error 502 (ev_text env err), rl_world r)
           else
             (case ev_ctx env (rl_world r) of
                (ended, w1) \<Rightarrow>
                  (rl_out r @
                     (if ended \<noteq> None then []
                      else WriteBytes upstream_failed_event # (if ev_flushes env then [FlushOut] else [])), w1)))
      | None \<Rightarrow>
          (rl_out r @
             (if rl_terminal r then []
              else plain_error 502 ''{\"type\":\"error\",\"error\":{\"message\":\"provider stream ended without a terminal event\"}}''),
           rl_world r))"

definition messages_stream ::
    "'w http_env \<Rightarrow> string \<Rightarrow> 'w stream \<Rightarrow> 'w \<Rightarrow> (response \<times> 'w) option" where
  "messages_stream env model s w =
     map_option (\<lambda>r. case relay_end env r of (out, w1) \<Rightarrow> (out, snd (sm_close s w1)))
       (run_translator (ev_flushes env) s (ev_translator env model) (new_relay [] w))"

definition messages_complete ::
    "'w http_env \<Rightarrow> 'w engine_provider \<Rightarrow> string \<Rightarrow> json_object \<Rightarrow> credential option \<Rightarrow> 'w \<Rightarrow> response \<times> 'w" where
  "messages_complete env p model payload cred w =
     (case ep_complete p of
        None \<Rightarrow> (plain_error 501 ''{\"type\":\"error\",\"error\":{\"message\":\"unsupported provider\"}}'', w)
      | Some f \<Rightarrow>
          (case f model payload cred w of
             (Inl err, w1) \<Rightarrow> (quoted_error 502 (ev_text env err), w1)
           | (Inr answer, w1) \<Rightarrow>
               ([json_header, WriteValue (ReplyJson (AObject (ev_to_anthropic env answer model)))], w1)))"

definition handle_messages :: "'w http_env \<Rightarrow> 'w engine \<Rightarrow> http_request \<Rightarrow> 'w \<Rightarrow> (response \<times> 'w) option" where
  "handle_messages env e rq w =
     (case authenticate e rq w of
        (Inl err, w1) \<Rightarrow> Some (json_error 401 (messages_error ''authentication_error'' (ev_text env err)), w1)
      | (Inr who, w1) \<Rightarrow>
          (case hr_body rq of
             Inl err \<Rightarrow>
               Some (plain_error 400
                 ''{\"type\":\"error\",\"error\":{\"type\":\"invalid_request_error\",\"message\":\"read request failed\"}}'', w1)
           | Inr body \<Rightarrow>
               (case ev_decode env body of
                  None \<Rightarrow>
                    Some (plain_error 400
                      ''{\"type\":\"error\",\"error\":{\"type\":\"invalid_request_error\",\"message\":\"malformed json\"}}'', w1)
                | Some req \<Rightarrow>
                    (let requested = text_of (field req ''model'');
                         stream = (field req ''stream'' = ABool True);
                         payload = openai_payload env requested stream req
                     in case resolve_targets e who requested w1 of
                          ([], w2) \<Rightarrow> Some (json_error 404 (messages_error ''not_found_error'' ''model not found''), w2)
                        | (t # _, w2) \<Rightarrow>
                            (case en_providers e (tg_provider t) of
                               None \<Rightarrow>
                                 Some (plain_error 502 ''{\"type\":\"error\",\"error\":{\"message\":\"provider unavailable\"}}'', w2)
                             | Some p \<Rightarrow>
                                 (case (case en_resolver e of
                                          None \<Rightarrow> (None, w2)
                                        | Some f \<Rightarrow>
                                            (case f who (tg_provider t) w2 of
                                               (Inl _, w3) \<Rightarrow> (None, w3)
                                             | (Inr c, w3) \<Rightarrow> (c, w3))) of
                                    (cred, w3) \<Rightarrow>
                                      (case (if stream then ep_stream p else None) of
                                         Some f \<Rightarrow>
                                           (case f (tg_model t) payload cred w3 of
                                              (Inl err, w4) \<Rightarrow> Some (quoted_error 502 (ev_text env err), w4)
                                            | (Inr s, w4) \<Rightarrow> messages_stream env (tg_model t) s w4)
                                       | None \<Rightarrow> Some (messages_complete env p (tg_model t) payload cred w3))))))))"

definition serve_http :: "'w http_env \<Rightarrow> 'w engine \<Rightarrow> http_request \<Rightarrow> 'w \<Rightarrow> (response \<times> 'w) option" where
  "serve_http env e rq w =
     (case endpoint_of (hr_method rq) (hr_path rq) of
        EpModels \<Rightarrow> Some (handle_models env e rq w)
      | EpChat \<Rightarrow> handle_chat env e rq w
      | EpMessages \<Rightarrow> handle_messages env e rq w
      | EpHealth \<Rightarrow>
          Some ([json_header, WriteValue (ReplyJson (AObject [(''status'', AString ''ok''), (''version'', AString ''core-1.0'')]))], w)
      | EpNotFound \<Rightarrow> Some (plain_error 404 ''404 page not found'', w))"

subsection \<open>Which target answers\<close>

lemma allowed_targets_sound:
  "allowed_targets policy who ts w = (valid, w') \<Longrightarrow> t \<in> set valid \<Longrightarrow>
     t \<in> set ts \<and> (case policy of None \<Rightarrow> True | Some p \<Rightarrow> \<exists>w1 reason w2. p who t w1 = ((True, reason), w2))"
proof (induction ts arbitrary: w valid w')
  case Nil
  then show ?case by simp
next
  case (Cons a ts)
  show ?case
  proof (cases policy)
    case None
    with Cons show ?thesis by (fastforce split: prod.splits)
  next
    case (Some p)
    obtain al reason w1 where a: "p who a w = ((al, reason), w1)" by (metis surj_pair)
    obtain rest w2 where r: "allowed_targets policy who ts w1 = (rest, w2)" by fastforce
    with a Some Cons.prems have v: "valid = (if al then a # rest else rest)"
      by simp
    show ?thesis
    proof (cases "t \<in> set rest")
      case True
      with Cons.IH [OF r True] Some show ?thesis by auto
    next
      case False
      with v Cons.prems(2) have "al" "t = a" by (auto split: if_splits)
      with a Some show ?thesis by auto
    qed
  qed
qed

text \<open>A target the policy allowed for a caller, at some moment.\<close>

definition allowed_target :: "'w engine \<Rightarrow> principal option \<Rightarrow> target \<Rightarrow> bool" where
  "allowed_target e who t \<longleftrightarrow>
     (case en_policy e of None \<Rightarrow> True | Some p \<Rightarrow> \<exists>w1 reason w2. p who t w1 = ((True, reason), w2))"

lemma resolve_targets_allowed:
  "resolve_targets e who requested w = (ts, w') \<Longrightarrow> t \<in> set ts \<Longrightarrow> allowed_target e who t"
  unfolding resolve_targets_def allowed_target_def
  by (auto split: option.splits simp del: allowed_targets.simps dest: allowed_targets_sound)

lemma chat_failed_out: "chat_failed env err out w = Some ((st, out'), w') \<Longrightarrow>
    out' = out \<and> (st = CsBreak err \<or> st = CsNext (Some err))"
  by (auto simp: chat_failed_def after_failure_def split: prod.splits if_splits)

lemma write_sse_served:
  "write_sse_stream flushes s out w = Some ((None, wrote, out'), w') \<Longrightarrow> wrote"
proof -
  assume r: "write_sse_stream flushes s out w = Some ((None, wrote, out'), w')"
  then obtain w1 where "sse_post flushes s False False out w ((None, wrote, out'), w1)"
    using write_sse_stream_post [OF r] by (auto split: if_splits)
  then show wrote
    using sse_post_writes by fastforce
qed

text \<open>The answer of a target: one relayed stream of its provider, or one completion.\<close>

definition answered ::
    "'w http_env \<Rightarrow> 'w engine \<Rightarrow> json_object \<Rightarrow> bool \<Rightarrow> target \<Rightarrow> response \<Rightarrow> go_err option \<Rightarrow> response \<Rightarrow> bool" where
  "answered env e payload stream t out err out' \<longleftrightarrow>
     (\<exists>p. en_providers e (tg_provider t) = Some p \<and>
        (if stream
         then \<exists>f cred w1 s w2 w3. ep_stream p = Some f \<and> f (tg_model t) payload cred w1 = (Inr s, w2) \<and>
                write_sse_stream (ev_flushes env) s out w2 = Some ((err, True, out'), w3)
         else \<exists>f cred w1 answer w2. ep_complete p = Some f \<and> f (tg_model t) payload cred w1 = (Inr answer, w2) \<and>
                err = None \<and> out' = out @ [json_header, WriteValue (ReplyJson (AObject answer))]))"

lemma answered_stream:
  "en_providers e (tg_provider t) = Some p \<Longrightarrow> ep_stream p = Some f \<Longrightarrow>
     f (tg_model t) payload cred w1 = (Inr s, w2) \<Longrightarrow>
     write_sse_stream (ev_flushes env) s out w2 = Some ((err, True, out'), w3) \<Longrightarrow>
     answered env e payload True t out err out'"
  unfolding answered_def by simp blast

lemma answered_complete:
  "en_providers e (tg_provider t) = Some p \<Longrightarrow> ep_complete p = Some f \<Longrightarrow>
     f (tg_model t) payload cred w1 = (Inr answer, w2) \<Longrightarrow>
     answered env e payload False t out None (out @ [json_header, WriteValue (ReplyJson (AObject answer))])"
  unfolding answered_def by auto

definition step_sound ::
    "'w http_env \<Rightarrow> 'w engine \<Rightarrow> json_object \<Rightarrow> bool \<Rightarrow> target \<Rightarrow> response \<Rightarrow> chat_step \<Rightarrow> response \<Rightarrow> bool" where
  "step_sound env e payload stream t out st out' \<longleftrightarrow>
     (case st of
        CsServed status err \<Rightarrow>
          status = (if err = None then 200 else 502) \<and>
          answered env e payload stream t out err out'
      | _ \<Rightarrow> out' = out)"

lemma chat_failed_break:
  "chat_failed env err out w = Some ((CsBreak x, out'), w') \<Longrightarrow>
     \<not> failover_eligible x \<or> (\<exists>v. fst (ev_ctx env v) \<noteq> None)"
  by (auto simp: chat_failed_def after_failure_def split: prod.splits if_splits) (metis fst_conv option.distinct(1))

lemma chat_failed_sound:
  "chat_failed env err out w = Some ((st, out'), w') \<Longrightarrow> step_sound env e payload stream t out st out'"
  by (auto dest!: chat_failed_out simp: step_sound_def)

lemma chat_stream_sound:
  assumes "chat_stream env (f (tg_model t) payload) cred out w = Some ((st, out'), w')"
    and "en_providers e (tg_provider t) = Some p" and "ep_stream p = Some f"
  shows "step_sound env e payload True t out st out'"
proof -
  obtain opened w1 where o: "f (tg_model t) payload cred w = (opened, w1)" by fastforce
  show ?thesis
  proof (cases opened)
    case (Inl err)
    with assms(1) o show ?thesis by (simp add: chat_stream_def chat_failed_sound)
  next
    case (Inr s)
    with assms(1) o obtain err wrote out1 w2
      where r: "write_sse_stream (ev_flushes env) s out w1 = Some ((err, wrote, out1), w2)"
      by (auto simp: chat_stream_def split: option.splits)
    show ?thesis
    proof (cases "err \<noteq> None \<and> \<not> wrote")
      case True
      with r have "out1 = out" by (auto dest: write_sse_untouched)
      with True assms(1) o Inr r show ?thesis by (simp add: chat_stream_def chat_failed_sound)
    next
      case False
      with r have "wrote" by (cases err) (auto dest: write_sse_served)
      with r o Inr assms(2,3) have "answered env e payload True t out err out1"
        by (auto intro: answered_stream)
      with False assms(1) o Inr r show ?thesis by (auto simp: chat_stream_def step_sound_def)
    qed
  qed
qed

lemma chat_complete_sound:
  assumes "chat_complete env (f (tg_model t) payload) cred out w = Some ((st, out'), w')"
    and "en_providers e (tg_provider t) = Some p" and "ep_complete p = Some f"
  shows "step_sound env e payload False t out st out'"
proof -
  obtain res w1 where o: "f (tg_model t) payload cred w = (res, w1)" by fastforce
  show ?thesis
  proof (cases res)
    case (Inl err)
    with assms(1) o show ?thesis by (simp add: chat_complete_def chat_failed_sound)
  next
    case (Inr answer)
    with assms o answered_complete [OF assms(2,3)] show ?thesis
      by (auto simp: chat_complete_def step_sound_def)
  qed
qed

lemma chat_target_sound:
  assumes "chat_target env e who payload stream t last_err out w = Some ((st, out'), w')"
  shows "step_sound env e payload stream t out st out'"
proof -
  obtain res w1 where r: "(case en_resolver e of None \<Rightarrow> (Inr None, w) | Some f \<Rightarrow> f who (tg_provider t) w) = (res, w1)"
    by fastforce
  have skip: "step_sound env e payload stream t out (CsNext x) out" for x
    by (simp add: step_sound_def)
  show ?thesis
  proof (cases res)
    case (Inl err)
    with assms r show ?thesis by (simp add: chat_target_def chat_failed_sound)
  next
    case (Inr cred)
    show ?thesis
    proof (cases "en_providers e (tg_provider t)")
      case None
      with assms r Inr skip show ?thesis by (auto simp: chat_target_def)
    next
      case (Some p)
      with assms r Inr skip chat_stream_sound [OF _ Some] chat_complete_sound [OF _ Some] show ?thesis
        by (auto simp: chat_target_def split: if_splits option.splits)
    qed
  qed
qed

lemma chat_target_break:
  "chat_target env e who payload stream t err out w = Some ((CsBreak x, out'), w') \<Longrightarrow>
     \<not> failover_eligible x \<or> (\<exists>v. fst (ev_ctx env v) \<noteq> None)"
  by (auto simp: chat_target_def chat_stream_def chat_complete_def
      split: prod.splits sum.splits option.splits if_splits dest!: chat_failed_break)

text \<open>The targets that did not serve, each leaving the response as it was.\<close>

inductive chat_skips ::
    "'w http_env \<Rightarrow> 'w engine \<Rightarrow> principal option \<Rightarrow> json_object \<Rightarrow> bool \<Rightarrow> response \<Rightarrow>
     go_err option \<Rightarrow> 'w \<Rightarrow> target list \<Rightarrow> go_err option \<Rightarrow> 'w \<Rightarrow> bool"
  for env e who payload stream out where
  skips_done: "chat_skips env e who payload stream out err w [] err w"
| skips_next: "chat_target env e who payload stream t err out w = Some ((CsNext err1, out), w1) \<Longrightarrow>
    chat_skips env e who payload stream out err1 w1 ts err2 w2 \<Longrightarrow>
    chat_skips env e who payload stream out err w (t # ts) err2 w2"

inductive_simps chat_skips_Nil [simp]: "chat_skips env e who payload stream out err w [] err2 w2"

definition chat_outcome ::
    "'w http_env \<Rightarrow> 'w engine \<Rightarrow> principal option \<Rightarrow> json_object \<Rightarrow> bool \<Rightarrow> target list \<Rightarrow> go_err option \<Rightarrow>
     target \<Rightarrow> response \<Rightarrow> 'w \<Rightarrow> chat_end \<Rightarrow> response \<Rightarrow> 'w \<Rightarrow> bool" where
  "chat_outcome env e who payload stream ts err last_target out w ce out' w' \<longleftrightarrow>
     (\<exists>pre post err1 w1. ts = pre @ post \<and> chat_skips env e who payload stream out err w pre err1 w1 \<and>
        (case ce of
           ChatServed t status serr \<Rightarrow>
             post \<noteq> [] \<and> hd post = t \<and>
             chat_target env e who payload stream t err1 out w1 = Some ((CsServed status serr, out'), w')
         | ChatFailed ferr t \<Rightarrow>
             out' = out \<and>
             (if post = [] then ferr = err1 \<and> w' = w1 \<and> t = last (last_target # pre)
              else hd post = t \<and> (\<exists>x. ferr = Some x \<and>
                chat_target env e who payload stream t err1 out w1 = Some ((CsBreak x, out), w')))))"

lemma chat_loop_outcome:
  "chat_loop env e who payload stream ts err last_target out w = Some ((ce, out'), w') \<Longrightarrow>
     chat_outcome env e who payload stream ts err last_target out w ce out' w'"
proof (induction ts arbitrary: err last_target w)
  case Nil
  then show ?case by (auto simp: chat_outcome_def)
next
  case (Cons t ts)
  from Cons.prems obtain st out1 w1 where c: "chat_target env e who payload stream t err out w = Some ((st, out1), w1)"
    by (auto split: option.splits)
  note sound = chat_target_sound [OF c]
  show ?case
  proof (cases st)
    case (CsServed status serr)
    with c Cons.prems show ?thesis
      unfolding chat_outcome_def
      by (intro exI [of _ "[]"] exI [of _ "t # ts"] exI [of _ err] exI [of _ w]) auto
  next
    case (CsBreak x)
    with c Cons.prems sound show ?thesis
      unfolding chat_outcome_def
      by (intro exI [of _ "[]"] exI [of _ "t # ts"] exI [of _ err] exI [of _ w]) (auto simp: step_sound_def)
  next
    case (CsNext err1)
    with sound have o: "out1 = out" by (simp add: step_sound_def)
    with CsNext c Cons.prems have "chat_loop env e who payload stream ts err1 t out w1 = Some ((ce, out'), w')"
      by simp
    from Cons.IH [OF this] obtain pre post err2 w2 where p: "ts = pre @ post"
        "chat_skips env e who payload stream out err1 w1 pre err2 w2"
      and q: "case ce of
           ChatServed t status serr \<Rightarrow>
             post \<noteq> [] \<and> hd post = t \<and>
             chat_target env e who payload stream t err2 out w2 = Some ((CsServed status serr, out'), w')
         | ChatFailed ferr t' \<Rightarrow>
             out' = out \<and>
             (if post = [] then ferr = err2 \<and> w' = w2 \<and> t' = last (t # pre)
              else hd post = t' \<and> (\<exists>x. ferr = Some x \<and>
                chat_target env e who payload stream t' err2 out w2 = Some ((CsBreak x, out), w')))"
      unfolding chat_outcome_def by blast
    have "chat_skips env e who payload stream out err w (t # pre) err2 w2"
      using c CsNext o p(2) by (auto intro: skips_next)
    then show ?thesis
      unfolding chat_outcome_def using p(1) q
      by (intro exI [of _ "t # pre"] exI [of _ post] exI [of _ err2] exI [of _ w2]) (auto split: chat_end.splits)
  qed
qed

lemma chat_outcome_target:
  assumes "chat_outcome env e who payload stream ts err last_target out w ce out' w'" and "ts \<noteq> []"
  shows "case ce of
      ChatServed t status serr \<Rightarrow>
        t \<in> set ts \<and> status = (if serr = None then 200 else 502) \<and> answered env e payload stream t out serr out'
    | ChatFailed ferr t \<Rightarrow> t \<in> set ts \<and> out' = out"
proof -
  from assms(1) obtain pre post err1 w1 where p: "ts = pre @ post"
    and q: "case ce of
           ChatServed t status serr \<Rightarrow>
             post \<noteq> [] \<and> hd post = t \<and>
             chat_target env e who payload stream t err1 out w1 = Some ((CsServed status serr, out'), w')
         | ChatFailed ferr t \<Rightarrow>
             out' = out \<and>
             (if post = [] then ferr = err1 \<and> w' = w1 \<and> t = last (last_target # pre)
              else hd post = t \<and> (\<exists>x. ferr = Some x \<and>
                chat_target env e who payload stream t err1 out w1 = Some ((CsBreak x, out), w')))"
    unfolding chat_outcome_def by blast
  show ?thesis
  proof (cases ce)
    case (ChatServed t status serr)
    with q have c: "chat_target env e who payload stream t err1 out w1 = Some ((CsServed status serr, out'), w')"
      and t: "post \<noteq> []" "hd post = t" by simp_all
    have "t \<in> set ts"
      using t p by (cases post) auto
    with chat_target_sound [OF c] ChatServed show ?thesis
      by (simp add: step_sound_def)
  next
    case (ChatFailed ferr t)
    with p q assms(2) show ?thesis
      by (cases post; cases pre rule: rev_cases) (auto split: if_splits)
  qed
qed

definition refused :: "response \<Rightarrow> bool" where
  "refused out \<longleftrightarrow> (\<exists>status. status \<in> {400, 401, 404} \<and> ((\<exists>v. out = json_error status v) \<or> (\<exists>b. out = plain_error status b)))"

definition exchange_ok ::
    "'w http_env \<Rightarrow> 'w engine \<Rightarrow> response \<Rightarrow> usage_record option \<Rightarrow> bool" where
  "exchange_ok env e out usage \<longleftrightarrow>
     (case usage of
        None \<Rightarrow> refused out
      | Some u \<Rightarrow>
          \<exists>who payload t err. allowed_target e who t \<and> ur_provider u = tg_provider t \<and> ur_model u = tg_model t \<and>
            ((ur_status u = (if err = None then 200 else 502) \<and> answered env e payload (ur_stream u) t [] err out) \<or>
             (ur_status u = 502 \<and> (\<exists>v. out = json_error 502 v))))"

lemma exchange_refused: "refused out \<Longrightarrow> exchange_ok env e out None"
  by (simp add: exchange_ok_def)

lemma refusedI: "status \<in> {400, 401, 404} \<Longrightarrow> refused (json_error status v)"
    "status \<in> {400, 401, 404} \<Longrightarrow> refused (plain_error status b)"
  by (auto simp: refused_def)

lemma usage_of_sel [simp]:
  "ur_provider (usage_of env who t d stream status err) = tg_provider t"
  "ur_model (usage_of env who t d stream status err) = tg_model t"
  "ur_status (usage_of env who t d stream status err) = status"
  "ur_stream (usage_of env who t d stream status err) = stream"
  by (simp_all add: usage_of_def)

lemma exchange_loop:
  assumes r: "resolve_targets e who requested w1 = (targets, w2)" "targets \<noteq> []"
    and l: "chat_loop env e who payload stream targets None zero_target [] w3 = Some ((ce, out), w4)"
  shows "case ce of
      ChatServed t status err \<Rightarrow> exchange_ok env e out (Some (usage_of env who t d stream status err))
    | ChatFailed err t \<Rightarrow> out = [] \<and> exchange_ok env e (json_error 502 v) (Some (usage_of env who t d stream 502 err))"
proof (cases ce)
  case (ChatServed t status err)
  with chat_outcome_target [OF chat_loop_outcome [OF l] r(2)]
  have a: "t \<in> set targets" "status = (if err = None then 200 else 502)" "answered env e payload stream t [] err out"
    by simp_all
  with resolve_targets_allowed [OF r(1)] ChatServed show ?thesis
    unfolding exchange_ok_def by simp blast
next
  case (ChatFailed err t)
  with chat_outcome_target [OF chat_loop_outcome [OF l] r(2)] resolve_targets_allowed [OF r(1)] show ?thesis
    unfolding exchange_ok_def by simp blast
qed

lemma chat_exchange_ok:
  assumes "chat_exchange env e rq w = Some ((out, usage), w')"
  shows "exchange_ok env e out usage"
proof -
  obtain au w1 where a: "authenticate e rq w = (au, w1)" by fastforce
  note refuse = exchange_refused refusedI
  show ?thesis
  proof (cases au)
    case (Inl err)
    with assms a show ?thesis by (auto simp: chat_exchange_def intro!: refuse)
  next
    case (Inr who)
    note au = this
    consider (unread) x where "hr_body rq = Inl x" | (malformed) b where "hr_body rq = Inr b" "ev_decode env b = None"
      | (ok) b payload where "hr_body rq = Inr b" "ev_decode env b = Some payload"
      by (cases "hr_body rq"; cases "ev_decode env (projr (hr_body rq))") auto
    then show ?thesis
    proof cases
      case ok
      let ?m = "text_of (field payload ''model'')" and ?s = "field payload ''stream'' = ABool True"
      obtain targets w2 where r: "resolve_targets e who ?m w1 = (targets, w2)" by fastforce
      obtain start w3 where n: "ev_now env w2 = (start, w3)" by fastforce
      show ?thesis
      proof (cases "?m = [] \<or> targets = []")
        case True
        with assms a au ok r show ?thesis by (auto simp: chat_exchange_def Let_def intro!: refuse split: if_splits)
      next
        case False
        with assms a au ok r n obtain ce out1 w4
          where l: "chat_loop env e who payload ?s targets None zero_target [] w3 = Some ((ce, out1), w4)"
          by (auto simp: chat_exchange_def Let_def split: option.splits)
        obtain fin w5 where f: "ev_now env w4 = (fin, w5)" by fastforce
        show ?thesis
        proof (cases ce)
          case (ChatServed t status err)
          with exchange_loop [OF r _ l] False assms a au ok r n l f show ?thesis
            by (auto simp: chat_exchange_def Let_def)
        next
          case (ChatFailed err t)
          with exchange_loop [OF r _ l] False assms a au ok r n l f show ?thesis
            by (auto simp: chat_exchange_def Let_def)
        qed
      qed
    qed (use assms a au in \<open>auto simp: chat_exchange_def intro!: refuse\<close>)
  qed
qed

subsection \<open>Properties\<close>


text \<open>An engine of two providers, the first failing, whose usage hook counts into the world.\<close>

definition demo_env :: "int http_env" where
  "demo_env =
     \<lparr>ev_ctx = (\<lambda>w. (None, w)), ev_now = (\<lambda>w. (w, w)), ev_flushes = False,
      ev_decode = (\<lambda>b. Some [(''model'', AString b)]), ev_text = (\<lambda>_. ''error''),
      ev_to_openai = (\<lambda>rq. (ANil, [])), ev_to_anthropic = (\<lambda>a m. a), ev_translator = (\<lambda>m. copy_from None)\<rparr>"

definition demo_engine :: "int engine" where
  "demo_engine =
     \<lparr>en_routes = [(''fast'', \<lparr>rc_targets = [\<lparr>tg_provider = ''a'', tg_model = ''m''\<rparr>, \<lparr>tg_provider = ''b'', tg_model = ''m''\<rparr>],
                              rc_fallback = False, rc_description = []\<rparr>)],
      en_providers =
        [''a'' \<mapsto> \<lparr>ep_stream = None, ep_complete = Some (\<lambda>m p c w. (Inl (SurfaceErr ChatCompletions ''m''), w + 1))\<rparr>,
         ''b'' \<mapsto> \<lparr>ep_stream = None, ep_complete = Some (\<lambda>m p c w. (Inr [(''ok'', ABool True)], w + 1))\<rparr>],
      en_auth = None, en_policy = None, en_resolver = None, en_usage = Some (\<lambda>u w. w + 100)\<rparr>"

definition demo_http :: "string \<Rightarrow> http_request" where
  "demo_http model = \<lparr>hr_method = ''POST'', hr_path = ''/v1/chat/completions'', hr_headers = [], hr_body = Inr model\<rparr>"

lemmas demo_engine_simps =
  demo_env_def demo_engine_def demo_http_def authenticate_def field_def text_of_def resolve_targets_def
  chat_target_def chat_complete_def chat_failed_def after_failure_def failover_eligible_iff record_usage_def Let_def

lemma demo_chat:
  "handle_chat demo_env demo_engine (demo_http ''fast'') 0 =
     Some ([json_header, WriteValue (ReplyJson (AObject [(''ok'', ABool True)]))], 102)"
  by (simp add: handle_chat_def chat_exchange_def demo_engine_simps)



lemma demo_loop:
  "chat_loop demo_env demo_engine None [] False
     [\<lparr>tg_provider = ''a'', tg_model = ''m''\<rparr>, \<lparr>tg_provider = ''x'', tg_model = ''m''\<rparr>, \<lparr>tg_provider = ''b'', tg_model = ''m''\<rparr>]
     None zero_target [] 0 =
   Some ((ChatServed \<lparr>tg_provider = ''b'', tg_model = ''m''\<rparr> 200 None,
          [json_header, WriteValue (ReplyJson (AObject [(''ok'', ABool True)]))]), 2)"
  by (simp add: demo_engine_simps)


lemma chat_target_routes: "chat_target env (e\<lparr>en_routes := rs\<rparr>) who payload stream t last_err out w =
    chat_target env e who payload stream t last_err out w"
  by (simp add: chat_target_def split: prod.split sum.split)

text \<open>
  What the flags and hooks do not decide: a chat completion is the same whatever the fallback flags of
  the routes say, so a route without fallback fails over all the same; the Messages endpoint calls no
  usage hook, and it sends a request whose credential could not be resolved without one, as if the
  caller had none.
\<close>
theorem ignored_settings:
  "handle_chat env (e\<lparr>en_routes := map (\<lambda>(n, r). (n, r\<lparr>rc_fallback := f n\<rparr>)) (en_routes e)\<rparr>) rq w =
     handle_chat env e rq w \<and>
   handle_messages env (e\<lparr>en_usage := hook\<rparr>) rq w = handle_messages env e rq w \<and>
   handle_messages env (e\<lparr>en_resolver := Some (\<lambda>who p w. (Inl err, w))\<rparr>) rq w =
     handle_messages env (e\<lparr>en_resolver := Some (\<lambda>who p w. (Inr None, w))\<rparr>) rq w"
proof -
  let ?e = "e\<lparr>en_routes := map (\<lambda>(n, r). (n, r\<lparr>rc_fallback := f n\<rparr>)) (en_routes e)\<rparr>"
  have m: "map_of (map (\<lambda>(n, r). (n, r\<lparr>rc_fallback := f n\<rparr>)) rs) k = map_option (\<lambda>r. r\<lparr>rc_fallback := f k\<rparr>) (map_of rs k)"
    for rs :: "(string \<times> route_config) list" and k
    by (induction rs) auto
  have r: "resolve_targets ?e who m w = resolve_targets e who m w" for who m w
    by (simp add: resolve_targets_def m split: option.split)
  have t: "chat_target env ?e who payload stream t last_err out w = chat_target env e who payload stream t last_err out w"
    for who payload stream t last_err out w
    by (simp add: chat_target_routes)
  have l: "chat_loop env ?e who payload stream ts last_err last_target out w =
      chat_loop env e who payload stream ts last_err last_target out w" for who payload stream ts last_err last_target out w
    by (induction ts arbitrary: last_err last_target out w) (simp_all add: t split: option.split chat_step.split)
  have a: "authenticate (e\<lparr>en_usage := hook\<rparr>) = authenticate e" "authenticate ?e = authenticate e"
      "authenticate (e\<lparr>en_resolver := x\<rparr>) = authenticate e" for x
    by (simp_all add: authenticate_def fun_eq_iff split: option.split)
  have u: "resolve_targets (e\<lparr>en_usage := hook\<rparr>) = resolve_targets e" "resolve_targets (e\<lparr>en_resolver := x\<rparr>) = resolve_targets e"
    for x by (simp_all add: resolve_targets_def fun_eq_iff split: option.split prod.split)
  have g: "en_providers (e\<lparr>en_usage := hook\<rparr>) = en_providers e" "en_resolver (e\<lparr>en_usage := hook\<rparr>) = en_resolver e"
      "en_providers (e\<lparr>en_resolver := x\<rparr>) = en_providers e" "en_resolver (e\<lparr>en_resolver := x\<rparr>) = x"
      "en_usage ?e = en_usage e" for x
    by simp_all
  have 1: "handle_chat env ?e rq w = handle_chat env e rq w"
    unfolding handle_chat_def chat_exchange_def record_usage_def a r l g ..
  have 2: "handle_messages env (e\<lparr>en_usage := hook\<rparr>) rq w = handle_messages env e rq w"
    unfolding handle_messages_def a u g ..
  have 3: "handle_messages env (e\<lparr>en_resolver := Some (\<lambda>who p w. (Inl err, w))\<rparr>) rq w =
     handle_messages env (e\<lparr>en_resolver := Some (\<lambda>who p w. (Inr None, w))\<rparr>) rq w"
    unfolding handle_messages_def a u g option.case prod.case sum.case ..
  show ?thesis
    using 1 2 3 by blast
qed

text \<open>
  A translated stream: the body of a Messages stream is the translator's events alone when the
  provider's stream ended well, followed by one error event when it failed after output and the client
  is still there; a failure before any event is a plain 502 reply and nothing else; and the stream is
  closed exactly once, last.
\<close>
theorem messages_stream_body:
  assumes "messages_stream env model s w = Some (out, w')"
  shows "\<exists>events r w1. run_translator (ev_flushes env) s (ev_translator env model) (new_relay ([] :: response) w) = Some r \<and>
    w' = snd (sm_close s w1) \<and>
    (case rl_err r of
       None \<Rightarrow> written_bytes out = events \<and> (rl_terminal r \<longrightarrow> out = frame_writes (ev_flushes env) False events)
     | Some err \<Rightarrow>
         (if events = [] then out = quoted_error 502 (ev_text env err)
          else written_bytes out \<in> {events, events @ [upstream_failed_event]}))"
proof -
  obtain r where r: "run_translator (ev_flushes env) s (ev_translator env model) (new_relay [] w) = Some r"
    and o: "(out, w') = (case relay_end env r of (out, w1) \<Rightarrow> (out, snd (sm_close s w1)))"
    using assms by (auto simp: messages_stream_def)
  obtain w1 where e: "relay_end env r = (out, w1)" and w': "w' = snd (sm_close s w1)"
    using o by (auto split: prod.splits)
  obtain events where ev: "rl_out r = frame_writes (ev_flushes env) False events" "rl_wrote r = (events \<noteq> [])"
    using run_translator_step [OF r] by (auto simp: relay_step_def new_relay_def)
  have b: "written_bytes (rl_out r) = events"
    using ev(1) by simp
  have c: "case rl_err r of
       None \<Rightarrow> written_bytes out = events \<and> (rl_terminal r \<longrightarrow> out = frame_writes (ev_flushes env) False events)
     | Some err \<Rightarrow>
         (if events = [] then out = quoted_error 502 (ev_text env err)
          else written_bytes out \<in> {events, events @ [upstream_failed_event]})"
    using e ev(2) b ev(1) [symmetric]
    by (auto simp: relay_end_def plain_error_def split: option.splits prod.splits if_splits)
  show ?thesis
    using r w' c by blast
qed

definition frames_env :: "string list http_env" where
  "frames_env =
     \<lparr>ev_ctx = (\<lambda>w. (None, w)), ev_now = (\<lambda>w. (0, w)), ev_flushes = False, ev_decode = (\<lambda>b. None),
      ev_text = (\<lambda>_. ''error''), ev_to_openai = (\<lambda>rq. (ANil, [])), ev_to_anthropic = (\<lambda>a m. a),
      ev_translator = (\<lambda>m. copy_from None)\<rparr>"

theorem messages_stream_body_witness:
  "messages_stream frames_env ''m'' demo_stream demo_frames = Some (sse_headers @ [WriteBytes ''hi''], []) \<and>
   (\<exists>events. (sse_headers @ [WriteBytes ''hi''] :: response) = frame_writes False False events)"
proof -
  have t: "run_translator (ev_flushes frames_env) demo_stream (ev_translator frames_env ''m'') (new_relay ([] :: response) demo_frames) =
     Some \<lparr>rl_err = None, rl_pending = None, rl_terminal = True, rl_wrote = True,
           rl_out = sse_headers @ [WriteBytes ''hi''], rl_world = []\<rparr>"
    by (simp add: demo_translated frames_env_def)
  have m: "messages_stream frames_env ''m'' demo_stream demo_frames = Some (sse_headers @ [WriteBytes ''hi''], [])"
    unfolding messages_stream_def t by (simp add: relay_end_def demo_stream_def)
  from messages_stream_body [OF m] obtain events r w1
    where r: "run_translator (ev_flushes frames_env) demo_stream (ev_translator frames_env ''m'') (new_relay ([] :: response) demo_frames) = Some r"
      and c: "case rl_err r of
         None \<Rightarrow> written_bytes (sse_headers @ [WriteBytes ''hi''] :: response) = events \<and>
           (rl_terminal r \<longrightarrow> (sse_headers @ [WriteBytes ''hi''] :: response) = frame_writes (ev_flushes frames_env) False events)
       | Some err \<Rightarrow>
           (if events = [] then sse_headers @ [WriteBytes ''hi''] = quoted_error 502 (ev_text frames_env err)
            else written_bytes (sse_headers @ [WriteBytes ''hi''] :: response) \<in> {events, events @ [upstream_failed_event]})"
    by blast
  from r c m show ?thesis
    unfolding t by (auto simp: frames_env_def)
qed

end
