(* ===== verification/Runtime.thy ===== *)
theory Runtime
  imports Catalog_Service Resilience
begin

text \<open>
  \<^verbatim>\<open>runtime/*.go\<close> and \<^verbatim>\<open>evidence.go\<close>: the value that owns an embedding product's provider state. Its world is the
  one of the catalog service, whose rest is the Runtime's fields (\<open>rstate\<close>) and the product's own
  state (\<open>rs_env\<close>). What a product supplies acts on \<open>rs_env\<close> alone where the Runtime calls it under its
  lock or for an instant (settings, factories, clock, evidence sink); the calls that may take long
  (a provider, a credential lookup, a token refresh) act on the whole world, so that whatever other
  operations do meanwhile is part of their effect. Every section under the Runtime's lock is one step.
  The products' settings \<open>'s\<close>, providers \<open>'p\<close> and responses \<open>'v\<close> are opaque, and so are the
  coordinators \<open>'k\<close> of llm-provider-auth, whose three functions are arguments.
\<close>

subsection \<open>Settings in memory and evidence\<close>

record 's memory_settings =
  ms_settings :: 's
  ms_generation :: u64

definition new_memory_settings :: "'s \<Rightarrow> 's memory_settings" where
  "new_memory_settings s = \<lparr>ms_settings = s, ms_generation = 1\<rparr>"

definition settings_snapshot :: "'s memory_settings \<Rightarrow> 's \<times> u64" where
  "settings_snapshot m = (ms_settings m, ms_generation m)"

definition settings_update :: "'s \<Rightarrow> 's memory_settings \<Rightarrow> u64 \<times> 's memory_settings" where
  "settings_update s m = (let g = ms_generation m + 1 in (g, m\<lparr>ms_settings := s, ms_generation := g\<rparr>))"

datatype evidence_operation = EvidenceInvoke | EvidenceStream | EvidenceListModels

record account_evidence =
  ae_caller :: caller
  ae_instance :: string
  ae_credential_key :: string
  ae_credential_revision :: string
  ae_account :: string
  ae_operation :: evidence_operation
  ae_surface :: model_surface
  ae_model :: string
  ae_outcome :: health_evidence

text \<open>\<^verbatim>\<open>MemoryEvidenceSink\<close>: its records, oldest first.\<close>

definition memory_sink_record :: "account_evidence \<Rightarrow> account_evidence list \<Rightarrow> account_evidence list" where
  "memory_sink_record ev records = records @ [ev]"

subsection \<open>Providers as bound\<close>

text \<open>\<^verbatim>\<open>Policy\<close>: the zero policy guards nothing.\<close>

record runtime_policy =
  rp_retry :: retry
  rp_circuit :: health_policy
  rp_classify :: "(go_err \<Rightarrow> classification) option"
  rp_repeatable :: "(request \<Rightarrow> bool) option"

text \<open>
  A provider as \<open>bind\<close> caches it: as built, or inside \<^verbatim>\<open>execution.Resilient\<close> with the key and policy it
  was given, \<open>gs_circuit\<close> telling whether the policy's health is the Runtime's tracker.
\<close>

record guard_settings =
  gs_key :: string
  gs_retry :: retry
  gs_circuit :: bool
  gs_classify :: "(go_err \<Rightarrow> classification) option"
  gs_repeatable :: "(request \<Rightarrow> bool) option"

record 'p bound =
  bd_provider :: 'p
  bd_guard :: "guard_settings option"

text \<open>\<^verbatim>\<open>circuits\<close>: its zero value has no tracker; the policies are then a nil map.\<close>

record circuits =
  cc_policies :: "string \<rightharpoonup> health_policy"
  cc_tracker :: "tracker option"

definition zero_circuits :: circuits where
  "zero_circuits = \<lparr>cc_policies = Map.empty, cc_tracker = None\<rparr>"

definition zero_health_policy :: health_policy where
  "zero_health_policy = \<lparr>hp_threshold = 0, hp_open = 0, hp_backoff = None, hp_window = 0, hp_ignore_retry = False\<rparr>"

definition circuits_guard :: "string \<Rightarrow> health_policy \<Rightarrow> circuits \<Rightarrow> circuits" where
  "circuits_guard inst policy c =
     (let c1 = (if cc_tracker c = None then \<lparr>cc_policies = Map.empty, cc_tracker = Some Map.empty\<rparr> else c)
      in c1\<lparr>cc_policies := (cc_policies c1)(inst \<mapsto> policy)\<rparr>)"

definition circuits_policy :: "circuits \<Rightarrow> string \<Rightarrow> health_policy" where
  "circuits_policy c inst = (case cc_policies c inst of None \<Rightarrow> zero_health_policy | Some p \<Rightarrow> p)"

text \<open>The tracker as made: its policy reads the circuits, its observation is the default one.\<close>

definition circuits_config :: "circuits \<Rightarrow> health_config" where
  "circuits_config c =
     fst (new_health_tracker \<lparr>ho_policy = Some (circuits_policy c), ho_observe = None\<rparr>)"

definition circuits_state :: "circuits \<Rightarrow> tracker" where
  "circuits_state c = (case cc_tracker c of None \<Rightarrow> Map.empty | Some t \<Rightarrow> t)"

subsection \<open>The state and its world\<close>

record ('s, 'p, 'k, 'x) rstate =
  rs_started :: bool
  rs_generation :: u64
  rs_settings :: 's
  rs_changed_at :: gtime
  rs_providers :: "string \<rightharpoonup> 'p bound"
  rs_coordinators :: "string \<rightharpoonup> 'k"
  rs_health :: "string \<rightharpoonup> health_evidence"
  rs_circuits :: circuits
  rs_memory :: memory_store
  rs_env :: 'x

type_synonym ('s, 'p, 'k, 'x) rworld = "('s, 'p, 'k, 'x) rstate cworld"

type_synonym 'w refresh_func = "token_record \<Rightarrow> 'w \<Rightarrow> (go_err + token_record) \<times> 'w"

record ('p, 'v, 'w) provider_ops =
  po_invoke :: "'p \<Rightarrow> request \<Rightarrow> 'w \<Rightarrow> ('v option \<times> go_err option) \<times> 'w"
  po_stream :: "'p \<Rightarrow> request \<Rightarrow> 'w \<Rightarrow> ('w stream option \<times> go_err option) \<times> 'w"
  po_models :: "'p \<Rightarrow> credential option \<Rightarrow> 'w \<Rightarrow> (model_info list \<times> go_err option) \<times> 'w"
  po_layers :: "'p \<Rightarrow> unit layer list"

record 'w credential_ops =
  cs_resolve :: "caller \<Rightarrow> string \<Rightarrow> 'w \<Rightarrow> (go_err + string) \<times> 'w"
  cs_load :: "string \<Rightarrow> 'w \<Rightarrow> (go_err + token_record) \<times> 'w"

record ('k, 'w, 'x) coordinator_ops =
  kd_new :: "'w refresh_func \<Rightarrow> 'x \<Rightarrow> (go_err + 'k) \<times> 'x"
  kd_token :: "'k \<Rightarrow> string \<Rightarrow> 'w \<Rightarrow> (go_err + token_record) \<times> 'w"
  kd_rejected :: "'k \<Rightarrow> string \<Rightarrow> token_record \<Rightarrow> 'w \<Rightarrow> (go_err + token_record) \<times> 'w"

record 'x store_ops =
  so_load :: "catalog_key \<Rightarrow> 'x \<Rightarrow> (catalog_record \<times> go_err option) \<times> 'x"
  so_save :: "catalog_key \<Rightarrow> catalog_evidence \<Rightarrow> 'x \<Rightarrow> (go_err + string) \<times> 'x"
  so_conditional :: "'x conditional_ops option"

text \<open>
  A context is how its error is asked. What a call hands to the catalog service's store is its
  context, so a store or service is one per context.
\<close>

type_synonym 'x context_err = "'x \<Rightarrow> go_err option \<times> 'x"

text \<open>
  What the Runtime calls outside the repository, by Go's types: the methods of a product's provider and of
  llm-provider-auth's coordinator, and the standard library's clock, sleep and readings of a body: its
  decoding into a map, its \<^verbatim>\<open>stream\<close> field, \<^verbatim>\<open>mime.ParseMediaType\<close>, and \<^verbatim>\<open>%q\<close> of a surface; further
  llm-translate's material losses and the overflow of floating-point numbers (see \<open>Transport\<close>).
\<close>

record ('s, 'p, 'k, 'v, 'x) host =
  ht_provider :: "('p, 'v, ('s, 'p, 'k, 'x) rworld) provider_ops"
  ht_coordinator :: "('k, ('s, 'p, 'k, 'x) rworld, 'x) coordinator_ops"
  ht_sleep :: "duration \<Rightarrow> ('s, 'p, 'k, 'x) rworld \<Rightarrow> go_err option \<times> ('s, 'p, 'k, 'x) rworld"
  ht_time_now :: "'x \<Rightarrow> gtime \<times> 'x"
  ht_decode :: "string \<Rightarrow> (string \<times> any_val) list option"
  ht_stream_field :: "string \<Rightarrow> bool option"
  ht_media_type :: "string \<Rightarrow> string option"
  ht_material :: "loss_report \<Rightarrow> bool"
  ht_overflow :: "int \<Rightarrow> int \<Rightarrow> int"
  ht_quote :: "model_surface \<Rightarrow> string"

text \<open>
  \<^verbatim>\<open>Options\<close>, nil fields being \<open>None\<close>; and a \<^verbatim>\<open>Runtime\<close>, its options with the defaults in place. The
  provider registry is only handed back and is left out.
\<close>

record ('s, 'p, 'k, 'x) options =
  op_settings :: "('x \<Rightarrow> ('s \<times> u64) \<times> 'x) option"
  op_providers :: "('s \<Rightarrow> string \<Rightarrow> 'x \<Rightarrow> (go_err + 'p option) \<times> 'x) option"
  op_credentials :: "('s, 'p, 'k, 'x) rworld credential_ops option"
  op_refresh :: "('s \<Rightarrow> string \<Rightarrow> ('s, 'p, 'k, 'x) rworld refresh_func option) option"
  op_policy :: "('s \<Rightarrow> string \<Rightarrow> runtime_policy) option"
  op_catalogs :: "('x context_err \<Rightarrow> ('s, 'p, 'k, 'x) rstate store_ops) option"
  op_evidence :: "(account_evidence \<Rightarrow> 'x \<Rightarrow> 'x) option"
  op_catalog_ttl :: duration
  op_catalog_service :: "('x context_err \<Rightarrow> ('s, 'p, 'k, 'x) rstate service) option"
  op_now :: "('x \<Rightarrow> gtime \<times> 'x) option"

record ('s, 'p, 'k, 'v, 'x) runtime =
  rt_host :: "('s, 'p, 'k, 'v, 'x) host"
  rt_settings :: "'x \<Rightarrow> ('s \<times> u64) \<times> 'x"
  rt_factory :: "'s \<Rightarrow> string \<Rightarrow> 'x \<Rightarrow> (go_err + 'p option) \<times> 'x"
  rt_credentials :: "('s, 'p, 'k, 'x) rworld credential_ops option"
  rt_refresh :: "('s \<Rightarrow> string \<Rightarrow> ('s, 'p, 'k, 'x) rworld refresh_func option) option"
  rt_policy :: "('s \<Rightarrow> string \<Rightarrow> runtime_policy) option"
  rt_catalogs :: "'x context_err \<Rightarrow> ('s, 'p, 'k, 'x) rstate service"
  rt_evidence :: "account_evidence \<Rightarrow> 'x \<Rightarrow> 'x"
  rt_now :: "'x \<Rightarrow> gtime \<times> 'x"

subsection \<open>Steps on the state\<close>

definition on_state :: "('r \<Rightarrow> 'a \<times> 'r) \<Rightarrow> 'r cworld \<Rightarrow> 'a \<times> 'r cworld" where
  "on_state f w = (case f (cw_rest w) of (a, s) \<Rightarrow> (a, w\<lparr>cw_rest := s\<rparr>))"

definition with_env :: "('x \<Rightarrow> 'a \<times> 'x) \<Rightarrow> ('s, 'p, 'k, 'x) rstate \<Rightarrow> 'a \<times> ('s, 'p, 'k, 'x) rstate" where
  "with_env f s = (case f (rs_env s) of (a, x) \<Rightarrow> (a, s\<lparr>rs_env := x\<rparr>))"

definition on_env :: "('x \<Rightarrow> 'a \<times> 'x) \<Rightarrow> ('s, 'p, 'k, 'x) rworld \<Rightarrow> 'a \<times> ('s, 'p, 'k, 'x) rworld" where
  "on_env f = on_state (with_env f)"

subsection \<open>New\<close>

definition memory_catalog_store :: "'x context_err \<Rightarrow> ('s, 'p, 'k, 'x) rstate store_ops" where
  "memory_catalog_store ctx =
     \<lparr>so_load = (\<lambda>k s. case with_env ctx s of
          (e, s1) \<Rightarrow> (memory_load e k (rs_memory s1), s1)),
      so_save = (\<lambda>k ev s. case with_env ctx s of
          (e, s1) \<Rightarrow> (case memory_save e k ev (rs_memory s1) of (r, m) \<Rightarrow> (r, s1\<lparr>rs_memory := m\<rparr>))),
      so_conditional = Some
        \<lparr>co_save_if = (\<lambda>k ev x s. case with_env ctx s of
            (e, s1) \<Rightarrow> (case memory_save_if e k ev x (rs_memory s1) of (r, m) \<Rightarrow> (r, s1\<lparr>rs_memory := m\<rparr>))),
         co_delete = (\<lambda>k s. case with_env ctx s of
            (e, s1) \<Rightarrow> (case memory_delete e k (rs_memory s1) of (r, m) \<Rightarrow> (r, s1\<lparr>rs_memory := m\<rparr>)))\<rparr>\<rparr>"

definition runtime_new ::
    "('s, 'p, 'k, 'v, 'x) host \<Rightarrow> ('s, 'p, 'k, 'x) options \<Rightarrow> go_err + ('s, 'p, 'k, 'v, 'x) runtime" where
  "runtime_new host opts =
     (case (op_settings opts, op_providers opts) of
        (Some settings, Some factory) \<Rightarrow>
          (let store = (case op_catalogs opts of None \<Rightarrow> memory_catalog_store | Some f \<Rightarrow> f);
               ttl = (if op_catalog_ttl opts \<le> 0 then seconds 900 else op_catalog_ttl opts);
               now = (case op_now opts of None \<Rightarrow> ht_time_now host | Some f \<Rightarrow> f)
           in Inr
             \<lparr>rt_host = host, rt_settings = settings, rt_factory = factory, rt_credentials = op_credentials opts,
              rt_refresh = op_refresh opts, rt_policy = op_policy opts,
              rt_catalogs =
                (case op_catalog_service opts of
                   Some f \<Rightarrow> f
                 | None \<Rightarrow>
                     (\<lambda>ctx. new_service
                        \<lparr>sv_load = so_load (store ctx), sv_save = so_save (store ctx),
                         sv_conditional = so_conditional (store ctx), sv_ttl = ttl, sv_instance_ttl = None,
                         sv_schema = 0, sv_keep_stale = False, sv_now = with_env now\<rparr>)),
              rt_evidence = (case op_evidence opts of None \<Rightarrow> (\<lambda>_ x. x) | Some f \<Rightarrow> f), rt_now = now\<rparr>)
      | _ \<Rightarrow> Inl (Sentinel ''runtime: Settings and Providers are required''))"

text \<open>The fields of a new Runtime: \<open>zero\<close> is the zero value of the product's settings type.\<close>

definition runtime_start :: "'s \<Rightarrow> 'x \<Rightarrow> ('s, 'p, 'k, 'x) rstate" where
  "runtime_start zero x =
     \<lparr>rs_started = False, rs_generation = 0, rs_settings = zero, rs_changed_at = 0, rs_providers = Map.empty,
      rs_coordinators = Map.empty, rs_health = Map.empty, rs_circuits = zero_circuits,
      rs_memory = new_memory_store, rs_env = x\<rparr>"

subsection \<open>Binding\<close>

definition adopt_settings ::
    "('s, 'p, 'k, 'v, 'x) runtime \<Rightarrow> 's \<Rightarrow> u64 \<Rightarrow> ('s, 'p, 'k, 'x) rstate \<Rightarrow> ('s, 'p, 'k, 'x) rstate" where
  "adopt_settings rt settings generation s =
     (if rs_started s \<and> generation = rs_generation s then s
      else
        (let s1 = (if rs_started s
                   then (case with_env (rt_now rt) s of (t, s') \<Rightarrow> s'\<lparr>rs_changed_at := t\<rparr>) else s)
         in s1\<lparr>rs_started := True, rs_generation := generation, rs_settings := settings,
               rs_providers := Map.empty, rs_coordinators := Map.empty\<rparr>))"

definition bind_resilient ::
    "('s, 'p, 'k, 'v, 'x) runtime \<Rightarrow> 'p \<Rightarrow> string \<Rightarrow> ('s, 'p, 'k, 'x) rstate \<Rightarrow> 'p bound \<times> ('s, 'p, 'k, 'x) rstate" where
  "bind_resilient rt provider inst s =
     (case rt_policy rt of
        None \<Rightarrow> (\<lparr>bd_provider = provider, bd_guard = None\<rparr>, s)
      | Some f \<Rightarrow>
          (let p = f (rs_settings s) inst;
               guarded = \<lparr>gs_key = inst, gs_retry = rp_retry p, gs_circuit = False, gs_classify = rp_classify p,
                          gs_repeatable = rp_repeatable p\<rparr>
           in if 0 < hp_threshold (rp_circuit p)
              then (\<lparr>bd_provider = provider, bd_guard = Some (guarded\<lparr>gs_circuit := True\<rparr>)\<rparr>,
                    s\<lparr>rs_circuits := circuits_guard inst (rp_circuit p) (rs_circuits s)\<rparr>)
              else if rt_attempts (rp_retry p) < 2 then (\<lparr>bd_provider = provider, bd_guard = None\<rparr>, s)
              else (\<lparr>bd_provider = provider, bd_guard = Some guarded\<rparr>, s)))"

definition bind_provider ::
    "('s, 'p, 'k, 'v, 'x) runtime \<Rightarrow> string \<Rightarrow> ('s, 'p, 'k, 'x) rstate \<Rightarrow>
     (go_err + 'p bound) \<times> ('s, 'p, 'k, 'x) rstate" where
  "bind_provider rt inst s =
     (case rs_providers s inst of
        Some b \<Rightarrow> (Inr b, s)
      | None \<Rightarrow>
          (case with_env (rt_factory rt (rs_settings s) inst) s of
             (Inl e, s1) \<Rightarrow> (Inl e, s1)
           | (Inr None, s1) \<Rightarrow>
               (Inl (new_configuration_error (''provider instance '' @ inst @ '' is not configured'') None), s1)
           | (Inr (Some built), s1) \<Rightarrow>
               (case bind_resilient rt built inst s1 of
                  (b, s2) \<Rightarrow> (Inr b, s2\<lparr>rs_providers := (rs_providers s2)(inst \<mapsto> b)\<rparr>))))"

definition err_refresh_unavailable :: go_err where
  "err_refresh_unavailable = Sentinel ''runtime: this instance has no credential refresh''"

definition instance_refresh ::
    "('s, 'p, 'k, 'v, 'x) runtime \<Rightarrow> 's \<Rightarrow> string \<Rightarrow> ('s, 'p, 'k, 'x) rworld refresh_func" where
  "instance_refresh rt settings inst =
     (case (case rt_refresh rt of None \<Rightarrow> None | Some f \<Rightarrow> f settings inst) of
        Some rf \<Rightarrow> rf
      | None \<Rightarrow> (\<lambda>r w. (Inl err_refresh_unavailable, w)))"

definition bind_coordinator ::
    "('s, 'p, 'k, 'v, 'x) runtime \<Rightarrow> string \<Rightarrow> ('s, 'p, 'k, 'x) rstate \<Rightarrow>
     (go_err + 'k) \<times> ('s, 'p, 'k, 'x) rstate" where
  "bind_coordinator rt inst s =
     (case rs_coordinators s inst of
        Some k \<Rightarrow> (Inr k, s)
      | None \<Rightarrow>
          (case with_env (kd_new (ht_coordinator (rt_host rt)) (instance_refresh rt (rs_settings s) inst)) s of
             (Inl e, s1) \<Rightarrow> (Inl e, s1)
           | (Inr k, s1) \<Rightarrow> (Inr k, s1\<lparr>rs_coordinators := (rs_coordinators s1)(inst \<mapsto> k)\<rparr>)))"

record ('p, 'k) binding =
  bg_provider :: "'p bound"
  bg_coordinator :: "'k option"

text \<open>\<^verbatim>\<open>bind\<close> under the lock, for the settings it took before; and with taking them.\<close>

definition bind_locked ::
    "('s, 'p, 'k, 'v, 'x) runtime \<Rightarrow> string \<Rightarrow> 's \<Rightarrow> u64 \<Rightarrow> ('s, 'p, 'k, 'x) rstate \<Rightarrow>
     (go_err + ('p, 'k) binding) \<times> ('s, 'p, 'k, 'x) rstate" where
  "bind_locked rt inst settings generation s =
     (case bind_provider rt inst (adopt_settings rt settings generation s) of
        (Inl e, s1) \<Rightarrow> (Inl e, s1)
      | (Inr b, s1) \<Rightarrow>
          (case rt_credentials rt of
             None \<Rightarrow> (Inr \<lparr>bg_provider = b, bg_coordinator = None\<rparr>, s1)
           | Some _ \<Rightarrow>
               (case bind_coordinator rt inst s1 of
                  (Inl e, s2) \<Rightarrow> (Inl e, s2)
                | (Inr k, s2) \<Rightarrow> (Inr \<lparr>bg_provider = b, bg_coordinator = Some k\<rparr>, s2))))"

definition runtime_bind ::
    "('s, 'p, 'k, 'v, 'x) runtime \<Rightarrow> string \<Rightarrow> ('s, 'p, 'k, 'x) rworld \<Rightarrow>
     (go_err + ('p, 'k) binding) \<times> ('s, 'p, 'k, 'x) rworld" where
  "runtime_bind rt inst w =
     (case on_env (rt_settings rt) w of
        ((settings, generation), w1) \<Rightarrow> on_state (bind_locked rt inst settings generation) w1)"

subsection \<open>Credentials\<close>

text \<open>The credential one operation uses; the zero one means that the request is sent without any.\<close>

record op_credential =
  oc_key :: string
  oc_record :: token_record
  oc_value :: "credential option"

definition zero_token_record :: token_record where
  "zero_token_record =
     \<lparr>tr_access_token = [], tr_refresh_token = [], tr_token_type = [], tr_account_id = [], tr_metadata = [],
      tr_revision = []\<rparr>"

definition no_op_credential :: op_credential where
  "no_op_credential = \<lparr>oc_key = [], oc_record = zero_token_record, oc_value = None\<rparr>"

definition op_credential_of :: "string \<Rightarrow> token_record \<Rightarrow> op_credential" where
  "op_credential_of key r = \<lparr>oc_key = key, oc_record = r, oc_value = Some (credential_from_record key r)\<rparr>"

definition credential_unavailable :: "go_err \<Rightarrow> go_err" where
  "credential_unavailable e =
     (if err_is e CtxCanceled \<or> err_is e CtxDeadline then e
      else ProviderErr ''the credential for this provider is unavailable'' ClassAuth
             (no_classification\<lparr>cl_failover := True\<rparr>) (Some e))"

definition runtime_credential ::
    "('s, 'p, 'k, 'v, 'x) runtime \<Rightarrow> caller \<Rightarrow> string \<Rightarrow> ('p, 'k) binding \<Rightarrow> ('s, 'p, 'k, 'x) rworld \<Rightarrow>
     (go_err + op_credential) \<times> ('s, 'p, 'k, 'x) rworld" where
  "runtime_credential rt who inst b w =
     (case rt_credentials rt of
        None \<Rightarrow> (Inr no_op_credential, w)
      | Some cs \<Rightarrow>
          (case cs_resolve cs who inst w of
             (Inl e, w1) \<Rightarrow>
               (if err_is e err_no_credential then (Inr no_op_credential, w1)
                else (Inl (credential_unavailable e), w1))
           | (Inr key, w1) \<Rightarrow>
               (case kd_token (ht_coordinator (rt_host rt)) (the (bg_coordinator b)) key w1 of
                  (Inl e, w2) \<Rightarrow> (Inl (credential_unavailable e), w2)
                | (Inr r, w2) \<Rightarrow> (Inr (op_credential_of key r), w2))))"

definition rejected_credential :: "go_err option \<Rightarrow> op_credential \<Rightarrow> bool" where
  "rejected_credential err c =
     (case err of
        None \<Rightarrow> False
      | Some e \<Rightarrow>
          oc_key c \<noteq> [] \<and> tr_token_type (oc_record c) \<noteq> token_type_api_key \<and> cl_status (classify_error e) = 401)"

definition refreshed ::
    "('s, 'p, 'k, 'v, 'x) runtime \<Rightarrow> ('p, 'k) binding \<Rightarrow> op_credential \<Rightarrow> ('s, 'p, 'k, 'x) rworld \<Rightarrow>
     op_credential option \<times> ('s, 'p, 'k, 'x) rworld" where
  "refreshed rt b c w =
     (case kd_rejected (ht_coordinator (rt_host rt)) (the (bg_coordinator b)) (oc_key c) (oc_record c) w of
        (Inl e, w1) \<Rightarrow> (None, w1)
      | (Inr r, w1) \<Rightarrow> (Some (op_credential_of (oc_key c) r), w1))"

text \<open>
  What \<^verbatim>\<open>Invoke\<close>, \<^verbatim>\<open>Stream\<close>, \<^verbatim>\<open>ListModels\<close> and \<^verbatim>\<open>Transparent\<close> share: send with the credential, and once more
  with the refreshed one when the upstream rejected it. The credential used last is returned too.
\<close>

definition send_refreshing ::
    "('w \<Rightarrow> op_credential option \<times> 'w) \<Rightarrow> (op_credential \<Rightarrow> 'w \<Rightarrow> ('a \<times> go_err option) \<times> 'w) \<Rightarrow> op_credential \<Rightarrow>
     'w \<Rightarrow> (('a \<times> go_err option) \<times> op_credential) \<times> 'w" where
  "send_refreshing refresh_it send c w =
     (case send c w of
        ((v, err), w1) \<Rightarrow>
          (if rejected_credential err c
           then (case refresh_it w1 of
                   (None, w2) \<Rightarrow> (((v, err), c), w2)
                 | (Some c', w2) \<Rightarrow> (case send c' w2 of (answer, w3) \<Rightarrow> ((answer, c'), w3)))
           else (((v, err), c), w1)))"

subsection \<open>Observing\<close>

text \<open>
  The outcome of an operation, and whether it says anything about the provider's health. There is no
  \<^verbatim>\<open>Retry-After\<close> text to parse here.
\<close>

definition observed_class :: "go_err \<Rightarrow> error_class" where
  "observed_class e =
     (case find_first (\<lambda>x. case x of ProviderErr _ cls _ _ \<Rightarrow> Some cls | _ \<Rightarrow> None) (err_chain e) of
        None \<Rightarrow> ClassNone
      | Some cls \<Rightarrow> (if cls \<noteq> NoClass then cls else ClassNone))"

definition failure_of :: "int \<Rightarrow> gtime \<Rightarrow> bool \<Rightarrow> health_evidence" where
  "failure_of status now failed =
     classify_provider_failure (\<lambda>_. None)
       \<lparr>pf_status = status, pf_retry_after = [], pf_observed_at = now, pf_failed = failed\<rparr>"

definition operation_outcome :: "gtime \<Rightarrow> go_err option \<Rightarrow> health_evidence \<times> bool" where
  "operation_outcome now err =
     (case err of
        None \<Rightarrow>
          (\<lparr>he_status = HealthHealthy, he_class = ClassNone, he_permanent = False, he_retryable = False,
            he_retry_after = 0, he_observed_at = now\<rparr>, True)
      | Some e \<Rightarrow>
          (let c = classify_error e;
               (outcome, affects) =
                 (if cl_status c \<noteq> 0 then (failure_of (cl_status c) now False, True)
                  else if cl_circuit c then (failure_of 0 now True, True)
                  else (\<lparr>he_status = HealthUnknown, he_class = observed_class e, he_permanent = False,
                         he_retryable = False, he_retry_after = 0, he_observed_at = now\<rparr>, False))
           in (if he_retry_after outcome < cl_retry_after c
               then outcome\<lparr>he_retry_after := cl_retry_after c\<rparr> else outcome, affects)))"

definition runtime_observe ::
    "('s, 'p, 'k, 'v, 'x) runtime \<Rightarrow> 'x context_err \<Rightarrow> caller \<Rightarrow> string \<Rightarrow> op_credential \<Rightarrow> evidence_operation \<Rightarrow>
     model_surface \<Rightarrow> string \<Rightarrow> go_err option \<Rightarrow> ('s, 'p, 'k, 'x) rworld \<Rightarrow> ('s, 'p, 'k, 'x) rworld" where
  "runtime_observe rt ctx who inst c operation surface model err w =
     (case on_env ctx w of
        (Some _, w1) \<Rightarrow> w1
      | (None, w1) \<Rightarrow>
          (case on_env (rt_now rt) w1 of
             (now, w2) \<Rightarrow>
               (case operation_outcome now err of
                  (outcome, affects) \<Rightarrow>
                    (let s = cw_rest w2;
                         s1 = (if affects then s\<lparr>rs_health := (rs_health s)(inst \<mapsto> outcome)\<rparr> else s)
                     in w2\<lparr>cw_rest := s1\<lparr>rs_env := rt_evidence rt
                          \<lparr>ae_caller = who, ae_instance = inst, ae_credential_key = oc_key c,
                           ae_credential_revision = tr_revision (oc_record c),
                           ae_account = tr_account_id (oc_record c), ae_operation = operation,
                           ae_surface = surface, ae_model = model, ae_outcome = outcome\<rparr> (rs_env s1)\<rparr>\<rparr>))))"

text \<open>\<^verbatim>\<open>Health\<close>.\<close>

definition runtime_health :: "string \<Rightarrow> ('s, 'p, 'k, 'x) rstate \<Rightarrow> health_evidence" where
  "runtime_health inst s =
     (case rs_health s inst of
        Some evidence \<Rightarrow> evidence
      | None \<Rightarrow>
          \<lparr>he_status = HealthUnknown, he_class = ClassNone, he_permanent = False, he_retryable = False,
           he_retry_after = 0, he_observed_at = 0\<rparr>)"

subsection \<open>The bound provider\<close>

definition circuits_ops :: "('s, 'p, 'k, 'v, 'x) runtime \<Rightarrow> ('s, 'p, 'k, 'x) rworld health_ops" where
  "circuits_ops rt =
     \<lparr>hl_available = (\<lambda>key. on_state (\<lambda>s. case with_env (rt_now rt) s of
          (now, s1) \<Rightarrow>
            (tracker_available (circuits_config (rs_circuits s1)) now key (circuits_state (rs_circuits s1)), s1))),
      hl_record = (\<lambda>key err w. snd (on_state (\<lambda>s. case with_env (rt_now rt) s of
          (now, s1) \<Rightarrow>
            ((), s1\<lparr>rs_circuits := (rs_circuits s1)\<lparr>cc_tracker :=
               Some (tracker_record (circuits_config (rs_circuits s1)) now key err
                 (circuits_state (rs_circuits s1)))\<rparr>\<rparr>)) w))\<rparr>"

definition guard_policy ::
    "('s, 'p, 'k, 'v, 'x) runtime \<Rightarrow> guard_settings \<Rightarrow> ('s, 'p, 'k, 'x) rworld policy" where
  "guard_policy rt g =
     \<lparr>pl_retry = gs_retry g, pl_health = (if gs_circuit g then Some (circuits_ops rt) else None),
      pl_classify = gs_classify g, pl_repeatable = gs_repeatable g, pl_now = on_env (rt_now rt),
      pl_sleep = ht_sleep (rt_host rt)\<rparr>"

definition guard_answer :: "(go_err + 'v option) \<times> 'w \<Rightarrow> ('v option \<times> go_err option) \<times> 'w" where
  "guard_answer r = (case r of (Inl e, w) \<Rightarrow> ((None, Some e), w) | (Inr v, w) \<Rightarrow> ((v, None), w))"

definition bound_invoke ::
    "('s, 'p, 'k, 'v, 'x) runtime \<Rightarrow> 'x context_err \<Rightarrow> 'p bound \<Rightarrow> request \<Rightarrow> ('s, 'p, 'k, 'x) rworld \<Rightarrow>
     ('v option \<times> go_err option) \<times> ('s, 'p, 'k, 'x) rworld" where
  "bound_invoke rt ctx b rq w =
     (let invoke = po_invoke (ht_provider (rt_host rt)) (bd_provider b) in
      case bd_guard b of
        None \<Rightarrow> invoke rq w
      | Some g \<Rightarrow>
          guard_answer (resilient_invoke (ht_decode (rt_host rt)) (guard_policy rt g) (on_env ctx) (gs_key g)
            invoke rq w))"

definition bound_stream ::
    "('s, 'p, 'k, 'v, 'x) runtime \<Rightarrow> 'x context_err \<Rightarrow> 'p bound \<Rightarrow> request \<Rightarrow> ('s, 'p, 'k, 'x) rworld \<Rightarrow>
     (('s, 'p, 'k, 'x) rworld stream option \<times> go_err option) \<times> ('s, 'p, 'k, 'x) rworld" where
  "bound_stream rt ctx b rq w =
     (let open_it = po_stream (ht_provider (rt_host rt)) (bd_provider b) in
      case bd_guard b of
        None \<Rightarrow> open_it rq w
      | Some g \<Rightarrow>
          guard_answer (resilient_stream (ht_decode (rt_host rt)) (guard_policy rt g) (on_env ctx) (gs_key g)
            open_it rq w))"

definition bound_layers :: "('s, 'p, 'k, 'v, 'x) runtime \<Rightarrow> 'p bound \<Rightarrow> unit layer list" where
  "bound_layers rt b =
     (let layers = po_layers (ht_provider (rt_host rt)) (bd_provider b)
      in if bd_guard b = None then layers else resilient_layer () layers)"

subsection \<open>Operations\<close>

definition invalid_request :: "('s, 'p, 'k, 'v, 'x) runtime \<Rightarrow> request_error \<Rightarrow> go_err" where
  "invalid_request rt bad =
     (let text = (case bad of
            UnknownRequestSurface s \<Rightarrow> ''request has unknown surface '' @ ht_quote (rt_host rt) s
          | RequestNoModel \<Rightarrow> ''request has no model''
          | RequestNoContentType \<Rightarrow> ''request body has no content type'')
      in ProviderErr text ClassInvalidRequest no_classification (Some (Sentinel text)))"

text \<open>
  The course \<^verbatim>\<open>Invoke\<close>, \<^verbatim>\<open>Stream\<close> and \<^verbatim>\<open>Transparent\<close> share: \<open>check\<close> is what stands between the credential and
  the first send, \<open>send\<close> the provider's operation.
\<close>

definition runtime_perform ::
    "('s, 'p, 'k, 'v, 'x) runtime \<Rightarrow> 'x context_err \<Rightarrow> caller \<Rightarrow> string \<Rightarrow> evidence_operation \<Rightarrow>
     (('p, 'k) binding \<Rightarrow> op_credential \<Rightarrow> ('s, 'p, 'k, 'x) rworld \<Rightarrow> go_err option \<times> ('s, 'p, 'k, 'x) rworld) \<Rightarrow>
     ('p bound \<Rightarrow> request \<Rightarrow> ('s, 'p, 'k, 'x) rworld \<Rightarrow> ('a option \<times> go_err option) \<times> ('s, 'p, 'k, 'x) rworld) \<Rightarrow>
     request \<Rightarrow> ('s, 'p, 'k, 'x) rworld \<Rightarrow> ('a option \<times> go_err option) \<times> ('s, 'p, 'k, 'x) rworld" where
  "runtime_perform rt ctx who inst operation check send rq w =
     (case request_validate rq of
        Some bad \<Rightarrow> ((None, Some (invalid_request rt bad)), w)
      | None \<Rightarrow>
          (case runtime_bind rt inst w of
             (Inl e, w1) \<Rightarrow> ((None, Some e), w1)
           | (Inr b, w1) \<Rightarrow>
               (case runtime_credential rt who inst b w1 of
                  (Inl e, w2) \<Rightarrow>
                    ((None, Some e), runtime_observe rt ctx who inst no_op_credential operation (rq_surface rq)
                                       (rq_model rq) (Some e) w2)
                | (Inr c, w2) \<Rightarrow>
                    (case check b c w2 of
                       (Some e, w3) \<Rightarrow> ((None, Some e), w3)
                     | (None, w3) \<Rightarrow>
                         (case send_refreshing (refreshed rt b c)
                                 (\<lambda>c. send (bg_provider b) (rq\<lparr>rq_credential := oc_value c\<rparr>)) c w3 of
                            ((answer, c'), w4) \<Rightarrow>
                              (answer, runtime_observe rt ctx who inst c' operation (rq_surface rq) (rq_model rq)
                                         (snd answer) w4))))))"

definition runtime_invoke ::
    "('s, 'p, 'k, 'v, 'x) runtime \<Rightarrow> 'x context_err \<Rightarrow> caller \<Rightarrow> string \<Rightarrow> request \<Rightarrow> ('s, 'p, 'k, 'x) rworld \<Rightarrow>
     ('v option \<times> go_err option) \<times> ('s, 'p, 'k, 'x) rworld" where
  "runtime_invoke rt ctx who inst =
     runtime_perform rt ctx who inst EvidenceInvoke (\<lambda>b c w. (None, w)) (bound_invoke rt ctx)"

definition runtime_stream ::
    "('s, 'p, 'k, 'v, 'x) runtime \<Rightarrow> 'x context_err \<Rightarrow> caller \<Rightarrow> string \<Rightarrow> request \<Rightarrow> ('s, 'p, 'k, 'x) rworld \<Rightarrow>
     (('s, 'p, 'k, 'x) rworld stream option \<times> go_err option) \<times> ('s, 'p, 'k, 'x) rworld" where
  "runtime_stream rt ctx who inst =
     runtime_perform rt ctx who inst EvidenceStream (\<lambda>b c w. (None, w)) (bound_stream rt ctx)"

subsection \<open>Catalogs\<close>

definition runtime_discover ::
    "('s, 'p, 'k, 'v, 'x) runtime \<Rightarrow> 'x context_err \<Rightarrow> caller \<Rightarrow> string \<Rightarrow> ('p, 'k) binding \<Rightarrow> op_credential \<Rightarrow>
     ('s, 'p, 'k, 'x) rworld \<Rightarrow> (go_err + model_info list) \<times> ('s, 'p, 'k, 'x) rworld" where
  "runtime_discover rt ctx who inst b c w =
     (case send_refreshing (refreshed rt b c)
             (\<lambda>c. po_models (ht_provider (rt_host rt)) (bd_provider (bg_provider b)) (oc_value c)) c w of
        (((models, err), c'), w1) \<Rightarrow>
          ((case err of Some e \<Rightarrow> Inl e | None \<Rightarrow> Inr models),
           runtime_observe rt ctx who inst c' EvidenceListModels no_surface [] err w1))"

definition runtime_read_catalog ::
    "('s, 'p, 'k, 'v, 'x) runtime \<Rightarrow> 'x context_err \<Rightarrow> caller \<Rightarrow> string \<Rightarrow> ('s, 'p, 'k, 'x) rworld \<Rightarrow>
     catalog_read \<times> ('s, 'p, 'k, 'x) rworld" where
  "runtime_read_catalog rt ctx who inst w =
     (case runtime_bind rt inst w of
        (Inl e, w1) \<Rightarrow> (failed_read e, w1)
      | (Inr b, w1) \<Rightarrow>
          (case runtime_credential rt who inst b w1 of
             (Inl e, w2) \<Rightarrow>
               (failed_read e,
                runtime_observe rt ctx who inst no_op_credential EvidenceListModels no_surface [] (Some e) w2)
           | (Inr c, w2) \<Rightarrow>
               read (rt_catalogs rt ctx)
                 \<lparr>qr_key = \<lparr>ck_instance = inst, ck_credential = oc_key c\<rparr>,
                  qr_discover = runtime_discover rt ctx who inst b c,
                  qr_not_before = rs_changed_at (cw_rest w2), qr_rebase = None\<rparr> w2))"

definition runtime_list_models ::
    "('s, 'p, 'k, 'v, 'x) runtime \<Rightarrow> 'x context_err \<Rightarrow> caller \<Rightarrow> string \<Rightarrow> ('s, 'p, 'k, 'x) rworld \<Rightarrow>
     (catalog_record \<times> go_err option) \<times> ('s, 'p, 'k, 'x) rworld" where
  "runtime_list_models rt ctx who inst w =
     (case runtime_read_catalog rt ctx who inst w of (rd, w1) \<Rightarrow> ((rd_record rd, rd_err rd), w1))"

definition credential_key ::
    "('s, 'p, 'k, 'v, 'x) runtime \<Rightarrow> caller \<Rightarrow> string \<Rightarrow> ('s, 'p, 'k, 'x) rworld \<Rightarrow>
     (go_err + string) \<times> ('s, 'p, 'k, 'x) rworld" where
  "credential_key rt who inst w =
     (case rt_credentials rt of
        None \<Rightarrow> (Inr [], w)
      | Some cs \<Rightarrow>
          (case cs_resolve cs who inst w of
             (Inl e, w1) \<Rightarrow>
               (if err_is e err_no_credential then (Inr [], w1) else (Inl (credential_unavailable e), w1))
           | (Inr key, w1) \<Rightarrow> (Inr key, w1)))"

definition stored_credential ::
    "('s, 'p, 'k, 'v, 'x) runtime \<Rightarrow> caller \<Rightarrow> string \<Rightarrow> ('s, 'p, 'k, 'x) rworld \<Rightarrow>
     (go_err + string \<times> credential option) \<times> ('s, 'p, 'k, 'x) rworld" where
  "stored_credential rt who inst w =
     (case credential_key rt who inst w of
        (Inl e, w1) \<Rightarrow> (Inl e, w1)
      | (Inr key, w1) \<Rightarrow>
          (if key = [] then (Inr (key, None), w1)
           else
             (case rt_credentials rt of
                None \<Rightarrow> (Inr (key, None), w1)
              | Some cs \<Rightarrow>
                  (case cs_load cs key w1 of
                     (Inl e, w2) \<Rightarrow> (Inl (credential_unavailable e), w2)
                   | (Inr r, w2) \<Rightarrow> (Inr (key, Some (credential_from_record key r)), w2)))))"

definition runtime_cached_catalog ::
    "('s, 'p, 'k, 'v, 'x) runtime \<Rightarrow> 'x context_err \<Rightarrow> caller \<Rightarrow> string \<Rightarrow> ('s, 'p, 'k, 'x) rworld \<Rightarrow>
     catalog_read \<times> ('s, 'p, 'k, 'x) rworld" where
  "runtime_cached_catalog rt ctx who inst w =
     (case runtime_bind rt inst w of
        (Inl e, w1) \<Rightarrow> (failed_read e, w1)
      | (Inr _, w1) \<Rightarrow>
          (case credential_key rt who inst w1 of
             (Inl e, w2) \<Rightarrow> (failed_read e, w2)
           | (Inr key, w2) \<Rightarrow> cached (rt_catalogs rt ctx) \<lparr>ck_instance = inst, ck_credential = key\<rparr> w2))"

definition runtime_cached_model ::
    "('s, 'p, 'k, 'v, 'x) runtime \<Rightarrow> 'x context_err \<Rightarrow> string \<Rightarrow> string \<Rightarrow> string \<Rightarrow> ('s, 'p, 'k, 'x) rworld \<Rightarrow>
     model_info option \<times> ('s, 'p, 'k, 'x) rworld" where
  "runtime_cached_model rt ctx inst key model =
     cached_lookup (rt_catalogs rt ctx) \<lparr>ck_instance = inst, ck_credential = key\<rparr> model"

subsection \<open>Transparent requests\<close>

definition request_streams :: "('s, 'p, 'k, 'v, 'x) runtime \<Rightarrow> request \<Rightarrow> bool" where
  "request_streams rt rq \<longleftrightarrow>
     ht_media_type (rt_host rt) (rq_content_type rq) = Some ''application/json'' \<and>
     ht_stream_field (rt_host rt) (rq_body rq) = Some True"

definition row_evidence :: "catalog_read \<Rightarrow> model_info \<Rightarrow> transport_evidence" where
  "row_evidence rd row =
     \<lparr>te_row = row, te_refreshed_at = ce_observed_at (cr_evidence (rd_record rd)), te_fresh_for = 0\<rparr>"

definition transparent_plan ::
    "('s, 'p, 'k, 'v, 'x) runtime \<Rightarrow> gtime \<Rightarrow> catalog_read \<Rightarrow> model_info \<Rightarrow> transport_interface list \<Rightarrow> request \<Rightarrow>
     transport_plan" where
  "transparent_plan rt now rd row interfaces rq =
     plan_transport (ht_material (rt_host rt))
       \<lparr>pq_operation = OpChat, pq_surface = rq_surface rq, pq_evaluated_at = now, pq_exact_target = True,
        pq_capabilities = evidence_capabilities (ht_overflow (rt_host rt)) (row_evidence rd row),
        pq_interfaces = interfaces, pq_requirement = ReqTransparent, pq_translation_evaluated = False,
        pq_translation = \<lparr>rp_losses = []\<rparr>\<rparr>"

text \<open>
  \<^verbatim>\<open>transparent\<close>: the refusal, if there is one. A plan that is not native has a reason, since a
  transparent plan is never adapted.
\<close>

definition transparent_refusal ::
    "('s, 'p, 'k, 'v, 'x) runtime \<Rightarrow> 'x context_err \<Rightarrow> string \<Rightarrow> request \<Rightarrow> ('p, 'k) binding \<Rightarrow> op_credential \<Rightarrow>
     ('s, 'p, 'k, 'x) rworld \<Rightarrow> go_err option \<times> ('s, 'p, 'k, 'x) rworld" where
  "transparent_refusal rt ctx inst rq b c w =
     (case cached (rt_catalogs rt ctx) \<lparr>ck_instance = inst, ck_credential = oc_key c\<rparr> w of
        (rd, w1) \<Rightarrow>
          (case rd_err rd of
             Some e \<Rightarrow> (Some e, w1)
           | None \<Rightarrow>
               (case find_row (rd_record rd) (rq_model rq) of
                  None \<Rightarrow> (Some (TransportRejectErr RejectNotCataloged (rq_surface rq) (rq_model rq) False), w1)
                | Some row \<Rightarrow>
                    (let interfaces = transport_interfaces (bound_layers rt (bg_provider b)) (oc_value c) (rq_model rq)
                           (mi_supported_apis row);
                         native = (\<lparr>ti_surface = rq_surface rq, ti_native = SupportSupported\<rparr> \<in> set interfaces)
                     in case on_env (rt_now rt) w1 of
                          (now, w2) \<Rightarrow>
                            (let plan = transparent_plan rt now rd row interfaces rq in
                             if tp_disposition plan \<noteq> TransportNative
                             then (Some (TransportRejectErr (the (tp_reason plan)) (rq_surface rq) (rq_model rq) native), w2)
                             else if request_streams rt rq
                             then (Some (TransportRejectErr RejectStreaming (rq_surface rq) (rq_model rq) native), w2)
                             else (None, w2))))))"

definition runtime_transparent ::
    "('s, 'p, 'k, 'v, 'x) runtime \<Rightarrow> 'x context_err \<Rightarrow> caller \<Rightarrow> string \<Rightarrow> request \<Rightarrow> ('s, 'p, 'k, 'x) rworld \<Rightarrow>
     ('v option \<times> go_err option) \<times> ('s, 'p, 'k, 'x) rworld" where
  "runtime_transparent rt ctx who inst rq =
     runtime_perform rt ctx who inst EvidenceInvoke (transparent_refusal rt ctx inst rq) (bound_invoke rt ctx) rq"

definition runtime_transport_mode ::
    "('s, 'p, 'k, 'v, 'x) runtime \<Rightarrow> 'x context_err \<Rightarrow> caller \<Rightarrow> string \<Rightarrow> string \<Rightarrow> model_surface \<Rightarrow>
     ('s, 'p, 'k, 'x) rworld \<Rightarrow> transport_mode \<times> ('s, 'p, 'k, 'x) rworld" where
  "runtime_transport_mode rt ctx who inst model surface w =
     (case runtime_bind rt inst w of
        (Inl _, w1) \<Rightarrow> (ModeTranslated, w1)
      | (Inr b, w1) \<Rightarrow>
          (case stored_credential rt who inst w1 of
             (Inl _, w2) \<Rightarrow>
               (case on_env (rt_now rt) w2 of
                  (now, w3) \<Rightarrow>
                    (response_transport_mode (ht_material (rt_host rt)) (ht_overflow (rt_host rt))
                       (bound_layers rt (bg_provider b)) None model surface None now, w3))
           | (Inr (key, cred), w2) \<Rightarrow>
               (case cached (rt_catalogs rt ctx) \<lparr>ck_instance = inst, ck_credential = key\<rparr> w2 of
                  (rd, w3) \<Rightarrow>
                    (case on_env (rt_now rt) w3 of
                       (now, w4) \<Rightarrow>
                         (response_transport_mode (ht_material (rt_host rt)) (ht_overflow (rt_host rt))
                            (bound_layers rt (bg_provider b)) cred model surface
                            (map_option (row_evidence rd) (find_row (rd_record rd) model)) now, w4)))))"

end
