(* ===== verification/Runtime_Guarantees.thy ===== *)
theory Runtime_Guarantees
  imports Runtime
begin

text \<open>
  What the Runtime guarantees: operations run on the provider and coordinator of the settings they
  took, circuits and health outlive settings changes, a rejected credential is refreshed once, health
  and evidence follow upstream outcomes, a catalog older than a settings change is not served from the
  store, and a transparent request is sent only on trusted evidence. The contract of a settings source
  is the locale \<open>settings_source\<close>, interpreted on the memory settings.
\<close>

subsection \<open>Settings sources\<close>

locale settings_source =
  fixes snapshot :: "'m \<Rightarrow> 's \<times> u64"
    and update :: "'s \<Rightarrow> 'm \<Rightarrow> u64 \<times> 'm"
  assumes update_snapshot: "update s m = (g, m') \<Longrightarrow> snapshot m' = (s, g)"
    and update_generation: "update s m = (g, m') \<Longrightarrow> g = snd (snapshot m) + 1"
begin

definition updates :: "'s list \<Rightarrow> 'm \<Rightarrow> 'm" where
  "updates ss m = fold (\<lambda>s m. snd (update s m)) ss m"

lemma updates_snapshot:
  "snapshot (updates ss m) = (last (fst (snapshot m) # ss), snd (snapshot m) + of_nat (length ss))"
proof (induction ss arbitrary: m)
  case Nil
  then show ?case by (simp add: updates_def)
next
  case (Cons s ss)
  obtain g m' where u: "update s m = (g, m')" by (cases "update s m")
  have "updates (s # ss) m = updates ss m'"
    by (simp add: updates_def u)
  then show ?case
    using Cons [of m'] update_snapshot [OF u] update_generation [OF u] by simp
qed

lemma generations_name_settings:
  assumes "length ss < 2 ^ 64"
  shows "snd (snapshot (updates ss m)) = snd (snapshot m) \<longleftrightarrow> ss = []"
proof -
  have "(of_nat (length ss) :: u64) = 0 \<longleftrightarrow> length ss = 0"
    using assms by (auto simp: word_of_nat_eq_0_iff dest: nat_dvd_not_less)
  then show ?thesis
    by (simp add: updates_snapshot)
qed

end

interpretation memory_settings: settings_source settings_snapshot settings_update
  by unfold_locales (auto simp: settings_update_def settings_snapshot_def Let_def)

subsection \<open>What binding keeps\<close>

lemma with_env_sel [simp]:
  "rs_providers (snd (with_env f s)) = rs_providers s" "rs_coordinators (snd (with_env f s)) = rs_coordinators s"
  "rs_settings (snd (with_env f s)) = rs_settings s" "rs_generation (snd (with_env f s)) = rs_generation s"
  "rs_started (snd (with_env f s)) = rs_started s" "rs_health (snd (with_env f s)) = rs_health s"
  "rs_circuits (snd (with_env f s)) = rs_circuits s" "rs_changed_at (snd (with_env f s)) = rs_changed_at s"
  "rs_memory (snd (with_env f s)) = rs_memory s" "rs_env (snd (with_env f s)) = snd (f (rs_env s))"
  "fst (with_env f s) = fst (f (rs_env s))"
  by (simp_all add: with_env_def split: prod.split)

lemma with_env_eq: "with_env f s = (fst (f (rs_env s)), s\<lparr>rs_env := snd (f (rs_env s))\<rparr>)"
  by (simp add: with_env_def split: prod.split)

text \<open>The bound form of a built provider under the policy of its settings, and its circuit.\<close>

definition expected_bound :: "('s, 'p, 'k, 'v, 'x) runtime \<Rightarrow> 's \<Rightarrow> string \<Rightarrow> 'p \<Rightarrow> 'p bound" where
  "expected_bound rt settings inst p =
     \<lparr>bd_provider = p,
      bd_guard = (case rt_policy rt of
          None \<Rightarrow> None
        | Some f \<Rightarrow>
            (let q = f settings inst in
             if hp_threshold (rp_circuit q) \<le> 0 \<and> rt_attempts (rp_retry q) < 2 then None
             else Some \<lparr>gs_key = inst, gs_retry = rp_retry q, gs_circuit = (0 < hp_threshold (rp_circuit q)),
                        gs_classify = rp_classify q, gs_repeatable = rp_repeatable q\<rparr>))\<rparr>"

definition has_circuit :: "'p bound \<Rightarrow> bool" where
  "has_circuit b \<longleftrightarrow> (\<exists>g. bd_guard b = Some g \<and> gs_circuit g)"

definition policy_circuit :: "('s, 'p, 'k, 'v, 'x) runtime \<Rightarrow> 's \<Rightarrow> string \<Rightarrow> health_policy" where
  "policy_circuit rt settings inst = rp_circuit ((the (rt_policy rt)) settings inst)"

definition built_for :: "('s, 'p, 'k, 'v, 'x) runtime \<Rightarrow> 's \<Rightarrow> string \<Rightarrow> circuits \<Rightarrow> 'p bound \<Rightarrow> bool" where
  "built_for rt settings inst c b \<longleftrightarrow>
     (\<exists>x p x'. rt_factory rt settings inst x = (Inr (Some p), x') \<and> b = expected_bound rt settings inst p) \<and>
     (has_circuit b \<longrightarrow> cc_tracker c \<noteq> None \<and> cc_policies c inst = Some (policy_circuit rt settings inst))"

definition coordinator_for :: "('s, 'p, 'k, 'v, 'x) runtime \<Rightarrow> 's \<Rightarrow> string \<Rightarrow> 'k \<Rightarrow> bool" where
  "coordinator_for rt settings inst k \<longleftrightarrow>
     (\<exists>x x'. kd_new (ht_coordinator (rt_host rt)) (instance_refresh rt settings inst) x = (Inr k, x'))"

definition runtime_wf :: "('s, 'p, 'k, 'v, 'x) runtime \<Rightarrow> (u64 \<Rightarrow> 's) \<Rightarrow> ('s, 'p, 'k, 'x) rstate \<Rightarrow> bool" where
  "runtime_wf rt cfg s \<longleftrightarrow>
     (rs_started s \<longrightarrow> rs_settings s = cfg (rs_generation s)) \<and>
     (\<not> rs_started s \<longrightarrow> rs_providers s = Map.empty \<and> rs_coordinators s = Map.empty) \<and>
     (\<forall>inst b. rs_providers s inst = Some b \<longrightarrow> built_for rt (rs_settings s) inst (rs_circuits s) b) \<and>
     (\<forall>inst k. rs_coordinators s inst = Some k \<longrightarrow> coordinator_for rt (rs_settings s) inst k)"

text \<open>What a bind leaves: health, and every circuit but the policy of its own instance.\<close>

definition circuits_kept :: "string \<Rightarrow> circuits \<Rightarrow> circuits \<Rightarrow> bool" where
  "circuits_kept inst c c' \<longleftrightarrow>
     circuits_state c' = circuits_state c \<and>
     (cc_tracker c \<noteq> None \<longrightarrow> cc_tracker c' \<noteq> None \<and> (\<forall>i. i \<noteq> inst \<longrightarrow> cc_policies c' i = cc_policies c i))"

lemma circuits_kept_refl [simp]: "circuits_kept inst c c"
  by (simp add: circuits_kept_def)

lemma circuits_kept_guard: "circuits_kept inst c (circuits_guard inst p c)"
  by (auto simp: circuits_kept_def circuits_guard_def circuits_state_def Let_def)

lemma adopt_settings_sel:
  "rs_health (adopt_settings rt settings gen s) = rs_health s"
  "rs_circuits (adopt_settings rt settings gen s) = rs_circuits s"
  "rs_memory (adopt_settings rt settings gen s) = rs_memory s"
  "rs_started (adopt_settings rt settings gen s)"
  "rs_generation (adopt_settings rt settings gen s) = gen"
  by (auto simp: adopt_settings_def with_env_eq Let_def)

lemma adopt_settings_wf:
  "runtime_wf rt cfg s \<Longrightarrow> runtime_wf rt cfg (adopt_settings rt (cfg gen) gen s)"
  by (auto simp: runtime_wf_def adopt_settings_def with_env_eq Let_def)

lemma built_for_kept:
  "built_for rt settings i c b \<Longrightarrow> circuits_kept inst c c' \<Longrightarrow> i \<noteq> inst \<Longrightarrow> built_for rt settings i c' b"
  by (auto simp: built_for_def circuits_kept_def)

lemma bind_resilient_built:
  assumes "bind_resilient rt p inst s = (b, s')"
    and "rt_factory rt (rs_settings s) inst x = (Inr (Some p), x')"
  shows "built_for rt (rs_settings s) inst (rs_circuits s') b \<and> circuits_kept inst (rs_circuits s) (rs_circuits s') \<and>
    s' = s\<lparr>rs_circuits := rs_circuits s'\<rparr>"
proof (cases "rt_policy rt")
  case None
  with assms show ?thesis
    by (auto simp: bind_resilient_def built_for_def expected_bound_def has_circuit_def)
next
  case (Some f)
  let ?q = "f (rs_settings s) inst"
  have g: "cc_tracker (circuits_guard inst (rp_circuit ?q) c) \<noteq> None \<and>
      cc_policies (circuits_guard inst (rp_circuit ?q) c) inst = Some (rp_circuit ?q)" for c
    by (auto simp: circuits_guard_def Let_def)
  show ?thesis
    using assms Some g [of "rs_circuits s"] circuits_kept_guard [of inst "rs_circuits s" "rp_circuit ?q"]
    by (auto simp: bind_resilient_def built_for_def expected_bound_def has_circuit_def policy_circuit_def Let_def
        split: if_splits)
qed

definition bind_keeps :: "string \<Rightarrow> ('s, 'p, 'k, 'x) rstate \<Rightarrow> ('s, 'p, 'k, 'x) rstate \<Rightarrow> bool" where
  "bind_keeps inst s s' \<longleftrightarrow>
     rs_health s' = rs_health s \<and> rs_memory s' = rs_memory s \<and> circuits_kept inst (rs_circuits s) (rs_circuits s')"

definition same_settings :: "('s, 'p, 'k, 'x) rstate \<Rightarrow> ('s, 'p, 'k, 'x) rstate \<Rightarrow> bool" where
  "same_settings s s' \<longleftrightarrow>
     rs_started s' = rs_started s \<and> rs_settings s' = rs_settings s \<and> rs_generation s' = rs_generation s \<and>
     rs_changed_at s' = rs_changed_at s"

lemma bind_provider_ok:
  assumes "bind_provider rt inst s = (r, s')" and "runtime_wf rt cfg s" and "rs_started s"
  shows "runtime_wf rt cfg s' \<and> bind_keeps inst s s' \<and> same_settings s s' \<and>
    (\<forall>b. r = Inr b \<longrightarrow> rs_providers s' inst = Some b)"
proof (cases "rs_providers s inst")
  case (Some b)
  with assms show ?thesis
    by (auto simp: bind_provider_def bind_keeps_def same_settings_def)
next
  case None
  obtain res x where f: "rt_factory rt (rs_settings s) inst (rs_env s) = (res, x)" by fastforce
  consider (failed) "\<forall>p. res \<noteq> Inr (Some p)" | (built) p where "res = Inr (Some p)" by blast
  then show ?thesis
  proof cases
    case failed
    with assms None f show ?thesis
      by (auto simp: bind_provider_def with_env_eq bind_keeps_def same_settings_def runtime_wf_def
          split: sum.splits option.splits)
  next
    case built
    let ?s1 = "s\<lparr>rs_env := x\<rparr>"
    obtain b s2 where b: "bind_resilient rt p inst ?s1 = (b, s2)" by fastforce
    have *: "built_for rt (rs_settings s) inst (rs_circuits s2) b" "circuits_kept inst (rs_circuits s) (rs_circuits s2)"
        "s2 = ?s1\<lparr>rs_circuits := rs_circuits s2\<rparr>"
      using bind_resilient_built [OF b, of "rs_env s" x] f built by simp_all
    have r: "r = Inr b" "s' = s2\<lparr>rs_providers := (rs_providers s2)(inst \<mapsto> b)\<rparr>"
      using assms(1) None f built b by (auto simp: bind_provider_def with_env_eq)
    have s2: "rs_providers s2 = rs_providers s" "rs_coordinators s2 = rs_coordinators s" "rs_settings s2 = rs_settings s"
        "rs_started s2 = rs_started s" "rs_generation s2 = rs_generation s" "rs_health s2 = rs_health s"
        "rs_memory s2 = rs_memory s" "rs_changed_at s2 = rs_changed_at s"
    proof -
      obtain c where "s2 = ?s1\<lparr>rs_circuits := c\<rparr>"
        using *(3) by blast
      then show "rs_providers s2 = rs_providers s" "rs_coordinators s2 = rs_coordinators s" "rs_settings s2 = rs_settings s"
        "rs_started s2 = rs_started s" "rs_generation s2 = rs_generation s" "rs_health s2 = rs_health s"
        "rs_memory s2 = rs_memory s" "rs_changed_at s2 = rs_changed_at s"
        by simp_all
    qed
    have k: "i \<noteq> inst \<Longrightarrow> built_for rt st i (rs_circuits s) b' \<Longrightarrow> built_for rt st i (rs_circuits s2) b'" for st i b'
      by (rule built_for_kept [OF _ *(2)])
    have s': "rs_providers s' = (rs_providers s)(inst \<mapsto> b)" "rs_coordinators s' = rs_coordinators s"
        "rs_settings s' = rs_settings s" "rs_started s' = rs_started s" "rs_generation s' = rs_generation s"
        "rs_health s' = rs_health s" "rs_memory s' = rs_memory s" "rs_changed_at s' = rs_changed_at s"
        "rs_circuits s' = rs_circuits s2"
      by (simp_all add: r(2) s2)
    have "runtime_wf rt cfg s'"
      using assms(2,3) *(1) k unfolding runtime_wf_def s' by auto
    moreover have "bind_keeps inst s s'" "same_settings s s'"
      using *(2) by (simp_all add: bind_keeps_def same_settings_def s')
    ultimately show ?thesis
      by (simp add: r(1) s'(1))
  qed
qed

lemma bind_coordinator_ok:
  assumes "bind_coordinator rt inst s = (r, s')" and "runtime_wf rt cfg s" and "rs_started s"
  shows "runtime_wf rt cfg s' \<and> bind_keeps inst s s' \<and> same_settings s s' \<and> rs_providers s' = rs_providers s \<and>
    rs_circuits s' = rs_circuits s \<and> (\<forall>k. r = Inr k \<longrightarrow> rs_coordinators s' inst = Some k)"
proof (cases "rs_coordinators s inst")
  case (Some k)
  with assms show ?thesis
    by (auto simp: bind_coordinator_def bind_keeps_def same_settings_def)
next
  case None
  obtain res x where f: "kd_new (ht_coordinator (rt_host rt)) (instance_refresh rt (rs_settings s) inst) (rs_env s) = (res, x)"
    by fastforce
  have k: "coordinator_for rt (rs_settings s) inst k" if "res = Inr k" for k
    using f that unfolding coordinator_for_def by blast
  show ?thesis
    using assms None f k
    by (cases res) (auto simp: bind_coordinator_def with_env_eq bind_keeps_def same_settings_def runtime_wf_def
        split: if_splits)
qed

lemma bind_locked_ok:
  assumes "bind_locked rt inst (cfg gen) gen s = (r, s')" and "runtime_wf rt cfg s"
  shows "runtime_wf rt cfg s' \<and> bind_keeps inst s s' \<and> rs_started s' \<and> rs_settings s' = cfg gen \<and> rs_generation s' = gen \<and>
    (\<forall>b. r = Inr b \<longrightarrow> built_for rt (cfg gen) inst (rs_circuits s') (bg_provider b) \<and>
       (case bg_coordinator b of None \<Rightarrow> rt_credentials rt = None
        | Some k \<Rightarrow> rt_credentials rt \<noteq> None \<and> coordinator_for rt (cfg gen) inst k))"
proof -
  let ?s0 = "adopt_settings rt (cfg gen) gen s"
  have wf: "runtime_wf rt cfg ?s0" and st: "rs_started ?s0" "rs_generation ?s0 = gen"
    using assms(2) by (simp_all add: adopt_settings_wf adopt_settings_sel)
  have set0: "rs_settings ?s0 = cfg gen"
    using wf st by (simp add: runtime_wf_def)
  obtain rp s1 where p: "bind_provider rt inst ?s0 = (rp, s1)" by fastforce
  note ok1 = bind_provider_ok [OF p wf st(1)]
  have k0: "bind_keeps inst s ?s0"
    by (simp add: bind_keeps_def adopt_settings_sel)
  obtain rc s2 where c: "bind_coordinator rt inst s1 = (rc, s2)" by fastforce
  have ok2: "runtime_wf rt cfg s2 \<and> bind_keeps inst s1 s2 \<and> same_settings s1 s2 \<and> rs_providers s2 = rs_providers s1 \<and>
    rs_circuits s2 = rs_circuits s1 \<and> (\<forall>k. rc = Inr k \<longrightarrow> rs_coordinators s2 inst = Some k)"
    using bind_coordinator_ok [OF c] ok1 st by (auto simp: same_settings_def)
  have b: "built_for rt (cfg gen) inst (rs_circuits s1) b" if "rp = Inr b" for b
    using ok1 that set0 by (auto simp: runtime_wf_def same_settings_def)
  have d: "coordinator_for rt (cfg gen) inst k" if "rc = Inr k" for k
    using ok1 ok2 that set0 by (auto simp: runtime_wf_def same_settings_def)
  from assms(1) show ?thesis
    using p c ok1 ok2 k0 b d st set0
    by (auto simp: bind_locked_def bind_keeps_def same_settings_def circuits_kept_def split: sum.splits option.splits)
qed

text \<open>
  A state of a Runtime whose settings source had \<open>cfg g\<close> at generation \<open>g\<close>: from a new one, by binds
  with some settings taken before (however late), health updates, outcomes of the tracker, and
  whatever the catalogs and the product do.
\<close>

inductive runtime_reach :: "('s, 'p, 'k, 'v, 'x) runtime \<Rightarrow> (u64 \<Rightarrow> 's) \<Rightarrow> ('s, 'p, 'k, 'x) rstate \<Rightarrow> bool"
  for rt cfg where
  reach_start: "runtime_reach rt cfg (runtime_start zero x)"
| reach_bind: "runtime_reach rt cfg s \<Longrightarrow> bind_locked rt inst (cfg gen) gen s = (r, s') \<Longrightarrow> runtime_reach rt cfg s'"
| reach_health: "runtime_reach rt cfg s \<Longrightarrow> runtime_reach rt cfg (s\<lparr>rs_health := (rs_health s)(inst \<mapsto> h)\<rparr>)"
| reach_record: "runtime_reach rt cfg s \<Longrightarrow> cw_rest w = s \<Longrightarrow>
    runtime_reach rt cfg (cw_rest (hl_record (circuits_ops rt) key err w))"
| reach_outside: "runtime_reach rt cfg s \<Longrightarrow> runtime_reach rt cfg (s\<lparr>rs_memory := m, rs_env := x\<rparr>)"

lemma runtime_reach_wf: "runtime_reach rt cfg s \<Longrightarrow> runtime_wf rt cfg s"
proof (induction rule: runtime_reach.induct)
  case (reach_start zero x)
  then show ?case by (simp add: runtime_wf_def runtime_start_def)
next
  case (reach_bind s inst gen r s')
  then show ?case using bind_locked_ok by blast
next
  case (reach_health s inst h)
  then show ?case by (simp add: runtime_wf_def)
next
  case (reach_record s w key err)
  then show ?case
    by (auto simp: runtime_wf_def circuits_ops_def on_state_def with_env_eq built_for_def split: prod.splits)
next
  case (reach_outside s m x)
  then show ?case by (simp add: runtime_wf_def)
qed

subsection \<open>What an operation sends, refreshes and records\<close>

text \<open>
  A product that keeps a log in its state of what reaches it: each request a provider gets, with its
  credential, each refresh of a rejected credential, and each record of evidence. Nothing else the
  Runtime calls writes to it.
\<close>

datatype runtime_event =
    RvSend "credential option"
  | RvRefresh string
  | RvEvidence account_evidence

abbreviation logged :: "('x \<Rightarrow> 'e list) \<Rightarrow> ('s, 'p, 'k, 'x) rworld \<Rightarrow> 'e list" where
  "logged lg w \<equiv> lg (rs_env (cw_rest w))"

definition silent :: "('x \<Rightarrow> 'e list) \<Rightarrow> ('x \<Rightarrow> 'a \<times> 'x) \<Rightarrow> bool" where
  "silent lg f \<longleftrightarrow> (\<forall>x. lg (snd (f x)) = lg x)"

definition silent_call :: "('x \<Rightarrow> 'e list) \<Rightarrow> (('s, 'p, 'k, 'x) rworld \<Rightarrow> 'a \<times> ('s, 'p, 'k, 'x) rworld) \<Rightarrow> bool" where
  "silent_call lg f \<longleftrightarrow> (\<forall>w. logged lg (snd (f w)) = logged lg w)"

definition logs :: "('s, 'p, 'k, 'v, 'x) runtime \<Rightarrow> 'x context_err \<Rightarrow> ('x \<Rightarrow> runtime_event list) \<Rightarrow> bool" where
  "logs rt ctx lg \<longleftrightarrow>
     silent lg ctx \<and> silent lg (rt_settings rt) \<and> silent lg (rt_now rt) \<and>
     (\<forall>s i. silent lg (rt_factory rt s i)) \<and> (\<forall>f. silent lg (kd_new (ht_coordinator (rt_host rt)) f)) \<and>
     (\<forall>cs who i. rt_credentials rt = Some cs \<longrightarrow> silent_call lg (cs_resolve cs who i)) \<and>
     (\<forall>k key. silent_call lg (kd_token (ht_coordinator (rt_host rt)) k key)) \<and>
     (\<forall>d. silent_call lg (ht_sleep (rt_host rt) d)) \<and>
     (\<forall>k key r w. logged lg (snd (kd_rejected (ht_coordinator (rt_host rt)) k key r w)) = logged lg w @ [RvRefresh key]) \<and>
     (\<forall>p rq w. logged lg (snd (po_invoke (ht_provider (rt_host rt)) p rq w)) = logged lg w @ [RvSend (rq_credential rq)]) \<and>
     (\<forall>ev x. lg (rt_evidence rt ev x) = lg x @ [RvEvidence ev])"

lemma logsD:
  assumes "logs rt ctx lg"
  shows "lg (snd (ctx x)) = lg x" "lg (snd (rt_settings rt x)) = lg x" "lg (snd (rt_now rt x)) = lg x"
    "lg (snd (rt_factory rt s i x)) = lg x" "lg (snd (kd_new (ht_coordinator (rt_host rt)) f x)) = lg x"
    "rt_credentials rt = Some cs \<Longrightarrow> logged lg (snd (cs_resolve cs who i w)) = logged lg w"
    "logged lg (snd (kd_token (ht_coordinator (rt_host rt)) k key w)) = logged lg w"
    "logged lg (snd (ht_sleep (rt_host rt) d w)) = logged lg w"
    "logged lg (snd (kd_rejected (ht_coordinator (rt_host rt)) k key r w)) = logged lg w @ [RvRefresh key]"
    "logged lg (snd (po_invoke (ht_provider (rt_host rt)) p rq w)) = logged lg w @ [RvSend (rq_credential rq)]"
    "lg (rt_evidence rt ev x) = lg x @ [RvEvidence ev]"
  using assms by (auto simp: logs_def silent_def silent_call_def)

lemma on_state_sel [simp]: "cw_rest (snd (on_state f w)) = snd (f (cw_rest w))" "fst (on_state f w) = fst (f (cw_rest w))"
  by (simp_all add: on_state_def split: prod.split)

lemma on_env_logged: "logged lg (snd (on_env f w)) = lg (snd (f (rs_env (cw_rest w))))"
  by (simp add: on_env_def)

lemma on_env_silent: "silent lg f \<Longrightarrow> on_env f w = (r, w') \<Longrightarrow> logged lg w' = logged lg w"
  using on_env_logged [of lg f w] by (simp add: silent_def)

lemma bind_locked_silent:
  assumes "logs rt ctx lg"
  shows "lg (rs_env (snd (bind_locked rt inst settings gen s))) = lg (rs_env s)"
proof -
  have a: "lg (rs_env (adopt_settings rt settings gen s)) = lg (rs_env s)" for s
    using logsD(3) [OF assms] by (simp add: adopt_settings_def with_env_eq Let_def)
  have p: "lg (rs_env (snd (bind_provider rt inst s))) = lg (rs_env s)" for s
    using logsD(4) [OF assms, of "rs_settings s" inst "rs_env s"]
    by (auto simp: bind_provider_def bind_resilient_def with_env_eq Let_def split: option.split sum.split prod.split)
  have c: "lg (rs_env (snd (bind_coordinator rt inst s))) = lg (rs_env s)" for s
    using logsD(5) [OF assms, of "instance_refresh rt (rs_settings s) inst" "rs_env s"]
    by (auto simp: bind_coordinator_def with_env_eq split: option.split sum.split)
  obtain r s1 where b: "bind_provider rt inst (adopt_settings rt settings gen s) = (r, s1)" by fastforce
  obtain r2 s2 where d: "bind_coordinator rt inst s1 = (r2, s2)" by fastforce
  show ?thesis
    using p [of "adopt_settings rt settings gen s"] a [of s] c [of s1] b d
    by (auto simp: bind_locked_def split: option.split sum.split)
qed

lemma runtime_bind_silent:
  assumes "logs rt ctx lg" and "runtime_bind rt inst w = (r, w')"
  shows "logged lg w' = logged lg w"
proof -
  obtain st gen w1 where s: "on_env (rt_settings rt) w = ((st, gen), w1)" by (metis surj_pair)
  have "logged lg w1 = logged lg w"
    using on_env_logged [of lg "rt_settings rt" w] logsD(2) [OF assms(1)] s by simp
  then show ?thesis
    using assms(2) s bind_locked_silent [OF assms(1), of inst st gen "cw_rest w1"]
    by (auto simp: runtime_bind_def on_state_def split: prod.splits)
qed

lemma runtime_credential_silent:
  assumes "logs rt ctx lg" and "runtime_credential rt who inst b w = (r, w')"
  shows "logged lg w' = logged lg w"
  using assms(2) logsD(6,7) [OF assms(1)]
  by (auto simp: runtime_credential_def split: option.splits sum.splits prod.splits if_splits)
    (metis prod.sel(2))+

text \<open>Evidence that attributes an operation to a credential.\<close>

definition attributes ::
    "account_evidence \<Rightarrow> caller \<Rightarrow> string \<Rightarrow> op_credential \<Rightarrow> evidence_operation \<Rightarrow> request \<Rightarrow> go_err option \<Rightarrow> bool" where
  "attributes ev who inst c operation rq err \<longleftrightarrow>
     ae_caller ev = who \<and> ae_instance ev = inst \<and> ae_credential_key ev = oc_key c \<and>
     ae_credential_revision ev = tr_revision (oc_record c) \<and> ae_account ev = tr_account_id (oc_record c) \<and>
     ae_operation ev = operation \<and> ae_surface ev = rq_surface rq \<and> ae_model ev = rq_model rq \<and>
     (\<exists>now. ae_outcome ev = fst (operation_outcome now err))"

lemma runtime_observe_logged:
  assumes "logs rt ctx lg"
  shows "\<exists>tail. logged lg (runtime_observe rt ctx who inst c operation (rq_surface rq) (rq_model rq) err w) = logged lg w @ tail \<and>
    (if fst (ctx (rs_env (cw_rest w))) \<noteq> None then tail = []
     else \<exists>ev. tail = [RvEvidence ev] \<and> attributes ev who inst c operation rq err)"
proof -
  obtain co w1 where c: "on_env ctx w = (co, w1)" by fastforce
  obtain now w2 where n: "on_env (rt_now rt) w1 = (now, w2)" by fastforce
  have l: "logged lg w1 = logged lg w" "logged lg w2 = logged lg w1"
    using on_env_logged [of lg ctx w] on_env_logged [of lg "rt_now rt" w1] c n logsD [OF assms] by simp_all
  have co: "co = fst (ctx (rs_env (cw_rest w)))"
    using c on_state_sel(2) [of "with_env ctx" w] by (simp add: on_env_def)
  show ?thesis
  proof (cases co)
    case (Some e)
    with c co [symmetric] l show ?thesis
      by (intro exI [of _ "[]"]) (simp add: runtime_observe_def)
  next
    case None
    with c n l co [symmetric] show ?thesis
      by (auto simp: runtime_observe_def logsD(11) [OF assms] attributes_def Let_def split: prod.split)
        (metis fst_conv)+
  qed
qed

text \<open>How often a bound provider may send one request.\<close>

definition bound_attempts :: "'p bound \<Rightarrow> int" where
  "bound_attempts b = (case bd_guard b of None \<Rightarrow> 1 | Some g \<Rightarrow> max 1 (rt_attempts (gs_retry g)))"

lemma guard_policy_sel [simp]:
  "pl_retry (guard_policy rt g) = gs_retry g" "pl_sleep (guard_policy rt g) = ht_sleep (rt_host rt)"
  "pl_now (guard_policy rt g) = on_env (rt_now rt)" "pl_repeatable (guard_policy rt g) = gs_repeatable g"
  "pl_health (guard_policy rt g) = (if gs_circuit g then Some (circuits_ops rt) else None)"
  by (simp_all add: guard_policy_def)

lemma policy_record_silent:
  "logs rt ctx lg \<Longrightarrow> logged lg (policy_record (guard_policy rt g) key err w) = logged lg w"
  by (simp add: policy_record_def circuits_ops_def on_state_def with_env_eq logsD(3) split: prod.split)

lemma circuits_available_silent:
  "logs rt ctx lg \<Longrightarrow> logged lg (snd (hl_available (circuits_ops rt) key w)) = logged lg w"
  by (simp add: circuits_ops_def with_env_eq logsD(3))

lemma on_env_now_silent: "logs rt ctx lg \<Longrightarrow> logged lg (snd (on_env (rt_now rt) w)) = logged lg w"
  by (simp add: on_env_logged logsD(3))

lemma on_env_ctx_silent: "logs rt ctx lg \<Longrightarrow> logged lg (snd (on_env ctx w)) = logged lg w"
  by (simp add: on_env_logged logsD(1))

lemma admit_silent:
  assumes "logs rt ctx lg" and "admit (guard_policy rt g) key w = (r, w')"
  shows "logged lg w' = logged lg w"
proof (cases "gs_circuit g")
  case False
  with assms(2) show ?thesis by (simp add: admit_def)
next
  case True
  obtain a u w1 where h: "hl_available (circuits_ops rt) key w = ((a, u), w1)" by (metis surj_pair)
  obtain now w2 where n: "on_env (rt_now rt) w1 = (now, w2)" by fastforce
  have "logged lg w1 = logged lg w" "logged lg w2 = logged lg w1"
    using circuits_available_silent [OF assms(1), of key w] on_env_now_silent [OF assms(1), of w1] h n by simp_all
  with True h n assms(2) show ?thesis
    by (auto simp: admit_def split: if_splits)
qed

lemma retry_wait_silent:
  assumes "logs rt ctx lg" and "retry_wait r (ht_sleep (rt_host rt)) (on_env ctx) n e w = (o', w')"
  shows "logged lg w' = logged lg w"
  using assms(2) logsD(8) [OF assms(1)] on_env_ctx_silent [OF assms(1), of w]
  by (auto simp: retry_wait_def Let_def split: if_splits) (metis prod.sel(2))+

definition sent_between :: "('x \<Rightarrow> runtime_event list) \<Rightarrow> credential option \<Rightarrow> int \<Rightarrow> bool \<Rightarrow> ('s, 'p, 'k, 'x) rworld \<Rightarrow>
    ('s, 'p, 'k, 'x) rworld \<Rightarrow> bool" where
  "sent_between lg cred most some w w' \<longleftrightarrow>
     (\<exists>k. logged lg w' = logged lg w @ replicate k (RvSend cred) \<and> int k \<le> most \<and> (some \<longrightarrow> 0 < k))"

lemma guard_loop_sends:
  fixes call :: "('s, 'p, 'k, 'x) rworld \<Rightarrow> ('v option \<times> go_err option) \<times> ('s, 'p, 'k, 'x) rworld"
  assumes "logs rt ctx lg" and "\<And>w. logged lg (snd (call w)) = logged lg w @ [RvSend cred]"
  shows "sent_between lg cred (max 1 (attempts - n + 1)) True w
    (snd (guard_loop (guard_policy rt g) (on_env ctx) key call None attempts n w))"
proof (induction rule: guard_loop_rule [where p = "guard_policy rt g" and ctx = "on_env ctx" and key = key
      and call = call and discard = None and attempts = attempts and n = n and w = w])
  case (gave_up n w v err w1 c w2)
  then show ?case
    using assms(2) [of w] on_env_ctx_silent [OF assms(1), of w1]
    by (auto simp: sent_between_def discarded_def intro!: exI [of _ "1::nat"])
next
  case (served n w v w1 w2)
  then show ?case
    using assms(2) [of w] on_env_ctx_silent [OF assms(1), of w1]
    by (auto simp: sent_between_def policy_record_silent [OF assms(1)] intro!: exI [of _ "1::nat"])
next
  case (wait_ended n w v e w1 w2 we w4)
  then show ?case
    using assms(2) [of w] on_env_ctx_silent [OF assms(1), of w1] retry_wait_silent [OF assms(1)]
    by (auto simp: sent_between_def discarded_def intro!: exI [of _ "1::nat"])
next
  case (repeat n w v e w1 w2 w4)
  have l: "logged lg w4 = logged lg w @ [RvSend cred]"
    using repeat(1,2,5) assms(2) [of w] on_env_ctx_silent [OF assms(1), of w1] retry_wait_silent [OF assms(1)]
    by (simp add: discarded_def)
  from repeat(6) obtain k where "logged lg (snd (guard_loop (guard_policy rt g) (on_env ctx) key call None attempts (n + 1) w4)) =
      logged lg w4 @ replicate k (RvSend cred)" "int k \<le> max 1 (attempts - (n + 1) + 1)" "0 < k"
    unfolding sent_between_def by blast
  with l repeat(3) show ?case
    unfolding sent_between_def by (intro exI [of _ "Suc k"]) simp
next
  case (failed n w v e w1 w2)
  then show ?case
    using assms(2) [of w] on_env_ctx_silent [OF assms(1), of w1]
    by (auto simp: sent_between_def discarded_def policy_record_silent [OF assms(1)] intro!: exI [of _ "1::nat"])
qed

lemma bound_invoke_sends:
  assumes "logs rt ctx lg" and "bound_invoke rt ctx b rq w = ((v, err), w')"
  shows "sent_between lg (rq_credential rq) (bound_attempts b) (err = None) w w'"
proof (cases "bd_guard b")
  case None
  with assms logsD(10) [OF assms(1), of "bd_provider b" rq w] show ?thesis
    by (auto simp: bound_invoke_def sent_between_def bound_attempts_def intro!: exI [of _ "1::nat"])
next
  case (Some g)
  let ?p = "guard_policy rt g" and ?call = "po_invoke (ht_provider (rt_host rt)) (bd_provider b) rq"
  let ?rep = "policy_repeatable (ht_decode (rt_host rt)) ?p rq"
  obtain co w1 where c: "on_env ctx w = (co, w1)" by fastforce
  obtain ao w2 where a: "admit ?p (gs_key g) w1 = (ao, w2)" by fastforce
  have l: "logged lg w1 = logged lg w" "logged lg w2 = logged lg w1"
    using on_env_ctx_silent [OF assms(1), of w] c admit_silent [OF assms(1) a] by simp_all
  have r: "((v, err), w') = guard_answer (guard ?p (on_env ctx) (gs_key g) ?rep ?call None w)"
    using assms(2) Some by (simp add: bound_invoke_def resilient_invoke_def)
  show ?thesis
  proof (cases "co = None \<and> ao = None")
    case False
    with r c a l Some show ?thesis
      by (auto simp: guard_def guard_answer_def sent_between_def bound_attempts_def split: option.splits intro!: exI [of _ "0::nat"])
  next
    case True
    let ?loop = "guard_loop ?p (on_env ctx) (gs_key g) ?call None (guard_attempts ?p ?rep) 1 w2"
    have s: "sent_between lg (rq_credential rq) (max 1 (guard_attempts ?p ?rep - 1 + 1)) True w2 (snd ?loop)"
      by (rule guard_loop_sends [OF assms(1)]) (rule logsD(10) [OF assms(1)])
    have "w' = snd ?loop"
      using r c a True by (auto simp: guard_def guard_answer_def split: sum.splits prod.splits)
    with s l show ?thesis
      by (auto simp: sent_between_def bound_attempts_def Some guard_attempts_def split: if_splits)
  qed
qed

text \<open>
  What one operation may send with a credential: its tries; and, for an OAuth credential, one refresh
  after them, and the tries with the refreshed credential. \<open>c'\<close> is the credential of the last tries.
\<close>

definition sends :: "'p bound \<Rightarrow> op_credential \<Rightarrow> runtime_event list \<Rightarrow> bool" where
  "sends b c es \<longleftrightarrow> (\<exists>k. es = replicate k (RvSend (oc_value c)) \<and> int k \<le> bound_attempts b)"

definition refreshable :: "op_credential \<Rightarrow> bool" where
  "refreshable c \<longleftrightarrow> oc_key c \<noteq> [] \<and> tr_token_type (oc_record c) \<noteq> token_type_api_key"

definition one_refresh :: "'p bound \<Rightarrow> op_credential \<Rightarrow> op_credential \<Rightarrow> runtime_event list \<Rightarrow> bool" where
  "one_refresh b c c' es \<longleftrightarrow>
     (c' = c \<and> sends b c es) \<or>
     (refreshable c \<and>
      (\<exists>s1 s2. es = s1 @ RvRefresh (oc_key c) # s2 \<and> sends b c s1 \<and>
         (c' = c \<and> s2 = [] \<or> (\<exists>r. c' = op_credential_of (oc_key c) r) \<and> sends b c' s2)))"

lemma sent_between_sends:
  "sent_between lg (oc_value c) (bound_attempts b) some w w' \<Longrightarrow>
     \<exists>es. logged lg w' = logged lg w @ es \<and> sends b c es \<and> (some \<longrightarrow> es \<noteq> [] \<and> last es = RvSend (oc_value c))"
  by (auto simp: sent_between_def sends_def)

lemma send_refreshing_sends:
  assumes "logs rt ctx lg"
    and "send_refreshing (refreshed rt bg c)
      (\<lambda>c. bound_invoke rt ctx (bg_provider bg) (rq\<lparr>rq_credential := oc_value c\<rparr>)) c w = (((v, err), c'), w')"
  shows "\<exists>es. logged lg w' = logged lg w @ es \<and> one_refresh (bg_provider bg) c c' es \<and>
    (err = None \<longrightarrow> es \<noteq> [] \<and> last es = RvSend (oc_value c'))"
proof -
  let ?send = "\<lambda>c. bound_invoke rt ctx (bg_provider bg) (rq\<lparr>rq_credential := oc_value c\<rparr>)"
  have sent: "\<exists>es. logged lg w2 = logged lg w1 @ es \<and> sends (bg_provider bg) c es \<and>
      (err = None \<longrightarrow> es \<noteq> [] \<and> last es = RvSend (oc_value c))" if "?send c w1 = ((v, err), w2)" for c w1 v err w2
    using bound_invoke_sends [OF assms(1) that] by (intro sent_between_sends) simp
  obtain v1 e1 w1 where s: "?send c w = ((v1, e1), w1)" by (metis surj_pair)
  obtain es1 where es1: "logged lg w1 = logged lg w @ es1" "sends (bg_provider bg) c es1"
      "e1 = None \<longrightarrow> es1 \<noteq> [] \<and> last es1 = RvSend (oc_value c)"
    using sent [OF s] by blast
  show ?thesis
  proof (cases "rejected_credential e1 c")
    case False
    with assms(2) s have "v = v1" "err = e1" "c' = c" "w' = w1"
      by (simp_all add: send_refreshing_def)
    with es1 show ?thesis by (auto simp: one_refresh_def)
  next
    case True
    then have ok: "refreshable c" "e1 \<noteq> None"
      by (auto simp: rejected_credential_def refreshable_def split: option.splits)
    obtain res w2 where k: "kd_rejected (ht_coordinator (rt_host rt)) (the (bg_coordinator bg)) (oc_key c) (oc_record c) w1 = (res, w2)"
      by fastforce
    have l: "logged lg w2 = logged lg w1 @ [RvRefresh (oc_key c)]"
      using logsD(9) [OF assms(1), of "the (bg_coordinator bg)" "oc_key c" "oc_record c" w1] k by simp
    show ?thesis
    proof (cases res)
      case (Inl e)
      with assms(2) s True k have "v = v1" "err = e1" "c' = c" "w' = w2"
        by (simp_all add: send_refreshing_def refreshed_def)
      with es1 ok l show ?thesis
        by (intro exI [of _ "es1 @ [RvRefresh (oc_key c)]"]) (auto simp: one_refresh_def)
    next
      case (Inr r)
      obtain v2 e2 w3 where s2: "?send (op_credential_of (oc_key c) r) w2 = ((v2, e2), w3)" by (metis surj_pair)
      with assms(2) s True k Inr have eq: "v = v2" "err = e2" "c' = op_credential_of (oc_key c) r" "w' = w3"
        by (simp_all add: send_refreshing_def refreshed_def)
      obtain es2 where "logged lg w3 = logged lg w2 @ es2" "sends (bg_provider bg) c' es2"
          "err = None \<longrightarrow> es2 \<noteq> [] \<and> last es2 = RvSend (oc_value c')"
        using sent [OF s2] eq by blast
      with es1 ok l eq show ?thesis
        by (intro exI [of _ "es1 @ RvRefresh (oc_key c) # es2"]) (auto simp: one_refresh_def)
    qed
  qed
qed

text \<open>
  The course of an operation on the log: nothing reached the product but evidence, or its check passed
  and the request was sent, with at most one refresh, and the evidence names the credential used last.
\<close>

definition performed ::
    "('s, 'p, 'k, 'v, 'x) runtime \<Rightarrow> 'x context_err \<Rightarrow> caller \<Rightarrow> string \<Rightarrow> evidence_operation \<Rightarrow>
     (('p, 'k) binding \<Rightarrow> op_credential \<Rightarrow> ('s, 'p, 'k, 'x) rworld \<Rightarrow> go_err option \<times> ('s, 'p, 'k, 'x) rworld) \<Rightarrow>
     request \<Rightarrow> go_err option \<Rightarrow> ('s, 'p, 'k, 'x) rworld \<Rightarrow> runtime_event list \<Rightarrow> bool" where
  "performed rt ctx who inst operation check rq err w es \<longleftrightarrow>
     (es = [] \<and> err \<noteq> None) \<or>
     (\<exists>bg c c' body tail w0. fst (runtime_bind rt inst w) = Inr bg \<and> es = body @ tail \<and>
        (tail = [] \<and> (\<exists>x. fst (ctx x) \<noteq> None) \<or>
         (\<exists>ev. tail = [RvEvidence ev] \<and> attributes ev who inst c' operation rq err)) \<and>
        (body = [] \<and> c' = no_op_credential \<and> err \<noteq> None \<or>
         fst (check bg c w0) = None \<and> one_refresh (bg_provider bg) c c' body \<and>
         (err = None \<longrightarrow> body \<noteq> [] \<and> last body = RvSend (oc_value c'))))"

lemma performedI:
  "fst (runtime_bind rt inst w) = Inr bg \<Longrightarrow>
   tail = [] \<and> (\<exists>x. fst (ctx x) \<noteq> None) \<or>
     (\<exists>ev. tail = [RvEvidence ev] \<and> attributes ev who inst c' operation rq err) \<Longrightarrow>
   body = [] \<and> c' = no_op_credential \<and> err \<noteq> None \<or>
     fst (check bg c w0) = None \<and> one_refresh (bg_provider bg) c c' body \<and>
     (err = None \<longrightarrow> body \<noteq> [] \<and> last body = RvSend (oc_value c')) \<Longrightarrow>
   performed rt ctx who inst operation check rq err w (body @ tail)"
  unfolding performed_def by blast

lemma runtime_perform_logged:
  assumes lg: "logs rt ctx lg"
    and check: "\<And>bg c w. logged lg (snd (check bg c w)) = logged lg w"
    and run: "runtime_perform rt ctx who inst operation check (bound_invoke rt ctx) rq w = ((v, err), w')"
  shows "\<exists>es. logged lg w' = logged lg w @ es \<and> performed rt ctx who inst operation check rq err w es"
proof -
  have refused: ?thesis if "logged lg w' = logged lg w" "err \<noteq> None"
    using that by (intro exI [of _ "[]"]) (simp add: performed_def)
  have observed: "\<exists>tail. logged lg (runtime_observe rt ctx who inst c operation (rq_surface rq) (rq_model rq) e v) = logged lg v @ tail \<and>
      (tail = [] \<and> (\<exists>x. fst (ctx x) \<noteq> None) \<or>
       (\<exists>ev. tail = [RvEvidence ev] \<and> attributes ev who inst c operation rq e))" for c e v
    using runtime_observe_logged [OF lg, of who inst c operation rq e v] by (auto split: if_splits)
  show ?thesis
  proof (cases "request_validate rq")
    case (Some bad)
    with run refused show ?thesis by (auto simp: runtime_perform_def)
  next
    case None
    obtain res w1 where b: "runtime_bind rt inst w = (res, w1)" by fastforce
    note l1 = runtime_bind_silent [OF lg b]
    show ?thesis
    proof (cases res)
      case (Inl e)
      with None b run refused l1 show ?thesis by (auto simp: runtime_perform_def)
    next
      case (Inr bg)
      obtain cres w2 where c: "runtime_credential rt who inst bg w1 = (cres, w2)" by fastforce
      note l2 = runtime_credential_silent [OF lg c]
      show ?thesis
      proof (cases cres)
        case e: (Inl e)
        obtain tail where t: "logged lg w' = logged lg w @ tail"
            "tail = [] \<and> (\<exists>x. fst (ctx x) \<noteq> None) \<or>
             (\<exists>ev. tail = [RvEvidence ev] \<and> attributes ev who inst no_op_credential operation rq err)"
            "err \<noteq> None"
          using None b Inr c e run l1 l2 observed [of no_op_credential "Some e" w2]
          by (auto simp: runtime_perform_def)
        have "performed rt ctx who inst operation check rq err w ([] @ tail)"
          by (rule performedI [where bg = bg and c' = no_op_credential]) (use t b Inr in simp_all)
        with t(1) show ?thesis by auto
      next
        case k: (Inr cr)
        obtain ch w3 where ch: "check bg cr w2 = (ch, w3)" by fastforce
        have l3: "logged lg w3 = logged lg w2"
          using check [of bg cr w2] ch by simp
        show ?thesis
        proof (cases ch)
          case (Some e)
          with None b Inr c k ch run refused l1 l2 l3 show ?thesis by (auto simp: runtime_perform_def)
        next
          case n: None
          obtain v1 e1 c' w4 where s: "send_refreshing (refreshed rt bg cr)
              (\<lambda>c. bound_invoke rt ctx (bg_provider bg) (rq\<lparr>rq_credential := oc_value c\<rparr>)) cr w3 = (((v1, e1), c'), w4)"
            by (metis surj_pair)
          have eq: "v = v1" "err = e1"
              "w' = runtime_observe rt ctx who inst c' operation (rq_surface rq) (rq_model rq) err w4"
            using None b Inr c k ch n run s by (auto simp: runtime_perform_def)
          obtain body where bo: "logged lg w4 = logged lg w3 @ body" "one_refresh (bg_provider bg) cr c' body"
              "err = None \<longrightarrow> body \<noteq> [] \<and> last body = RvSend (oc_value c')"
            using send_refreshing_sends [OF lg s] eq by blast
          obtain tail where t: "logged lg w' = logged lg w4 @ tail"
              "tail = [] \<and> (\<exists>x. fst (ctx x) \<noteq> None) \<or>
               (\<exists>ev. tail = [RvEvidence ev] \<and> attributes ev who inst c' operation rq err)"
            using observed [of c' err w4] unfolding eq(3) by blast
          have f: "fst (runtime_bind rt inst w) = Inr bg" "fst (check bg cr w2) = None"
            using b Inr ch n by simp_all
          have "performed rt ctx who inst operation check rq err w (body @ tail)"
            by (rule performedI [where c = cr and ?w0.0 = w2, OF f(1) t(2)]) (use f(2) bo in simp)
          then show ?thesis
            using t bo l1 l2 l3 by (intro exI [of _ "body @ tail"]) simp
        qed
      qed
    qed
  qed
qed

text \<open>What a transparent request needs: a stored row that lists it, and a plan that carries it.\<close>

definition transparent_request ::
    "('s, 'p, 'k, 'v, 'x) runtime \<Rightarrow> gtime \<Rightarrow> catalog_read \<Rightarrow> model_info \<Rightarrow> transport_interface list \<Rightarrow> request \<Rightarrow> plan_request" where
  "transparent_request rt now rd row interfaces rq =
     \<lparr>pq_operation = OpChat, pq_surface = rq_surface rq, pq_evaluated_at = now, pq_exact_target = True,
      pq_capabilities = evidence_capabilities (ht_overflow (rt_host rt)) (row_evidence rd row),
      pq_interfaces = interfaces, pq_requirement = ReqTransparent, pq_translation_evaluated = False,
      pq_translation = \<lparr>rp_losses = []\<rparr>\<rparr>"

definition confirmed_transparent ::
    "('s, 'p, 'k, 'v, 'x) runtime \<Rightarrow> 'p bound \<Rightarrow> op_credential \<Rightarrow> catalog_read \<Rightarrow> gtime \<Rightarrow> request \<Rightarrow> bool" where
  "confirmed_transparent rt b c rd now rq \<longleftrightarrow>
     (\<exists>row interfaces. find_row (rd_record rd) (rq_model rq) = Some row \<and>
        rq_surface rq \<in> parse_surface_path ` set (mi_supported_apis row) \<and>
        preserves_wire_for (bound_layers rt b) (oc_value c) (rq_model rq) (rq_surface rq) \<and>
        evidence_trusted (transparent_request rt now rd row interfaces rq) \<and>
        operation_compatibility (evidence_capabilities (ht_overflow (rt_host rt)) (row_evidence rd row)) OpChat = SupportSupported \<and>
        \<not> request_streams rt rq)"

lemma transparent_refusal_None:
  assumes "transparent_refusal rt ctx inst rq bg c w = (None, w')"
  shows "\<exists>rd w1 now. cached (rt_catalogs rt ctx) \<lparr>ck_instance = inst, ck_credential = oc_key c\<rparr> w = (rd, w1) \<and>
    rd_err rd = None \<and> confirmed_transparent rt (bg_provider bg) c rd now rq"
proof -
  obtain rd w1 where r: "cached (rt_catalogs rt ctx) \<lparr>ck_instance = inst, ck_credential = oc_key c\<rparr> w = (rd, w1)" by fastforce
  with assms obtain row where e: "rd_err rd = None" and row: "find_row (rd_record rd) (rq_model rq) = Some row"
    by (auto simp: transparent_refusal_def split: option.splits)
  obtain now w2 where n: "on_env (rt_now rt) w1 = (now, w2)" by fastforce
  let ?is = "transport_interfaces (bound_layers rt (bg_provider bg)) (oc_value c) (rq_model rq) (mi_supported_apis row)"
  let ?r = "transparent_request rt now rd row ?is rq"
  have p: "transparent_plan rt now rd row ?is rq = plan_transport (ht_material (rt_host rt)) ?r"
    by (simp add: transparent_plan_def transparent_request_def)
  have d: "tp_disposition (plan_transport (ht_material (rt_host rt)) ?r) = TransportNative" "\<not> request_streams rt rq"
    using assms r e row n by (auto simp: transparent_refusal_def p [symmetric] Let_def split: if_splits)
  have t: "pq_requirement ?r = ReqTransparent" "pq_interfaces ?r = ?is" "pq_surface ?r = rq_surface rq"
      "pq_operation ?r = OpChat" "pq_capabilities ?r = evidence_capabilities (ht_overflow (rt_host rt)) (row_evidence rd row)"
    by (simp_all add: transparent_request_def)
  note native = d(1) [unfolded transparent_native [OF t(1)], unfolded t]
  then obtain i where i: "i \<in> set ?is" "ti_surface i = rq_surface rq" "ti_native i \<noteq> SupportUnsupported"
    by (auto simp: confirms_def)
  have "rq_surface rq \<in> parse_surface_path ` set (mi_supported_apis row)"
      "preserves_wire_for (bound_layers rt (bg_provider bg)) (oc_value c) (rq_model rq) (rq_surface rq)"
    using transport_interfaces_native [OF i(1)] i by (auto split: if_splits)
  then have "confirmed_transparent rt (bg_provider bg) c rd now rq"
    using row native d(2) unfolding confirmed_transparent_def by blast
  with r e show ?thesis by blast
qed

lemma transparent_refusal_silent:
  assumes "logs rt ctx lg" and "\<And>k w. logged lg (snd (cached (rt_catalogs rt ctx) k w)) = logged lg w"
  shows "logged lg (snd (transparent_refusal rt ctx inst rq bg c w)) = logged lg w"
proof -
  obtain rd w1 where r: "cached (rt_catalogs rt ctx) \<lparr>ck_instance = inst, ck_credential = oc_key c\<rparr> w = (rd, w1)" by fastforce
  obtain now w2 where n: "on_env (rt_now rt) w1 = (now, w2)" by fastforce
  have "logged lg w1 = logged lg w" "logged lg w2 = logged lg w1"
    using assms(2) [of "\<lparr>ck_instance = inst, ck_credential = oc_key c\<rparr>" w] on_env_now_silent [OF assms(1), of w1] r n
    by simp_all
  with r n show ?thesis
    by (simp add: transparent_refusal_def Let_def split: option.split)
qed

subsection \<open>Catalogs and settings changes\<close>

text \<open>A store and clock that leave alone when the settings changed.\<close>

definition keeps_changed_at :: "('s, 'p, 'k, 'x) rstate service \<Rightarrow> bool" where
  "keeps_changed_at sv \<longleftrightarrow>
     (\<forall>k s. rs_changed_at (snd (sv_load sv k s)) = rs_changed_at s) \<and>
     (\<forall>s. rs_changed_at (snd (sv_now sv s)) = rs_changed_at s)"

abbreviation changed_at :: "('s, 'p, 'k, 'x) rworld \<Rightarrow> gtime" where
  "changed_at w \<equiv> rs_changed_at (cw_rest w)"

lemma keeps_changed_at_steps:
  assumes "keeps_changed_at sv"
  shows "changed_at (snd (service_load sv k w)) = changed_at w" "changed_at (snd (service_now sv w)) = changed_at w"
    "changed_at (snd (service_state k w)) = changed_at w"
    "changed_at (snd (service_fresh sv key r nb w)) = changed_at w"
    "changed_at (snd (service_result sv key r found fc err w)) = changed_at w"
proof -
  show l: "changed_at (snd (service_load sv k w)) = changed_at w" for k w
    using assms by (simp add: keeps_changed_at_def service_load_def split: prod.split) (metis snd_conv)
  show n: "changed_at (snd (service_now sv w)) = changed_at w" for w
    using assms by (simp add: keeps_changed_at_def service_now_def split: prod.split) (metis snd_conv)
  show "changed_at (snd (service_state k w)) = changed_at w"
    by (simp add: service_state_def Let_def)
  show "changed_at (snd (service_fresh sv key r nb w)) = changed_at w"
    using n [of w] by (auto simp: service_fresh_def Let_def split: prod.split)
  show "changed_at (snd (service_result sv key r found fc err w)) = changed_at w"
    using n [of w] by (auto simp: service_result_def Let_def split: prod.split option.split)
qed

lemma service_fresh_True:
  assumes "service_fresh sv key r nb w = (True, w')"
  shows "ce_observed_at (cr_evidence r) \<noteq> 0 \<and> (nb = 0 \<or> nb \<le> ce_observed_at (cr_evidence r)) \<and>
    (\<exists>x. time_sub (fst (sv_now sv x)) (ce_observed_at (cr_evidence r)) < instance_ttl sv (ck_instance key))"
  using assms by (auto simp: service_fresh_def service_now_def is_zero_time_def Let_def split: if_splits prod.splits)
    (metis fst_conv)+

lemma read_from_cache:
  assumes sv: "keeps_changed_at sv" and run: "read sv rq w = (rd, w')"
    and cached: "dg_from_cache (rd_diagnostics rd)" "rd_err rd = None"
  shows "changed_at w' = changed_at w \<and>
    ce_observed_at (cr_evidence (rd_record rd)) \<noteq> 0 \<and>
    (qr_not_before rq = 0 \<or> qr_not_before rq \<le> ce_observed_at (cr_evidence (rd_record rd))) \<and>
    (\<exists>x i. time_sub (fst (sv_now sv x)) (ce_observed_at (cr_evidence (rd_record rd))) < instance_ttl sv i)"
proof -
  obtain key w0 where s: "service_state (qr_key rq) w = (key, w0)" by fastforce
  obtain ld w1 where l: "service_load sv key w0 = (ld, w1)" by fastforce
  note result = service_result_read [of sv key]
  have e: "ld_err ld = None"
    using run s l cached result by (fastforce simp: read_def split: option.splits)
  obtain fresh w2 where f: "(if ld_found ld then service_fresh sv key (ld_record ld) (qr_not_before rq) w1 else (False, w1)) =
      (fresh, w2)" by fastforce
  have fresh
  proof (rule ccontr)
    assume nf: "\<not> fresh"
    obtain res w3 where r: "service_refresh sv (rq\<lparr>qr_key := key\<rparr>) (ld_fence ld) w2 = (res, w3)" by fastforce
    obtain cur w4 where c: "service_load sv key w3 = (cur, w4)" by fastforce
    have "(rd, w') = (case (ld_err cur, res) of
           (Some err, _) \<Rightarrow> service_result sv key zero_record False False (Some err) w4
         | (None, Inl err) \<Rightarrow>
             (if ld_found cur \<and> sv_keep_stale sv then service_result sv key (ld_record cur) True True (Some err) w4
              else service_result sv key zero_record False False (Some err) w4)
         | (None, Inr _) \<Rightarrow>
             (if \<not> ld_found cur then service_result sv key zero_record False False (Some err_state_changed) w4
              else service_result sv key (ld_record cur) True False None w4))"
      using run nf by (simp add: read_def s l e f r c)
    then show False
      using cached by (auto split: option.splits sum.splits if_splits dest!: sym [of "(rd, w')"] result)
  qed
  with run s l e f have r: "service_result sv key (ld_record ld) True True None w2 = (rd, w')"
      and fr: "service_fresh sv key (ld_record ld) (qr_not_before rq) w1 = (True, w2)"
    by (auto simp: read_def split: if_splits)
  have c: "changed_at w0 = changed_at w" "changed_at w1 = changed_at w0" "changed_at w2 = changed_at w1"
      "changed_at w' = changed_at w2"
    using keeps_changed_at_steps(3) [OF sv, of "qr_key rq" w] keeps_changed_at_steps(1) [OF sv, of key w0]
      keeps_changed_at_steps(4) [OF sv, of key "ld_record ld" "qr_not_before rq" w1]
      keeps_changed_at_steps(5) [OF sv, of key "ld_record ld" True True None w2] s l fr r by simp_all
  show ?thesis
    using service_fresh_True [OF fr] result [OF r] c by auto
qed

lemma runtime_new_default_catalogs:
  assumes "runtime_new host opts = Inr rt" and "op_catalogs opts = None" and "op_catalog_service opts = None"
  shows "keeps_changed_at (rt_catalogs rt ctx) \<and> sv_now (rt_catalogs rt ctx) = with_env (rt_now rt) \<and>
    (\<forall>i. instance_ttl (rt_catalogs rt ctx) i = (if op_catalog_ttl opts \<le> 0 then seconds 900 else op_catalog_ttl opts))"
  using assms
  by (auto simp: runtime_new_def keeps_changed_at_def memory_catalog_store_def with_env_eq new_service_def
      instance_ttl_def Let_def split: option.splits)

subsection \<open>Health from outcomes\<close>

text \<open>The outcomes that say something about the provider: an answer, an HTTP status or a transport failure.\<close>

definition upstream_outcome :: "go_err option \<Rightarrow> bool" where
  "upstream_outcome err \<longleftrightarrow>
     (case err of None \<Rightarrow> True | Some e \<Rightarrow> cl_status (classify_error e) \<noteq> 0 \<or> cl_circuit (classify_error e))"

lemma operation_outcome_affects: "snd (operation_outcome now err) = upstream_outcome err"
  by (auto simp: operation_outcome_def upstream_outcome_def Let_def split: option.split)

lemma operation_outcome_healthy:
  "upstream_outcome err \<Longrightarrow> he_status (fst (operation_outcome now err)) = HealthHealthy \<longleftrightarrow>
     (case err of None \<Rightarrow> True | Some e \<Rightarrow> 200 \<le> cl_status (classify_error e) \<and> cl_status (classify_error e) < 300)"
  by (auto simp: operation_outcome_def upstream_outcome_def failure_of_def classify_provider_failure_def
      failure_verdict_def Let_def split: option.split)

record observation_call =
  oa_caller :: caller
  oa_instance :: string
  oa_credential :: op_credential
  oa_operation :: evidence_operation
  oa_surface :: model_surface
  oa_model :: string
  oa_err :: "go_err option"

definition observe_call ::
    "('s, 'p, 'k, 'v, 'x) runtime \<Rightarrow> 'x context_err \<Rightarrow> observation_call \<Rightarrow> ('s, 'p, 'k, 'x) rworld \<Rightarrow> ('s, 'p, 'k, 'x) rworld" where
  "observe_call rt ctx o' w =
     runtime_observe rt ctx (oa_caller o') (oa_instance o') (oa_credential o') (oa_operation o') (oa_surface o')
       (oa_model o') (oa_err o') w"

definition observe_calls ::
    "('s, 'p, 'k, 'v, 'x) runtime \<Rightarrow> 'x context_err \<Rightarrow> observation_call list \<Rightarrow> ('s, 'p, 'k, 'x) rworld \<Rightarrow> ('s, 'p, 'k, 'x) rworld" where
  "observe_calls rt ctx os w = fold (observe_call rt ctx) os w"

lemma observe_call_health:
  assumes "\<forall>x. fst (ctx x) = None"
  shows "\<exists>now. rs_health (cw_rest (observe_call rt ctx o' w)) =
    (if upstream_outcome (oa_err o')
     then (rs_health (cw_rest w))(oa_instance o' \<mapsto> fst (operation_outcome now (oa_err o')))
     else rs_health (cw_rest w))"
proof -
  obtain co w1 where c: "on_env ctx w = (co, w1)" by fastforce
  obtain now w2 where n: "on_env (rt_now rt) w1 = (now, w2)" by fastforce
  have h: "co = None" "rs_health (cw_rest w1) = rs_health (cw_rest w)" "rs_health (cw_rest w2) = rs_health (cw_rest w1)"
    using c n assms by (auto simp: on_env_def on_state_def with_env_eq)
  show ?thesis
    using operation_outcome_affects [of now "oa_err o'"]
    by (intro exI [of _ now])
      (auto simp: observe_call_def runtime_observe_def c n h Let_def split: prod.split)
qed

definition seen :: "string \<Rightarrow> observation_call list \<Rightarrow> observation_call list" where
  "seen inst os = filter (\<lambda>o'. oa_instance o' = inst \<and> upstream_outcome (oa_err o')) os"

lemma observe_calls_health:
  assumes "\<forall>x. fst (ctx x) = None"
  shows "if seen inst os = [] then rs_health (cw_rest (observe_calls rt ctx os w)) inst = rs_health (cw_rest w) inst
    else \<exists>now. rs_health (cw_rest (observe_calls rt ctx os w)) inst =
      Some (fst (operation_outcome now (oa_err (last (seen inst os)))))"
proof (induction os rule: rev_induct)
  case Nil
  then show ?case by (simp add: seen_def observe_calls_def)
next
  case (snoc o' os)
  let ?w = "observe_calls rt ctx os w"
  have run: "observe_calls rt ctx (os @ [o']) w = observe_call rt ctx o' ?w"
    by (simp add: observe_calls_def)
  obtain now where h: "rs_health (cw_rest (observe_call rt ctx o' ?w)) =
      (if upstream_outcome (oa_err o')
       then (rs_health (cw_rest ?w))(oa_instance o' \<mapsto> fst (operation_outcome now (oa_err o')))
       else rs_health (cw_rest ?w))"
    using observe_call_health [OF assms] by blast
  show ?case
  proof (cases "oa_instance o' = inst \<and> upstream_outcome (oa_err o')")
    case True
    with h run show ?thesis by (auto simp: seen_def)
  next
    case False
    then have "seen inst (os @ [o']) = seen inst os"
      and "rs_health (cw_rest (observe_call rt ctx o' ?w)) inst = rs_health (cw_rest ?w) inst"
      using h by (auto simp: seen_def)
    with snoc.IH run show ?thesis by simp
  qed
qed

text \<open>Two credentials that differ in their secrets at most.\<close>

definition same_account :: "op_credential \<Rightarrow> op_credential \<Rightarrow> bool" where
  "same_account a b \<longleftrightarrow>
     oc_key a = oc_key b \<and> tr_revision (oc_record a) = tr_revision (oc_record b) \<and>
     tr_account_id (oc_record a) = tr_account_id (oc_record b)"

lemma observe_call_secrets:
  "same_account (oa_credential o') c \<Longrightarrow> observe_call rt ctx (o'\<lparr>oa_credential := c\<rparr>) w = observe_call rt ctx o' w"
  by (simp add: observe_call_def runtime_observe_def same_account_def Let_def split: prod.split option.split)

subsection \<open>Properties\<close>

text \<open>
  C10. An operation runs on the provider of the settings it took: in every state the Runtime can reach, what
  a bind with the settings of a generation returns was built by the product's factory from those very
  settings, guarded by the policy they give and with a coordinator whose refresh they give, whatever
  was cached before and in whatever order the settings arrive; the circuit's policy is then the one of
  these settings; and the bind changed no health and no circuit's state, so both outlive the change.
\<close>
theorem bound_to_its_settings:
  assumes "runtime_reach rt cfg s" and "bind_locked rt inst (cfg gen) gen s = (r, s')"
  shows "bind_keeps inst s s' \<and>
    (\<forall>b. r = Inr b \<longrightarrow>
       (\<exists>x p x'. rt_factory rt (cfg gen) inst x = (Inr (Some p), x') \<and> bg_provider b = expected_bound rt (cfg gen) inst p) \<and>
       (has_circuit (bg_provider b) \<longrightarrow> circuits_policy (rs_circuits s') inst = policy_circuit rt (cfg gen) inst) \<and>
       (case bg_coordinator b of None \<Rightarrow> rt_credentials rt = None
        | Some k \<Rightarrow> rt_credentials rt \<noteq> None \<and> coordinator_for rt (cfg gen) inst k))"
  using bind_locked_ok [OF assms(2) runtime_reach_wf [OF assms(1)]]
  by (auto simp: built_for_def circuits_policy_def)




text \<open>
  C26. An instance's health is its last upstream outcome: while no caller gives up, whatever operations are
  observed on whatever instances, it is what the last answered, refused or unreachable one of the instance
  says, and as it was when there was none; it is healthy exactly after a success or an error with a 2xx
  status. What is observed does not depend on the secrets of the credentials.
\<close>
theorem health_is_last_upstream_outcome:
  assumes "\<forall>x. fst (ctx x) = None" and "list_all2 (\<lambda>o1 o2. \<exists>c. same_account (oa_credential o1) c \<and> o2 = o1\<lparr>oa_credential := c\<rparr>) os os'"
  shows "observe_calls rt ctx os' w = observe_calls rt ctx os w \<and>
    (if seen inst os = []
     then runtime_health inst (cw_rest (observe_calls rt ctx os w)) = runtime_health inst (cw_rest w)
     else (\<exists>now. runtime_health inst (cw_rest (observe_calls rt ctx os w)) =
             fst (operation_outcome now (oa_err (last (seen inst os))))) \<and>
       (he_status (runtime_health inst (cw_rest (observe_calls rt ctx os w))) = HealthHealthy \<longleftrightarrow>
          (case oa_err (last (seen inst os)) of None \<Rightarrow> True
           | Some e \<Rightarrow> 200 \<le> cl_status (classify_error e) \<and> cl_status (classify_error e) < 300)))"
proof -
  have 1: "observe_calls rt ctx os' w = observe_calls rt ctx os w"
    using assms(2)
  proof (induction arbitrary: w rule: list_all2_induct)
    case Nil
    then show ?case by simp
  next
    case (Cons o1 os o2 os')
    from Cons.hyps(1) have "observe_call rt ctx o2 w = observe_call rt ctx o1 w"
      using observe_call_secrets [of o1 _ rt ctx w] by blast
    then show ?case
      using Cons.IH by (simp add: observe_calls_def)
  qed
  have "seen inst os \<noteq> [] \<Longrightarrow> upstream_outcome (oa_err (last (seen inst os)))"
    using last_in_set [of "seen inst os"] by (auto simp: seen_def)
  with 1 observe_calls_health [OF assms(1), of inst os rt w] show ?thesis
    by (auto simp: runtime_health_def operation_outcome_healthy) blast
qed

text \<open>
  A product for the witnesses: its state is a log, its clock stands at 50, its provider rejects every
  credential but the token a refresh gives.
\<close>

type_synonym demo_world = "(string, string, unit, runtime_event list) rworld"

definition demo_push :: "runtime_event \<Rightarrow> demo_world \<Rightarrow> demo_world" where
  "demo_push ev w = snd (on_env (\<lambda>x. ((), x @ [ev])) w)"

definition demo_token :: "string \<Rightarrow> token_record" where
  "demo_token t = zero_token_record\<lparr>tr_access_token := t, tr_token_type := ''oauth''\<rparr>"

definition demo_rejected :: go_err where
  "demo_rejected = OperationErr ''chat'' 401 [] 0 None"

definition demo_host :: "(string, string, unit, string, runtime_event list) host" where
  "demo_host =
     \<lparr>ht_provider =
        \<lparr>po_invoke = (\<lambda>p rq w.
           (if rq_credential rq = Some (credential_from_record ''acct'' (demo_token ''new''))
            then (Some ''ok'', None) else (None, Some demo_rejected), demo_push (RvSend (rq_credential rq)) w)),
         po_stream = (\<lambda>p rq w. ((None, Some demo_rejected), w)), po_models = (\<lambda>p c w. (([], None), w)),
         po_layers = (\<lambda>p. [\<lparr>ly_native = (\<lambda>_. [ChatCompletions]), ly_preserves = Some (\<lambda>_ _. True), ly_preserves_for = None,
                          ly_counter = None\<rparr>])\<rparr>,
      ht_coordinator =
        \<lparr>kd_new = (\<lambda>f x. (Inr (), x)), kd_token = (\<lambda>k key w. (Inr (demo_token ''old''), w)),
         kd_rejected = (\<lambda>k key r w. (Inr (demo_token ''new''), demo_push (RvRefresh key) w))\<rparr>,
      ht_sleep = (\<lambda>d w. (None, w)), ht_time_now = (\<lambda>x. (50, x)), ht_decode = (\<lambda>_. None),
      ht_stream_field = (\<lambda>_. None), ht_media_type = Some, ht_material = (\<lambda>_. False),
      ht_overflow = (\<lambda>a b. 0), ht_quote = (\<lambda>_. [])\<rparr>"

definition demo_options :: "(string, string, unit, runtime_event list) options" where
  "demo_options =
     \<lparr>op_settings = Some (\<lambda>x. ((''settings'', 1), x)), op_providers = Some (\<lambda>s i x. (Inr (Some i), x)),
      op_credentials = Some \<lparr>cs_resolve = (\<lambda>who i w. (Inr ''acct'', w)), cs_load = (\<lambda>key w. (Inr (demo_token ''old''), w))\<rparr>,
      op_refresh = None, op_policy = None, op_catalogs = None, op_evidence = Some (\<lambda>ev x. x @ [RvEvidence ev]),
      op_catalog_ttl = 0, op_catalog_service = None, op_now = None\<rparr>"

definition demo_runtime :: "(string, string, unit, string, runtime_event list) runtime" where
  "demo_runtime = projr (runtime_new demo_host demo_options)"

definition demo_row :: model_info where
  "demo_row = empty_model_info\<lparr>mi_id := ''m'', mi_supported_apis := [''/v1/chat/completions''],
                mi_capabilities := Some demo_capabilities\<rparr>"

definition demo_memory :: memory_store where
  "demo_memory = new_memory_store\<lparr>ms_records :=
     [\<lparr>ck_instance = ''kilo'', ck_credential = ''acct''\<rparr> \<mapsto>
        \<lparr>cr_evidence = \<lparr>ce_status = CatalogDiscovered, ce_models = [demo_row], ce_observed_at = 10, ce_schema = 0\<rparr>,
         cr_revision = ''1''\<rparr>]\<rparr>"

definition demo_state :: "memory_store \<Rightarrow> demo_world" where
  "demo_state m = \<lparr>cw_keys = Map.empty, cw_rest = (runtime_start ''zero'' [])\<lparr>rs_memory := m\<rparr>\<rparr>"

definition demo_chat :: request where
  "demo_chat = \<lparr>rq_surface = ChatCompletions, rq_model = ''m'', rq_body = [], rq_content_type = [], rq_credential = None\<rparr>"

lemma demo_runtime_new: "runtime_new demo_host demo_options = Inr demo_runtime"
  by (simp add: demo_runtime_def runtime_new_def demo_options_def Let_def)

lemma demo_runtime_sel:
  "rt_host demo_runtime = demo_host" "rt_settings demo_runtime = (\<lambda>x. ((''settings'', 1), x))"
  "rt_factory demo_runtime = (\<lambda>s i x. (Inr (Some i), x))" "rt_credentials demo_runtime = op_credentials demo_options"
  "rt_refresh demo_runtime = None" "rt_policy demo_runtime = None" "rt_now demo_runtime = (\<lambda>x. (50, x))"
  "rt_evidence demo_runtime = (\<lambda>ev x. x @ [RvEvidence ev])"
  by (simp_all add: demo_runtime_def runtime_new_def demo_options_def demo_host_def Let_def)

lemma demo_logs: "logs demo_runtime (Pair None) id"
  by (simp add: logs_def silent_def silent_call_def demo_runtime_sel demo_host_def demo_options_def demo_push_def
      on_env_logged)

lemma demo_bind:
  "runtime_bind demo_runtime inst (demo_state m) =
     (Inr \<lparr>bg_provider = \<lparr>bd_provider = inst, bd_guard = None\<rparr>, bg_coordinator = Some ()\<rparr>,
      (demo_state m)\<lparr>cw_rest := (runtime_start ''zero'' [])
        \<lparr>rs_started := True, rs_generation := 1, rs_settings := ''settings'', rs_memory := m,
         rs_providers := [inst \<mapsto> \<lparr>bd_provider = inst, bd_guard = None\<rparr>], rs_coordinators := [inst \<mapsto> ()]\<rparr>\<rparr>)"
  by (simp add: runtime_bind_def on_env_def on_state_def with_env_eq demo_runtime_sel demo_state_def bind_locked_def
      adopt_settings_def bind_provider_def bind_resilient_def bind_coordinator_def demo_options_def demo_host_def
      runtime_start_def Let_def)

lemma demo_logged [simp]: "rs_env (cw_rest (demo_state m)) = []"
  by (simp add: demo_state_def runtime_start_def)

lemma demo_valid [simp]: "request_validate demo_chat = None"
  by code_simp

lemma demo_tokens:
  "credential_from_record ''acct'' (demo_token ''old'') \<noteq> credential_from_record ''acct'' (demo_token ''new'')"
  "tr_token_type (demo_token x) \<noteq> token_type_api_key"
  by (code_simp, simp add: demo_token_def token_type_api_key_def)

lemmas demo_run_simps =
  runtime_perform_def demo_bind runtime_credential_def send_refreshing_def
  refreshed_def rejected_credential_def bound_invoke_def runtime_observe_def on_env_def on_state_def with_env_eq
  demo_runtime_sel demo_host_def demo_options_def demo_push_def op_credential_of_def demo_rejected_def
  operation_classification_def failure_verdict_def Let_def runtime_start_def

lemma demo_invoke:
  "\<exists>ev. logged id (snd (runtime_invoke demo_runtime (Pair None) local_caller ''kilo'' demo_chat (demo_state m))) =
     [RvSend (Some (credential_from_record ''acct'' (demo_token ''old''))), RvRefresh ''acct'',
      RvSend (Some (credential_from_record ''acct'' (demo_token ''new''))), RvEvidence ev] \<and>
     fst (runtime_invoke demo_runtime (Pair None) local_caller ''kilo'' demo_chat (demo_state m)) = (Some ''ok'', None)"
  using demo_tokens by (auto simp: runtime_invoke_def demo_run_simps split: prod.split)

theorem bound_to_its_settings_witness:
  "\<exists>b. fst (bind_locked demo_runtime ''kilo'' ''settings'' 1 (runtime_start ''zero'' [])) = Inr b \<and>
     bg_provider b = expected_bound demo_runtime ''settings'' ''kilo'' ''kilo''"
proof -
  obtain r s' where e: "bind_locked demo_runtime ''kilo'' ''settings'' 1 (runtime_start ''zero'' []) = (r, s')"
    by fastforce
  obtain b where b: "r = Inr b"
    using e by (auto simp: bind_locked_def adopt_settings_def bind_provider_def bind_resilient_def bind_coordinator_def
        demo_runtime_sel demo_options_def demo_host_def with_env_eq runtime_start_def Let_def)
  show ?thesis
    using bound_to_its_settings [of demo_runtime "\<lambda>_. ''settings''" "runtime_start ''zero'' []" "''kilo''" 1 r s',
        OF reach_start e] b e
    by (auto simp: demo_runtime_sel)
qed


lemma demo_load:
  "sv_load (rt_catalogs demo_runtime (Pair None)) k s = (memory_load None k (rs_memory s), s)"
  "sv_schema (rt_catalogs demo_runtime (Pair None)) = 0"
  "sv_now (rt_catalogs demo_runtime (Pair None)) s = (50, s)"
  "instance_ttl (rt_catalogs demo_runtime (Pair None)) i = seconds 900"
  by (simp_all add: demo_runtime_def runtime_new_def demo_options_def demo_host_def memory_catalog_store_def with_env_eq
      new_service_def instance_ttl_def Let_def)

lemma demo_load_service:
  "service_load (rt_catalogs demo_runtime (Pair None)) k w =
     (fst (service_load (rt_catalogs demo_runtime (Pair None)) k w), w)"
  by (simp add: service_load_def demo_load split: prod.split)

lemma demo_result_logged:
  "logged id (snd (service_result (rt_catalogs demo_runtime (Pair None)) k r found fc err w)) = logged id w"
  by (simp add: service_result_def service_now_def demo_load Let_def split: prod.split)

lemma demo_cached_logged:
  "logged id (snd (cached (rt_catalogs demo_runtime (Pair None)) k w)) = logged id w"
proof -
  obtain key w1 where s: "service_state k w = (key, w1)" by fastforce
  then have "logged id w1 = logged id w"
    by (auto simp: service_state_def Let_def)
  moreover obtain ld where "service_load (rt_catalogs demo_runtime (Pair None)) key w1 = (ld, w1)"
    by (metis demo_load_service)
  ultimately show ?thesis
    using demo_result_logged by (simp add: cached_def s)
qed

lemma demo_lookup:
  assumes "rs_memory (cw_rest w) = demo_memory"
  shows "\<exists>rd w'. cached (rt_catalogs demo_runtime (Pair None)) \<lparr>ck_instance = ''kilo'', ck_credential = ''acct''\<rparr> w = (rd, w') \<and>
    rd_record rd = \<lparr>cr_evidence = \<lparr>ce_status = CatalogDiscovered, ce_models = [demo_row], ce_observed_at = 10, ce_schema = 0\<rparr>,
      cr_revision = ''1''\<rparr> \<and> rd_err rd = None"
proof -
  let ?k = "\<lparr>ck_instance = ''kilo'', ck_credential = ''acct''\<rparr>"
  have n: "normalize_key ?k = ?k"
    by code_simp
  have m: "memory_load None ?k (rs_memory (cw_rest w)) =
      (\<lparr>cr_evidence = \<lparr>ce_status = CatalogDiscovered, ce_models = [demo_row], ce_observed_at = 10, ce_schema = 0\<rparr>,
        cr_revision = ''1''\<rparr>, None)"
    by (simp add: assms memory_load_def n demo_memory_def Let_def)
  show ?thesis
    by (simp add: cached_def service_state_def n service_load_def demo_load m served_def service_result_def service_now_def
        is_zero_time_def Let_def)
qed

lemma demo_transparent:
  "\<exists>ev. logged id (snd (runtime_transparent demo_runtime (Pair None) local_caller ''kilo'' demo_chat (demo_state demo_memory))) =
     [RvSend (Some (credential_from_record ''acct'' (demo_token ''old''))), RvRefresh ''acct'',
      RvSend (Some (credential_from_record ''acct'' (demo_token ''new''))), RvEvidence ev] \<and>
     fst (runtime_transparent demo_runtime (Pair None) local_caller ''kilo'' demo_chat (demo_state demo_memory)) = (Some ''ok'', None)"
proof -
  have none: "fst (transparent_refusal demo_runtime (Pair None) ''kilo'' demo_chat
       \<lparr>bg_provider = \<lparr>bd_provider = ''kilo'', bd_guard = None\<rparr>, bg_coordinator = Some ()\<rparr>
       \<lparr>oc_key = ''acct'', oc_record = r, oc_value = v\<rparr> w) = None \<and>
      logged id (snd (transparent_refusal demo_runtime (Pair None) ''kilo'' demo_chat
       \<lparr>bg_provider = \<lparr>bd_provider = ''kilo'', bd_guard = None\<rparr>, bg_coordinator = Some ()\<rparr>
       \<lparr>oc_key = ''acct'', oc_record = r, oc_value = v\<rparr> w)) = logged id w"
    if m: "rs_memory (cw_rest w) = demo_memory" for r v w
  proof -
    obtain rd w1 where c: "cached (rt_catalogs demo_runtime (Pair None)) \<lparr>ck_instance = ''kilo'', ck_credential = ''acct''\<rparr> w = (rd, w1)"
        "rd_record rd = \<lparr>cr_evidence = \<lparr>ce_status = CatalogDiscovered, ce_models = [demo_row], ce_observed_at = 10, ce_schema = 0\<rparr>,
          cr_revision = ''1''\<rparr>" "rd_err rd = None"
      using demo_lookup [OF m] by blast
    have row: "find_row (rd_record rd) (rq_model demo_chat) = Some demo_row"
      by (simp add: c find_row_def demo_row_def demo_chat_def)
    have ps: "parse_surface_path ''/v1/chat/completions'' = ChatCompletions"
      by code_simp
    have ti: "transport_interfaces (bound_layers demo_runtime \<lparr>bd_provider = ''kilo'', bd_guard = None\<rparr>) v (rq_model demo_chat)
        (mi_supported_apis demo_row) = [\<lparr>ti_surface = ChatCompletions, ti_native = SupportSupported\<rparr>]"
      by (simp add: bound_layers_def demo_runtime_sel demo_host_def demo_row_def ps layer_serves_def)
    have native: "tp_disposition (transparent_plan demo_runtime 50 rd demo_row
        [\<lparr>ti_surface = ChatCompletions, ti_native = SupportSupported\<rparr>] demo_chat) = TransportNative"
      unfolding transparent_plan_def by (subst transparent_native)
        (simp_all add: row_evidence_def c evidence_trusted_def evidence_usable_def evidence_capabilities_def demo_row_def
          demo_capabilities_def legacy_capabilities_def is_fresh_def freshness_status_at_def is_zero_time_def
          operation_compatibility_def surface_compatibility_def legacy_support_def confirms_def demo_chat_def default_transport_freshness_def Let_def)
    have now: "on_env (rt_now demo_runtime) w1 = (50, w1)"
      by (simp add: on_env_def on_state_def with_env_eq demo_runtime_sel)
    have body: "\<not> request_streams demo_runtime demo_chat"
      by (simp add: request_streams_def demo_runtime_sel demo_host_def)
    have l: "logged id w1 = logged id w"
      using demo_cached_logged [of "\<lparr>ck_instance = ''kilo'', ck_credential = ''acct''\<rparr>" w] c(1) by simp
    show ?thesis
      by (simp add: transparent_refusal_def c(1,3) row ti now native body l [simplified])
  qed
  let ?w = "(demo_state demo_memory)\<lparr>cw_rest :=
      \<lparr>rs_started = True, rs_generation = 1, rs_settings = ''settings'', rs_changed_at = 0,
       rs_providers = [''kilo'' \<mapsto> \<lparr>bd_provider = ''kilo'', bd_guard = None\<rparr>], rs_coordinators = [''kilo'' \<mapsto> ()],
       rs_health = Map.empty, rs_circuits = zero_circuits, rs_memory = demo_memory, rs_env = []\<rparr>\<rparr>"
  obtain w3 where r: "transparent_refusal demo_runtime (Pair None) ''kilo'' demo_chat
       \<lparr>bg_provider = \<lparr>bd_provider = ''kilo'', bd_guard = None\<rparr>, bg_coordinator = Some ()\<rparr>
       \<lparr>oc_key = ''acct'', oc_record = demo_token ''old'',
        oc_value = Some (credential_from_record ''acct'' (demo_token ''old''))\<rparr> ?w = (None, w3)"
      "rs_env (cw_rest w3) = []"
    using none [of ?w "demo_token ''old''" "Some (credential_from_record ''acct'' (demo_token ''old''))"]
    by (auto simp: prod_eq_iff)
  show ?thesis
    using demo_tokens by (auto simp: runtime_transparent_def demo_run_simps r split: prod.split)
qed


lemma demo_read:
  assumes "rs_memory (cw_rest w) = demo_memory" and "nb = 0"
  shows "\<exists>rd w'. read (rt_catalogs demo_runtime (Pair None))
      \<lparr>qr_key = \<lparr>ck_instance = ''kilo'', ck_credential = ''acct''\<rparr>, qr_discover = d, qr_not_before = nb, qr_rebase = None\<rparr> w =
      (rd, w') \<and> dg_from_cache (rd_diagnostics rd) \<and> rd_err rd = None"
proof -
  let ?k = "\<lparr>ck_instance = ''kilo'', ck_credential = ''acct''\<rparr>"
  have n: "normalize_key ?k = ?k"
    by code_simp
  have m: "memory_load None ?k (rs_memory (cw_rest w)) =
      (\<lparr>cr_evidence = \<lparr>ce_status = CatalogDiscovered, ce_models = [demo_row], ce_observed_at = 10, ce_schema = 0\<rparr>,
        cr_revision = ''1''\<rparr>, None)"
    by (simp add: assms memory_load_def n demo_memory_def Let_def)
  show ?thesis
    by (simp add: read_def service_state_def n service_load_def demo_load m served_def service_fresh_def service_result_def
        service_now_def is_zero_time_def assms(2) time_sub_def min_int64_def max_int64_def Let_def)
qed


theorem health_is_last_upstream_outcome_witness:
  "he_status (runtime_health ''kilo'' (cw_rest (observe_calls demo_runtime (Pair None)
      [\<lparr>oa_caller = local_caller, oa_instance = ''kilo'', oa_credential = no_op_credential, oa_operation = EvidenceInvoke,
        oa_surface = ChatCompletions, oa_model = ''m'', oa_err = Some (OperationErr ''chat'' 200 [] 0 (Some IoEOF))\<rparr>]
      (demo_state demo_memory)))) = HealthHealthy"
proof -
  let ?o = "\<lparr>oa_caller = local_caller, oa_instance = ''kilo'', oa_credential = no_op_credential, oa_operation = EvidenceInvoke,
        oa_surface = ChatCompletions, oa_model = ''m'', oa_err = Some (OperationErr ''chat'' 200 [] 0 (Some IoEOF))\<rparr>"
  have a: "\<forall>x. fst ((Pair None :: runtime_event list context_err) x) = None"
    by simp
  have s: "same_account c c" for c
    by (simp add: same_account_def)
  have l: "list_all2 (\<lambda>o1 o2. \<exists>c. same_account (oa_credential o1) c \<and> o2 = o1\<lparr>oa_credential := c\<rparr>) [?o] [?o]"
    using s [of no_op_credential] by (auto intro: exI [of _ no_op_credential])
  show ?thesis
    using health_is_last_upstream_outcome [OF a l, of demo_runtime "demo_state demo_memory" "''kilo''"]
    by (simp add: seen_def upstream_outcome_def operation_classification_def failure_verdict_def)
qed

text \<open>
  A generation names its settings: after any number of updates of the memory settings a snapshot has the
  last of them, and its generation is that of an earlier snapshot exactly when nothing was updated in between,
  as long as there were fewer than two to the 64 updates (the counter wraps around then).
\<close>
theorem memory_settings_generations:
  assumes "length ss < 2 ^ 64"
  shows "fst (settings_snapshot (memory_settings.updates ss m)) = last (fst (settings_snapshot m) # ss) \<and>
    (snd (settings_snapshot (memory_settings.updates ss m)) = snd (settings_snapshot m) \<longleftrightarrow> ss = [])"
  using memory_settings.updates_snapshot [of ss m] memory_settings.generations_name_settings [OF assms, of m] by simp

theorem memory_settings_generations_witness:
  "settings_snapshot (memory_settings.updates [''a'', ''b''] (new_memory_settings ''z'')) = (''b'', 3) \<and>
   snd (settings_snapshot (memory_settings.updates [''a'', ''b''] (new_memory_settings ''z''))) \<noteq>
     snd (settings_snapshot (new_memory_settings ''z''))"
  using memory_settings_generations [of "[''a'', ''b'']" "new_memory_settings ''z''"]
    memory_settings.updates_snapshot [of "[''a'', ''b'']" "new_memory_settings ''z''"]
  by (simp add: settings_snapshot_def new_memory_settings_def)

end
