(* ===== verification/Registry.thy ===== *)
theory Registry
  imports Core_Types Complex_Main
begin

text \<open>
  \<^verbatim>\<open>providers/registry.go\<close>: the curated table of provider integrations, its validation, its lookups and
  the overlays products lay on it. \<^verbatim>\<open>net/url\<close>, \<^verbatim>\<open>net.ParseIP\<close> and \<^verbatim>\<open>json.Valid\<close> are arguments
  (\<open>registry_env\<close>), \<^verbatim>\<open>cloneRegistryEntry\<close> is the identity on values, and the entries of an extension map are
  taken in the order of the list that stands for it, which Go leaves open. Decoding a manifest
  (\<^verbatim>\<open>encoding/json\<close>) and the embedded default manifest are not modelled. An error keeps what its text names.
\<close>

subsection \<open>Entries\<close>

text \<open>A \<^verbatim>\<open>float64\<close> priority: finite, or a NaN or an infinity.\<close>

datatype priority = Finite rat | NotFinite

record registry_entry =
  re_id :: string
  re_aliases :: "string list"
  re_label :: string
  re_description :: string
  re_categories :: "string list"
  re_runtime :: string
  re_protocol :: string
  re_availability :: string
  re_auth :: "string list"
  re_scope :: string
  re_provider_id :: string
  re_base_url :: string
  re_region :: string
  re_location :: string
  re_requires_base_url :: bool
  re_requires_key :: bool
  re_api_adaptation :: bool
  re_discovery :: bool
  re_anonymous :: bool
  re_infer_audio :: bool
  re_onboarding :: "string list"
  re_auth_adapter :: string
  re_quota_adapter :: string
  re_risk :: string
  re_risk_notice :: string
  re_docs_url :: string
  re_client_only :: bool
  re_priority :: priority
  re_icon :: string
  re_domain :: string
  re_models :: "string list"
  re_extensions :: "(string \<times> string) list"

text \<open>The parts of a parsed URL: scheme, host and host name.\<close>

record registry_env =
  rn_url :: "string \<Rightarrow> (string \<times> string \<times> string) option"
  rn_is_ip :: "string \<Rightarrow> bool"
  rn_json_valid :: "string \<Rightarrow> bool"

datatype registry_error =
    NoEntries
  | InvalidId nat string
  | MissingMetadata string
  | InvalidField string string string
  | MissingRiskNotice string string
  | UnsupportedRuntime string string
  | NoAuthMethods string
  | KeyNotAdvertised string
  | PersonalWithoutAuth string
  | InconsistentClientOnly string
  | MissingAuthAdapter string
  | UnsafeAnonymous string
  | AnonymousNotPublic string
  | ReusedName string string string
  | NonFinitePriority string
  | EmptyCommonModel string
  | InvalidExtension string string
  | RemovesUnknown string
  | RemovesTwice string
  | OverridesUnknown string
  | OverridesRemoved string
  | OverridesTwice string
  | AddsExisting string

subsection \<open>Identifiers\<close>

definition normalize_identifier :: "string \<Rightarrow> string" where
  "normalize_identifier v = to_lower (trim_space v)"

definition lower_alnum :: "char \<Rightarrow> bool" where
  "lower_alnum c \<longleftrightarrow> (97 \<le> byte c \<and> byte c \<le> 122) \<or> (48 \<le> byte c \<and> byte c \<le> 57)"

text \<open>The pattern \<^verbatim>\<open>^[a-z0-9][a-z0-9._-]*$\<close>.\<close>

definition valid_identifier :: "string \<Rightarrow> bool" where
  "valid_identifier s =
     (case s of
        [] \<Rightarrow> False
      | c # cs \<Rightarrow> lower_alnum c \<and> list_all (\<lambda>d. lower_alnum d \<or> d \<in> set ''._-'') cs)"

text \<open>The pattern \<^verbatim>\<open>^[a-z0-9]([a-z0-9-]*[a-z0-9])?(\.[a-z0-9]([a-z0-9-]*[a-z0-9])?)+$\<close>: two labels or more.\<close>

definition domain_label :: "string \<Rightarrow> bool" where
  "domain_label s \<longleftrightarrow>
     s \<noteq> [] \<and> lower_alnum (hd s) \<and> lower_alnum (last s) \<and> list_all (\<lambda>d. lower_alnum d \<or> d = CHR ''-'') s"

definition valid_domain :: "string \<Rightarrow> bool" where
  "valid_domain s \<longleftrightarrow> 2 \<le> length (split_on (CHR ''.'') s) \<and> list_all domain_label (split_on (CHR ''.'') s)"

definition allowed_auth :: "string list" where
  "allowed_auth =
     [''api_key'', ''gateway_client'', ''none'', ''oauth_browser'', ''oauth_device'', ''token_import'',
      ''gcp_service_account'', ''setup_token'']"

subsection \<open>Validation\<close>

text \<open>What validation rewrites of an entry; an entry that passes is returned in this form.\<close>

definition normalize_fields :: "registry_entry \<Rightarrow> registry_entry" where
  "normalize_fields e =
     e\<lparr>re_id := normalize_identifier (re_id e), re_provider_id := normalize_identifier (re_provider_id e),
       re_runtime := normalize_identifier (re_runtime e), re_protocol := normalize_identifier (re_protocol e),
       re_availability := normalize_identifier (re_availability e), re_scope := normalize_identifier (re_scope e),
       re_risk := normalize_identifier (re_risk e), re_auth_adapter := normalize_identifier (re_auth_adapter e),
       re_quota_adapter := normalize_identifier (re_quota_adapter e), re_icon := normalize_identifier (re_icon e),
       re_domain := normalize_identifier (re_domain e)\<rparr>"

definition normalize_entry :: "registry_entry \<Rightarrow> registry_entry" where
  "normalize_entry e =
     (normalize_fields e)
       \<lparr>re_auth := map normalize_identifier (re_auth e), re_aliases := map normalize_identifier (re_aliases e),
        re_categories := map normalize_identifier (re_categories e),
        re_onboarding := map normalize_identifier (re_onboarding e), re_models := map trim_space (re_models e)\<rparr>"

text \<open>An error when a condition holds, for the first element of a list of which it does, and in order.\<close>

definition err_if :: "bool \<Rightarrow> registry_error \<Rightarrow> registry_error option" where
  "err_if b e = (if b then Some e else None)"

definition err_first :: "('a \<Rightarrow> bool) \<Rightarrow> ('a \<Rightarrow> registry_error) \<Rightarrow> 'a list \<Rightarrow> registry_error option" where
  "err_first bad f xs = find_first (\<lambda>x. err_if (bad x) (f x)) xs"

definition first_error :: "registry_error option list \<Rightarrow> registry_error option" where
  "first_error es = find_first id es"

definition has_auth :: "registry_entry \<Rightarrow> string list \<Rightarrow> bool" where
  "has_auth e methods \<longleftrightarrow> list_ex (\<lambda>m. normalize_identifier m \<in> set methods) (re_auth e)"

definition public_https :: "registry_env \<Rightarrow> string \<Rightarrow> bool" where
  "public_https env url =
     (case rn_url env url of
        None \<Rightarrow> False
      | Some (scheme, _, hostname) \<Rightarrow>
          (let host = to_lower hostname in
           scheme = ''https'' \<and> host \<noteq> [] \<and> \<not> rn_is_ip env host \<and> host \<noteq> ''localhost'' \<and>
           contains_sub host ''.'' \<and> \<not> has_suffix host ''.local''))"

definition url_error :: "registry_env \<Rightarrow> string \<Rightarrow> string \<Rightarrow> string \<Rightarrow> registry_error option" where
  "url_error env entry_id name value =
     (if blank value then None
      else
        (case rn_url env value of
           None \<Rightarrow> Some (InvalidField entry_id name value)
         | Some (scheme, host, _) \<Rightarrow>
             err_if (host = [] \<or> (scheme \<noteq> ''http'' \<and> scheme \<noteq> ''https'')) (InvalidField entry_id name value)))"

definition anonymous_safe :: "registry_entry \<Rightarrow> bool" where
  "anonymous_safe e \<longleftrightarrow>
     re_availability e = ''available'' \<and> re_runtime e = ''openai_compatible'' \<and> re_protocol e = ''openai'' \<and>
     re_scope e = ''system_or_personal'' \<and> \<not> re_requires_key e \<and> re_discovery e \<and> has_auth e [''none''] \<and>
     re_risk e = ''green'' \<and> \<not> blank (re_base_url e)"

text \<open>The checks of one entry before its names, and after them; \<open>e\<close> has its fields normalized.\<close>

definition entry_error_before :: "registry_env \<Rightarrow> string list option \<Rightarrow> nat \<Rightarrow> registry_entry \<Rightarrow> registry_error option" where
  "entry_error_before env runtimes index e =
     first_error
       [err_if (\<not> valid_identifier (re_id e)) (InvalidId (index + 1) (re_id e)),
        err_if (re_label e = [] \<or> re_description e = [] \<or> re_runtime e = [] \<or> re_protocol e = [] \<or> re_provider_id e = [])
          (MissingMetadata (re_id e)),
        err_if (\<not> valid_identifier (re_provider_id e)) (InvalidField (re_id e) ''default_provider_id'' (re_provider_id e)),
        err_if (re_availability e \<notin> {''available'', ''planned'', ''client_only''})
          (InvalidField (re_id e) ''availability'' (re_availability e)),
        err_if (re_scope e \<notin> {''system_or_personal'', ''personal'', ''gateway_client''})
          (InvalidField (re_id e) ''connection scope'' (re_scope e)),
        err_if (re_risk e \<notin> {''green'', ''yellow'', ''red''}) (InvalidField (re_id e) ''risk level'' (re_risk e)),
        err_if (re_risk e \<noteq> ''green'' \<and> blank (re_risk_notice e)) (MissingRiskNotice (re_id e) (re_risk e)),
        (case runtimes of
           None \<Rightarrow> None
         | Some ts \<Rightarrow> err_if (re_availability e = ''available'' \<and> re_runtime e \<notin> set (map normalize_identifier ts))
             (UnsupportedRuntime (re_id e) (re_runtime e))),
        err_if (re_auth e = []) (NoAuthMethods (re_id e)),
        err_first (\<lambda>m. normalize_identifier m \<notin> set allowed_auth)
          (\<lambda>m. InvalidField (re_id e) ''auth method'' (normalize_identifier m)) (re_auth e),
        err_if (re_requires_key e \<and> \<not> has_auth e [''api_key'']) (KeyNotAdvertised (re_id e)),
        err_if (re_scope e = ''personal'' \<and> has_auth e [''none'']) (PersonalWithoutAuth (re_id e)),
        err_if (re_client_only e \<and> (re_availability e \<noteq> ''client_only'' \<or> re_scope e \<noteq> ''gateway_client''))
          (InconsistentClientOnly (re_id e)),
        err_if (has_auth e [''oauth_browser'', ''oauth_device'', ''token_import''] \<and> re_availability e = ''available'' \<and>
                \<not> valid_identifier (re_auth_adapter e))
          (MissingAuthAdapter (re_id e)),
        err_if (re_auth_adapter e \<noteq> [] \<and> \<not> valid_identifier (re_auth_adapter e))
          (InvalidField (re_id e) ''auth_adapter'' (re_auth_adapter e)),
        err_if (re_anonymous e \<and> \<not> anonymous_safe e) (UnsafeAnonymous (re_id e)),
        err_if (re_anonymous e \<and> \<not> public_https env (re_base_url e)) (AnonymousNotPublic (re_id e)),
        url_error env (re_id e) ''default_base_url'' (re_base_url e),
        url_error env (re_id e) ''docs_url'' (re_docs_url e)]"

definition entry_error_after :: "registry_env \<Rightarrow> registry_entry \<Rightarrow> registry_error option" where
  "entry_error_after env e =
     first_error
       [err_first (\<lambda>c. \<not> valid_identifier (normalize_identifier c))
          (\<lambda>c. InvalidField (re_id e) ''category'' (normalize_identifier c)) (re_categories e),
        err_first (\<lambda>f. \<not> valid_identifier (normalize_identifier f))
          (\<lambda>f. InvalidField (re_id e) ''onboarding field'' (normalize_identifier f)) (re_onboarding e),
        err_if (re_priority e = NotFinite) (NonFinitePriority (re_id e)),
        err_if (re_icon e \<noteq> [] \<and> \<not> valid_identifier (re_icon e)) (InvalidField (re_id e) ''icon'' (re_icon e)),
        err_if (re_domain e \<noteq> [] \<and> \<not> valid_domain (re_domain e)) (InvalidField (re_id e) ''domain'' (re_domain e)),
        err_first (\<lambda>m. blank m) (\<lambda>m. EmptyCommonModel (re_id e)) (re_models e),
        err_first (\<lambda>(k, v). \<not> valid_identifier k \<or> \<not> rn_json_valid env v)
          (\<lambda>(k, v). InvalidExtension (re_id e) k) (re_extensions e)]"

fun claim_names :: "string \<Rightarrow> (string \<rightharpoonup> string) \<Rightarrow> string list \<Rightarrow> registry_error + (string \<rightharpoonup> string)" where
  "claim_names entry_id claimed [] = Inr claimed"
| "claim_names entry_id claimed (n # ns) =
     (let name = normalize_identifier n in
      if \<not> valid_identifier name then Inl (InvalidField entry_id ''id/alias'' name)
      else case claimed name of
             Some owner \<Rightarrow> Inl (ReusedName entry_id name owner)
           | None \<Rightarrow> claim_names entry_id (claimed(name \<mapsto> entry_id)) ns)"

fun validate_entries ::
    "registry_env \<Rightarrow> string list option \<Rightarrow> nat \<Rightarrow> (string \<rightharpoonup> string) \<Rightarrow> registry_entry list \<Rightarrow>
     registry_error + registry_entry list" where
  "validate_entries env runtimes index claimed [] = Inr []"
| "validate_entries env runtimes index claimed (e0 # es) =
     (let e = normalize_fields e0 in
      case entry_error_before env runtimes index e of
        Some err \<Rightarrow> Inl err
      | None \<Rightarrow>
          (case claim_names (re_id e) claimed (re_id e # re_aliases e) of
             Inl err \<Rightarrow> Inl err
           | Inr claimed' \<Rightarrow>
               (case entry_error_after env e of
                  Some err \<Rightarrow> Inl err
                | None \<Rightarrow>
                    (case validate_entries env runtimes (index + 1) claimed' es of
                       Inl err \<Rightarrow> Inl err
                     | Inr rest \<Rightarrow> Inr (normalize_entry e0 # rest)))))"

definition validate_registry ::
    "registry_env \<Rightarrow> string list option \<Rightarrow> registry_entry list \<Rightarrow> registry_error + registry_entry list" where
  "validate_registry env runtimes es = (if es = [] then Inl NoEntries else validate_entries env runtimes 0 Map.empty es)"

subsection \<open>Registries\<close>

record registry =
  rg_entries :: "registry_entry list"
  rg_ids :: "string \<rightharpoonup> nat"
  rg_names :: "string \<rightharpoonup> nat"

definition priority_value :: "registry_entry \<Rightarrow> rat" where
  "priority_value e = (case re_priority e of Finite q \<Rightarrow> q | NotFinite \<Rightarrow> 0)"

text \<open>The two indices, entry by entry, a later name overwriting an earlier one.\<close>

fun index_ids :: "nat \<Rightarrow> registry_entry list \<Rightarrow> (string \<rightharpoonup> nat) \<Rightarrow> string \<rightharpoonup> nat" where
  "index_ids n [] m = m"
| "index_ids n (e # es) m = index_ids (n + 1) es (m(re_id e \<mapsto> n))"

fun index_names :: "nat \<Rightarrow> registry_entry list \<Rightarrow> (string \<rightharpoonup> nat) \<Rightarrow> string \<rightharpoonup> nat" where
  "index_names n [] m = m"
| "index_names n (e # es) m = index_names (n + 1) es (fold (\<lambda>a m. m(a \<mapsto> n)) (re_aliases e) (m(re_id e \<mapsto> n)))"

definition new_registry ::
    "registry_env \<Rightarrow> registry_entry list \<Rightarrow> string list option \<Rightarrow> registry_error + registry" where
  "new_registry env entries runtimes =
     (case validate_registry env runtimes entries of
        Inl err \<Rightarrow> Inl err
      | Inr normalized \<Rightarrow>
          (let sorted = sort_key (\<lambda>e. - priority_value e) normalized
           in Inr \<lparr>rg_entries = sorted, rg_ids = index_ids 0 sorted Map.empty,
                   rg_names = index_names 0 sorted Map.empty\<rparr>))"

definition registry_lookup :: "registry \<Rightarrow> string \<Rightarrow> registry_entry option" where
  "registry_lookup r name = map_option (\<lambda>i. rg_entries r ! i) (rg_names r (normalize_identifier name))"

definition registry_by_id :: "registry \<Rightarrow> string \<Rightarrow> registry_entry option" where
  "registry_by_id r name = map_option (\<lambda>i. rg_entries r ! i) (rg_ids r (normalize_identifier name))"

definition canonical_id :: "registry \<Rightarrow> string \<Rightarrow> string" where
  "canonical_id r name = (case registry_lookup r name of Some e \<Rightarrow> re_id e | None \<Rightarrow> normalize_identifier name)"

subsection \<open>Overlays\<close>

record entry_override =
  eo_id :: string
  eo_label :: "string option"
  eo_description :: "string option"
  eo_categories :: "string list option"
  eo_icon :: "string option"
  eo_domain :: "string option"
  eo_docs_url :: "string option"
  eo_priority :: "priority option"
  eo_availability :: "string option"
  eo_aliases :: "string list"
  eo_models :: "string list option"
  eo_onboarding :: "string list option"
  eo_extensions :: "(string \<times> string) list"

record overlay =
  ov_add :: "registry_entry list"
  ov_override :: "entry_override list"
  ov_remove :: "string list"

definition set_or :: "'a option \<Rightarrow> 'a \<Rightarrow> 'a" where
  "set_or v old = (case v of Some new \<Rightarrow> new | None \<Rightarrow> old)"

fun add_aliases :: "string \<Rightarrow> string list \<Rightarrow> string list \<Rightarrow> string list" where
  "add_aliases entry_id own [] = own"
| "add_aliases entry_id own (a # as) =
     add_aliases entry_id
       (if normalize_identifier a \<notin> set (map normalize_identifier own) \<and> normalize_identifier a \<noteq> entry_id
        then own @ [a] else own) as"

definition put_extension :: "string \<times> string \<Rightarrow> (string \<times> string) list \<Rightarrow> (string \<times> string) list" where
  "put_extension kv m =
     (if map_of m (fst kv) = None then m @ [kv] else map (\<lambda>(k, v). if k = fst kv then kv else (k, v)) m)"

definition apply_override :: "entry_override \<Rightarrow> registry_entry \<Rightarrow> registry_entry" where
  "apply_override o' e =
     e\<lparr>re_label := set_or (eo_label o') (re_label e), re_description := set_or (eo_description o') (re_description e),
       re_categories := set_or (eo_categories o') (re_categories e), re_icon := set_or (eo_icon o') (re_icon e),
       re_domain := set_or (eo_domain o') (re_domain e), re_docs_url := set_or (eo_docs_url o') (re_docs_url e),
       re_priority := set_or (eo_priority o') (re_priority e),
       re_availability := set_or (eo_availability o') (re_availability e),
       re_aliases := add_aliases (re_id e) (re_aliases e) (eo_aliases o'),
       re_models := set_or (eo_models o') (re_models e), re_onboarding := set_or (eo_onboarding o') (re_onboarding e),
       re_extensions := fold put_extension (eo_extensions o') (re_extensions e)\<rparr>"

fun overlay_removed :: "string set \<Rightarrow> string set \<Rightarrow> string list \<Rightarrow> registry_error + string set" where
  "overlay_removed ids removed [] = Inr removed"
| "overlay_removed ids removed (raw # rest) =
     (let x = normalize_identifier raw in
      if x \<notin> ids then Inl (RemovesUnknown x)
      else if x \<in> removed then Inl (RemovesTwice x)
      else overlay_removed ids (insert x removed) rest)"

text \<open>\<open>position\<close> is the index of the base entries by ID.\<close>

fun overlay_overridden ::
    "(string \<rightharpoonup> nat) \<Rightarrow> string set \<Rightarrow> string set \<Rightarrow> registry_entry list \<Rightarrow> entry_override list \<Rightarrow>
     registry_error + registry_entry list" where
  "overlay_overridden position removed overridden base [] = Inr base"
| "overlay_overridden position removed overridden base (o' # rest) =
     (let x = normalize_identifier (eo_id o') in
      case position x of
        None \<Rightarrow> Inl (OverridesUnknown x)
      | Some i \<Rightarrow>
          (if x \<in> removed then Inl (OverridesRemoved x)
           else if x \<in> overridden then Inl (OverridesTwice x)
           else overlay_overridden position removed (insert x overridden)
                  (base[i := apply_override o' (base ! i)]) rest))"

definition with_overlay ::
    "registry_env \<Rightarrow> overlay \<Rightarrow> string list option \<Rightarrow> registry \<Rightarrow> registry_error + registry" where
  "with_overlay env ov runtimes r =
     (let base = rg_entries r; position = index_ids 0 base Map.empty in
      case overlay_removed (set (map re_id base)) {} (ov_remove ov) of
        Inl err \<Rightarrow> Inl err
      | Inr removed \<Rightarrow>
          (case overlay_overridden position removed {} base (ov_override ov) of
             Inl err \<Rightarrow> Inl err
           | Inr changed \<Rightarrow>
               (case find_first (\<lambda>e. if normalize_identifier (re_id e) \<in> set (map re_id base)
                                     then Some (normalize_identifier (re_id e)) else None) (ov_add ov) of
                  Some x \<Rightarrow> Inl (AddsExisting x)
                | None \<Rightarrow> new_registry env (filter (\<lambda>e. re_id e \<notin> removed) changed @ ov_add ov) runtimes)))"

end
