(* ===== verification/Registry_Guarantees.thy ===== *)
theory Registry_Guarantees
  imports Registry "HOL-Library.Multiset"
begin

text \<open>
  What the registry guarantees. The first part is about identifiers: normalizing is idempotent, so a
  validated entry validates to itself. The second part turns validation and the indices into facts
  about entries and names; the properties follow from them.
\<close>

subsection \<open>Identifiers\<close>

definition lower_letter :: "char \<Rightarrow> bool" where
  "lower_letter c \<longleftrightarrow> 97 \<le> byte c \<and> byte c \<le> 122"

lemma byte_char_of [simp]: "byte (char_of n) = n mod 256"
  by (simp add: byte_def)

lemma byte_inject: "byte a = byte b \<longleftrightarrow> a = b"
  by (simp add: byte_def)

lemma lower_byte_not_letter [dest]: "\<not> lower_letter (lower_byte a) \<Longrightarrow> lower_byte a = a"
  by (auto simp: lower_byte_def lower_letter_def)

lemma lower_byte_idem [simp]: "lower_byte (lower_byte a) = lower_byte a"
  by (auto simp: lower_byte_def)

lemma lower_byte_high: "128 \<le> byte (lower_byte a) \<Longrightarrow> lower_byte a = a"
  by (auto simp: lower_byte_def)

lemma lower_letter_ik [simp]: "lower_letter (CHR ''i'')" "lower_letter (CHR ''k'')"
  by (simp_all add: lower_letter_def byte_def)

lemma to_lower_Nil_iff [simp]: "to_lower s = [] \<longleftrightarrow> s = []"
  by (cases s) (auto split: list.splits if_splits)

lemma Nil_to_lower_iff [simp]: "[] = to_lower s \<longleftrightarrow> s = []"
  by (metis to_lower_Nil_iff)


text \<open>The steps of \<open>to_lower\<close>: the two runes it maps to a letter, and a byte by itself.\<close>

definition dotted_i :: "string \<Rightarrow> bool" where
  "dotted_i s \<longleftrightarrow> take 2 (map byte s) = [196, 176]"

definition kelvin :: "string \<Rightarrow> bool" where
  "kelvin s \<longleftrightarrow> take 3 (map byte s) = [226, 132, 170]"

lemma to_lower_dotted: "dotted_i (a # b # r) \<Longrightarrow> to_lower (a # b # r) = CHR ''i'' # to_lower r"
  by (simp add: dotted_i_def)

lemma to_lower_kelvin: "kelvin (a # b # c # r) \<Longrightarrow> to_lower (a # b # c # r) = CHR ''k'' # to_lower r"
  by (simp add: kelvin_def)

lemma to_lower_plain: "\<not> dotted_i (a # r) \<Longrightarrow> \<not> kelvin (a # r) \<Longrightarrow> to_lower (a # r) = lower_byte a # to_lower r"
  by (cases r; cases "tl r") (auto simp: dotted_i_def kelvin_def)

declare to_lower.simps(2) [simp del]

lemma lower_induct [case_names Nil dotted kelvin plain]:
  assumes "P []"
    and "\<And>a b r. dotted_i (a # b # r) \<Longrightarrow> P r \<Longrightarrow> P (a # b # r)"
    and "\<And>a b c r. kelvin (a # b # c # r) \<Longrightarrow> P r \<Longrightarrow> P (a # b # c # r)"
    and "\<And>a r. \<not> dotted_i (a # r) \<Longrightarrow> \<not> kelvin (a # r) \<Longrightarrow> P r \<Longrightarrow> P (a # r)"
  shows "P s"
proof (induction s rule: length_induct)
  case (1 s)
  show ?case
  proof (cases "dotted_i s \<or> kelvin s")
    case True
    then consider a b r where "s = a # b # r" "dotted_i s" | a b c r where "s = a # b # c # r" "kelvin s"
      by (cases s; cases "tl s"; cases "tl (tl s)") (auto simp: dotted_i_def kelvin_def)
    then show ?thesis by cases (use 1 assms(2,3) in auto)
  next
    case False
    then show ?thesis using 1 assms(1,4) by (cases s) auto
  qed
qed

lemmas to_lower_steps = to_lower_dotted to_lower_kelvin to_lower_plain

lemma to_lower_hd: "to_lower s = c # t \<Longrightarrow> \<not> lower_letter c \<Longrightarrow> \<exists>r. s = c # r \<and> t = to_lower r"
  by (induction s rule: lower_induct) (auto simp: to_lower_steps dest: lower_byte_not_letter)

text \<open>What \<open>to_lower\<close> returns without letters was there before, at either end of the string.\<close>

lemma to_lower_prefix: "to_lower s = t @ q \<Longrightarrow> list_all (\<lambda>c. \<not> lower_letter c) t \<Longrightarrow> \<exists>r. s = t @ r \<and> q = to_lower r"
proof (induction t arbitrary: s)
  case (Cons c t)
  then obtain r where "s = c # r" "t @ q = to_lower r" using to_lower_hd [of s c "t @ q"] by auto
  with Cons show ?case by auto
qed auto

lemma to_lower_suffix: "to_lower s = q @ t \<Longrightarrow> list_all (\<lambda>c. \<not> lower_letter c) t \<Longrightarrow> \<exists>r. s = r @ t"
proof (induction s arbitrary: q rule: lower_induct)
  case (dotted a b r)
  then obtain q' where "to_lower r = q' @ t" by (cases q) (auto simp: to_lower_steps)
  with dotted show ?case by (metis append_Cons)
next
  case (kelvin a b c r)
  then obtain q' where "to_lower r = q' @ t" by (cases q) (auto simp: to_lower_steps)
  with kelvin show ?case by (metis append_Cons)
next
  case (plain a r)
  show ?case
  proof (cases q)
    case Nil
    with to_lower_prefix [of "a # r" t "[]"] plain.prems show ?thesis by auto
  next
    case (Cons c q')
    with plain have "to_lower r = q' @ t" by (simp add: to_lower_steps)
    with plain show ?thesis by (metis append_Cons)
  qed
qed auto

lemma to_lower_no_runes: "\<not> dotted_i (to_lower s) \<and> \<not> kelvin (to_lower s)"
proof -
  have l: "list_all (\<lambda>c. \<not> lower_letter c) t" if "map byte t = [196, 176] \<or> map byte t = [226, 132, 170]" for t
    using that by (auto simp: lower_letter_def map_eq_Cons_conv)
  have "dotted_i s" if d: "dotted_i (to_lower s)"
  proof -
    obtain t q where t: "to_lower s = t @ q" "map byte t = [196, 176]"
      using d by (metis append_take_drop_id dotted_i_def take_map)
    with to_lower_prefix [of s t q] l obtain r where "s = t @ r" by auto
    with t show ?thesis by (auto simp: dotted_i_def map_eq_Cons_conv)
  qed
  moreover have "kelvin s" if d: "kelvin (to_lower s)"
  proof -
    obtain t q where t: "to_lower s = t @ q" "map byte t = [226, 132, 170]"
      using d by (metis append_take_drop_id kelvin_def take_map)
    with to_lower_prefix [of s t q] l obtain r where "s = t @ r" by auto
    with t show ?thesis by (auto simp: kelvin_def map_eq_Cons_conv)
  qed
  moreover have "\<not> dotted_i (to_lower s)" if "dotted_i s"
    using that to_lower_dotted [of "s ! 0" "s ! 1" "drop 2 s"]
    by (cases s; cases "tl s") (auto simp: dotted_i_def byte_def)
  moreover have "\<not> kelvin (to_lower s)" if "kelvin s"
    using that to_lower_kelvin [of "s ! 0" "s ! 1" "s ! 2" "drop 3 s"]
    by (cases s; cases "tl s"; cases "tl (tl s)") (auto simp: kelvin_def byte_def)
  ultimately show ?thesis by blast
qed

lemma to_lower_idem [simp]: "to_lower (to_lower s) = to_lower s"
proof (induction s rule: lower_induct)
  case (dotted a b r)
  then show ?case using to_lower_no_runes [of "a # b # r"]
    by (simp add: to_lower_steps lower_byte_def byte_def)
next
  case (kelvin a b c r)
  then show ?case using to_lower_no_runes [of "a # b # c # r"]
    by (simp add: to_lower_steps lower_byte_def byte_def)
next
  case (plain a r)
  then show ?case using to_lower_no_runes [of "a # r"]
    by (simp add: to_lower_steps)
qed simp

text \<open>A white-space rune has no letters and stays one before and after other bytes.\<close>

lemma space_width_take:
  assumes "space_width xs \<noteq> 0"
  obtains t q where "xs = t @ q" and "list_all (\<lambda>n. n < 97 \<or> 122 < n) t" and "\<And>ys. space_width (t @ ys) \<noteq> 0"
proof -
  obtain a r where xs: "xs = a # r" using assms by (cases xs) auto
  show thesis
  proof (cases "a \<in> {9, 10, 11, 12, 13, 32}")
    case True
    show thesis by (rule that [of "[a]" r]) (use True xs in auto)
  next
    case a: False
    with assms xs obtain b r' where r: "r = b # r'" by (cases r) auto
    show thesis
    proof (cases "a = 194 \<and> b \<in> {133, 160}")
      case True
      show thesis by (rule that [of "[a, b]" r']) (use True xs r in auto)
    next
      case False
      with a assms xs r obtain c r'' where r': "r' = c # r''" by (cases r') (auto split: if_splits)
      show thesis
        by (rule that [of "[a, b, c]" r'']) (use a False assms xs r r' in \<open>simp_all split: if_splits\<close>, auto)
    qed
  qed
qed

lemma space_width_rev_take:
  assumes "space_width_rev xs \<noteq> 0"
  obtains t q where "xs = t @ q" and "list_all (\<lambda>n. n < 97 \<or> 122 < n) t" and "\<And>ys. space_width_rev (t @ ys) \<noteq> 0"
proof -
  have w2: "a = 194 \<and> b \<in> {133, 160}" if "space_width [a, b] = 2" for a b
    using that by (auto split: if_splits)
  have w3: "200 < a \<and> 122 < b \<and> 122 < c" if "space_width [a, b, c] = 3" for a b c
    using that by (auto split: if_splits)
  obtain a r where xs: "xs = a # r" using assms by (cases xs) auto
  show thesis
  proof (cases "a \<in> {9, 10, 11, 12, 13, 32}")
    case True
    show thesis by (rule that [of "[a]" r]) (use True xs in auto)
  next
    case a: False
    with assms xs obtain b r' where r: "r = b # r'" by (cases r) auto
    show thesis
    proof (cases "space_width [b, a] = 2")
      case True
      show thesis
        by (rule that [of "[a, b]" r']) (use a True w2 [OF True] xs r in \<open>auto simp del: space_width.simps\<close>)
    next
      case False
      with a assms xs r obtain c r'' where r': "r' = c # r''"
        by (cases r') (auto split: if_splits simp del: space_width.simps)
      have t: "space_width [c, b, a] = 3"
        using a False assms xs r r' by (auto split: if_splits simp del: space_width.simps)
      show thesis
        by (rule that [of "[a, b, c]" r''])
          (use a False t w3 [OF t] xs r r' in \<open>auto simp del: space_width.simps\<close>)
    qed
  qed
qed

lemma no_letters_bytes: "list_all (\<lambda>n. n < 97 \<or> 122 < n) (map byte t) \<Longrightarrow> list_all (\<lambda>c. \<not> lower_letter c) t"
  by (induction t) (auto simp: lower_letter_def)

lemma space_width_to_lower: "space_width (map byte s) = 0 \<Longrightarrow> space_width (map byte (to_lower s)) = 0"
proof (rule ccontr)
  assume z: "space_width (map byte s) = 0" and n: "space_width (map byte (to_lower s)) \<noteq> 0"
  obtain t q where t: "map byte (to_lower s) = t @ q" "list_all (\<lambda>n. n < 97 \<or> 122 < n) t"
      "\<And>ys. space_width (t @ ys) \<noteq> 0"
    using space_width_take [OF n] by metis
  then obtain u v where u: "to_lower s = u @ v" "t = map byte u" by (auto simp: map_eq_append_conv)
  with t no_letters_bytes to_lower_prefix obtain r where "s = u @ r" by metis
  with z t(3) [of "map byte r"] u(2) show False by simp
qed

lemma space_width_rev_to_lower:
  "space_width_rev (map byte (rev s)) = 0 \<Longrightarrow> space_width_rev (map byte (rev (to_lower s))) = 0"
proof (rule ccontr)
  assume z: "space_width_rev (map byte (rev s)) = 0" and n: "space_width_rev (map byte (rev (to_lower s))) \<noteq> 0"
  obtain t q where t: "map byte (rev (to_lower s)) = t @ q" "list_all (\<lambda>n. n < 97 \<or> 122 < n) t"
      "\<And>ys. space_width_rev (t @ ys) \<noteq> 0"
    using space_width_rev_take [OF n] by metis
  then obtain u v where u: "rev (to_lower s) = u @ v" "t = map byte u" by (auto simp: map_eq_append_conv)
  from u(1) have "to_lower s = rev v @ rev u" by (metis rev_append rev_rev_ident)
  moreover have "list_all (\<lambda>c. \<not> lower_letter c) (rev u)" using t(2) u(2) no_letters_bytes by auto
  ultimately obtain r where "s = r @ rev u" using to_lower_suffix by blast
  with z t(3) [of "map byte (rev r)"] u(2) show False by simp
qed

lemma trimmed_iff:
  "trim_space s = s \<longleftrightarrow> s = [] \<or> (space_width (map byte s) = 0 \<and> space_width_rev (map byte (rev s)) = 0)"
proof
  assume e: "trim_space s = s"
  obtain p where p: "trim_by space_width s = s @ p" using trim_space_prefix [of s] e by auto
  obtain p' where p': "s = p' @ trim_by space_width s" using trim_by_suffix by blast
  with p have "length s = length p' + (length s + length p)" by (metis length_append)
  with p have l: "trim_by space_width s = s" by simp
  then have "rev (trim_by space_width_rev (rev s)) = s" using e by (simp add: trim_space_def)
  then have "trim_by space_width_rev (rev s) = rev s" by (metis rev_rev_ident)
  with l show "s = [] \<or> (space_width (map byte s) = 0 \<and> space_width_rev (map byte (rev s)) = 0)"
    using trim_by_fixpoint [of space_width s] trim_by_fixpoint [of space_width_rev "rev s"] by auto
next
  assume "s = [] \<or> (space_width (map byte s) = 0 \<and> space_width_rev (map byte (rev s)) = 0)"
  then show "trim_space s = s" by (auto simp: trim_space_def trim_by_unchanged)
qed

lemma normalize_identifier_idem [simp]:
  "normalize_identifier (normalize_identifier s) = normalize_identifier s"
proof -
  have "trim_space (to_lower (trim_space s)) = to_lower (trim_space s)"
    using trim_space_idem [of s]
      space_width_to_lower [of "trim_space s"] space_width_rev_to_lower [of "trim_space s"]
    unfolding trimmed_iff by auto
  then show ?thesis by (simp add: normalize_identifier_def)
qed

lemma normalize_identifier_Nil [simp]: "normalize_identifier [] = []"
  by (simp add: normalize_identifier_def)

text \<open>A valid identifier is normalized already.\<close>

lemma to_lower_unchanged: "list_all (\<lambda>c. byte c < 128 \<and> lower_byte c = c) s \<Longrightarrow> to_lower s = s"
proof (induction s)
  case (Cons a s)
  then have "\<not> dotted_i (a # s)" "\<not> kelvin (a # s)" by (auto simp: dotted_i_def kelvin_def)
  with Cons show ?case by (simp add: to_lower_plain)
qed simp

lemma normalize_valid: "valid_identifier s \<Longrightarrow> normalize_identifier s = s"
proof -
  assume v: "valid_identifier s"
  have c: "33 \<le> byte c \<and> byte c < 128 \<and> lower_byte c = c" if "c \<in> set s" for c
  proof -
    have "lower_alnum c \<or> c \<in> set ''._-''"
      using v that by (cases s) (auto simp: valid_identifier_def list_all_iff)
    then show ?thesis by (auto simp: lower_alnum_def lower_byte_def byte_def)
  qed
  then have "to_lower s = s" by (intro to_lower_unchanged) (simp add: list_all_iff)
  moreover from c have "trim_space s = s" by (auto intro: trim_space_printable)
  ultimately show ?thesis by (simp add: normalize_identifier_def)
qed

subsection \<open>What validation accepts\<close>

text \<open>The names an entry answers to, and the entries whose checks pass.\<close>

definition entry_names :: "registry_entry \<Rightarrow> string list" where
  "entry_names e = re_id e # re_aliases e"

definition accepted :: "registry_env \<Rightarrow> string list option \<Rightarrow> registry_entry \<Rightarrow> bool" where
  "accepted env runtimes e \<longleftrightarrow>
     entry_error_before env runtimes 0 (normalize_fields e) = None \<and> entry_error_after env (normalize_fields e) = None \<and>
     list_all valid_identifier (entry_names (normalize_entry e))"

lemma err_if_None [simp]: "err_if b e = None \<longleftrightarrow> \<not> b"
  by (simp add: err_if_def)

lemma err_first_None [simp]: "err_first bad f xs = None \<longleftrightarrow> (\<forall>x\<in>set xs. \<not> bad x)"
  by (simp add: err_first_def find_first_None)

lemma first_error_None [simp]: "first_error es = None \<longleftrightarrow> (\<forall>e\<in>set es. e = None)"
  by (simp add: first_error_def find_first_None)

lemma entry_error_index:
  "entry_error_before env runtimes n e = None \<longleftrightarrow> entry_error_before env runtimes 0 e = None"
  by (simp add: entry_error_before_def)

lemma normalize_entry_id: "re_id (normalize_entry e) = re_id (normalize_fields e)"
  by (simp add: normalize_entry_def)

lemma normalize_entry_names: "entry_names (normalize_entry e) = map normalize_identifier (entry_names (normalize_fields e))"
  by (simp add: entry_names_def normalize_entry_def normalize_fields_def)

lemma claim_names_ok:
  "(\<exists>c. claim_names entry_id claimed ns = Inr c) \<longleftrightarrow>
     list_all valid_identifier (map normalize_identifier ns) \<and> distinct (map normalize_identifier ns) \<and>
     set (map normalize_identifier ns) \<inter> dom claimed = {}"
proof (induction ns arbitrary: claimed)
  case (Cons n ns)
  show ?case
  proof (cases "valid_identifier (normalize_identifier n) \<and> normalize_identifier n \<notin> dom claimed")
    case True
    then have e: "claim_names entry_id claimed (n # ns) = claim_names entry_id (claimed(normalize_identifier n \<mapsto> entry_id)) ns"
      by (simp add: Let_def domIff)
    show ?thesis unfolding e Cons.IH using True by auto
  qed (auto simp: Let_def)
qed simp

lemma claim_names_dom:
  "claim_names entry_id claimed ns = Inr c \<Longrightarrow> dom c = dom claimed \<union> set (map normalize_identifier ns)"
  by (induction ns arbitrary: claimed) (auto simp: Let_def split: if_splits option.splits)

text \<open>Claiming the names of one entry.\<close>

lemma claim_entry_ok:
  fixes e0 :: registry_entry
  defines "e \<equiv> normalize_fields e0" and "names \<equiv> entry_names (normalize_entry e0)"
  shows "(\<exists>c. claim_names (re_id e) claimed (re_id e # re_aliases e) = Inr c) \<longleftrightarrow>
    list_all valid_identifier names \<and> distinct names \<and> set names \<inter> dom claimed = {}"
proof -
  have "map normalize_identifier (re_id e # re_aliases e) = names"
    using normalize_entry_names [of e0] by (simp add: e_def names_def entry_names_def)
  then show ?thesis unfolding claim_names_ok by simp
qed

lemma claim_entry_dom:
  "claim_names (re_id (normalize_fields e)) claimed (re_id (normalize_fields e) # re_aliases (normalize_fields e)) = Inr c \<Longrightarrow>
     dom c = dom claimed \<union> set (entry_names (normalize_entry e))"
  using normalize_entry_names [of e] by (simp add: claim_names_dom entry_names_def del: claim_names.simps)

lemma validate_entries_ok:
  "validate_entries env runtimes n claimed es = Inr es' \<longleftrightarrow>
     list_all (accepted env runtimes) es \<and> es' = map normalize_entry es \<and>
     distinct (concat (map entry_names es')) \<and> set (concat (map entry_names es')) \<inter> dom claimed = {}"
proof (induction es arbitrary: n claimed es')
  case (Cons e0 es)
  let ?e = "normalize_fields e0" and ?names = "entry_names (normalize_entry e0)"
  note names = claim_entry_ok [of e0 claimed]
  show ?case
  proof (cases "claim_names (re_id ?e) claimed (re_id ?e # re_aliases ?e)")
    case (Inl err)
    with names have "\<not> (list_all valid_identifier ?names \<and> distinct ?names \<and> set ?names \<inter> dom claimed = {})"
      by auto
    then have "\<not> (accepted env runtimes e0 \<and> distinct ?names \<and> set ?names \<inter> dom claimed = {})"
      by (auto simp: accepted_def)
    with Inl show ?thesis by (auto simp: Let_def simp del: claim_names.simps split: option.split)
  next
    case (Inr c)
    with names have ok: "list_all valid_identifier ?names" "distinct ?names" "set ?names \<inter> dom claimed = {}"
      by blast+
    have step: "validate_entries env runtimes n claimed (e0 # es) = Inr es' \<longleftrightarrow>
        accepted env runtimes e0 \<and> (\<exists>rest. validate_entries env runtimes (n + 1) c es = Inr rest \<and> es' = normalize_entry e0 # rest)"
      using Inr ok entry_error_index [of env runtimes n ?e]
      by (auto simp: Let_def accepted_def simp del: claim_names.simps split: option.split sum.split)
    have sets: "B \<inter> (dom claimed \<union> set ?names) = {} \<longleftrightarrow> set ?names \<inter> B = {} \<and> (set ?names \<union> B) \<inter> dom claimed = {}" for B
      using ok(3) by blast
    show ?thesis
    proof (cases es')
      case Nil
      then show ?thesis unfolding step by simp
    next
      case c': (Cons e' rest)
      have "validate_entries env runtimes n claimed (e0 # es) = Inr es' \<longleftrightarrow>
          accepted env runtimes e0 \<and> e' = normalize_entry e0 \<and> validate_entries env runtimes (n + 1) c es = Inr rest"
        unfolding step unfolding c' by auto
      then show ?thesis
        unfolding Cons.IH claim_entry_dom [OF Inr] sets unfolding c' using ok(1,2) by auto
    qed
  qed
qed auto

lemma validate_registry_ok:
  "validate_registry env runtimes es = Inr es' \<longleftrightarrow>
     es \<noteq> [] \<and> list_all (accepted env runtimes) es \<and> es' = map normalize_entry es \<and>
     distinct (concat (map entry_names es'))"
  by (simp add: validate_registry_def validate_entries_ok)

text \<open>An accepted entry, normalized, is accepted and normalizes to itself.\<close>

lemma normalize_entry_idem [simp]: "normalize_entry (normalize_entry e) = normalize_entry e"
  by (simp add: normalize_entry_def normalize_fields_def)

lemma normalize_fields_idem [simp]: "normalize_fields (normalize_entry e) = normalize_entry e"
  by (simp add: normalize_entry_def normalize_fields_def)

lemma has_auth_normalize [simp]: "has_auth (normalize_entry e) ms = has_auth (normalize_fields e) ms"
  by (simp add: has_auth_def normalize_entry_def normalize_fields_def list_ex_iff)

lemma checks_before_normalized:
  "entry_error_before env runtimes 0 (normalize_entry e) = entry_error_before env runtimes 0 (normalize_fields e)"
  if "entry_error_before env runtimes 0 (normalize_fields e) = None"
proof -
  let ?f = "normalize_fields e"
  have n: "normalize_entry e = ?f\<lparr>re_auth := map normalize_identifier (re_auth ?f), re_aliases := re_aliases (normalize_entry e),
      re_categories := re_categories (normalize_entry e), re_onboarding := re_onboarding (normalize_entry e),
      re_models := re_models (normalize_entry e)\<rparr>"
    by (simp add: normalize_entry_def normalize_fields_def)
  have a: "has_auth (f\<lparr>re_auth := map normalize_identifier (re_auth f), re_aliases := as, re_categories := cs,
      re_onboarding := os, re_models := ms\<rparr>) = has_auth f" for f as cs os ms
    by (rule ext) (simp add: has_auth_def list_ex_iff)
  have "entry_error_before env runtimes 0 (normalize_entry e) = None"
    using that by (cases runtimes; subst n) (simp_all add: entry_error_before_def a anonymous_safe_def)
  with that show ?thesis by simp
qed

lemma checks_after_normalized:
  "entry_error_after env (normalize_fields e) = None \<Longrightarrow> entry_error_after env (normalize_entry e) = None"
  by (simp add: entry_error_after_def normalize_entry_def normalize_fields_def blank_def)

lemma accepted_normalize: "accepted env runtimes e \<Longrightarrow> accepted env runtimes (normalize_entry e)"
  by (simp add: accepted_def checks_before_normalized checks_after_normalized)

subsection \<open>Registries\<close>

text \<open>
  A registry as \<open>new_registry\<close> builds it: accepted entries in normal form under distinct names, the
  highest priority first, and the two indices of these entries.
\<close>

definition higher_priority :: "registry_entry \<Rightarrow> registry_entry \<Rightarrow> bool" where
  "higher_priority a b \<longleftrightarrow> priority_value b \<le> priority_value a"

definition well_formed :: "registry_env \<Rightarrow> string list option \<Rightarrow> registry \<Rightarrow> bool" where
  "well_formed env runtimes r \<longleftrightarrow>
     rg_entries r \<noteq> [] \<and> list_all (\<lambda>e. accepted env runtimes e \<and> normalize_entry e = e) (rg_entries r) \<and>
     distinct (concat (map entry_names (rg_entries r))) \<and> sorted_wrt higher_priority (rg_entries r) \<and>
     rg_ids r = index_ids 0 (rg_entries r) Map.empty \<and> rg_names r = index_names 0 (rg_entries r) Map.empty"

lemma distinct_concat_mset: "mset xs = mset ys \<Longrightarrow> distinct (concat xs) \<Longrightarrow> distinct (concat ys)"
proof -
  assume m: "mset xs = mset ys" and d: "distinct (concat xs)"
  have "mset (concat xs) = mset (concat ys)"
    unfolding mset_concat using m by (metis mset_map sum_mset_sum_list)
  with d show "distinct (concat ys)" by (metis mset_eq_imp_distinct_iff)
qed

lemma sorted_higher_priority: "sorted_wrt higher_priority es \<longleftrightarrow> sorted (map (\<lambda>e. - priority_value e) es)"
  by (induction es) (auto simp: higher_priority_def)

lemma new_registry_ok:
  "new_registry env es runtimes = Inr r \<Longrightarrow>
     well_formed env runtimes r \<and> mset (rg_entries r) = image_mset normalize_entry (mset es)"
proof -
  assume n: "new_registry env es runtimes = Inr r"
  then obtain es' where v: "validate_registry env runtimes es = Inr es'"
    by (auto simp: new_registry_def split: sum.splits)
  let ?sorted = "sort_key (\<lambda>e. - priority_value e) es'"
  from n v have r: "r = \<lparr>rg_entries = ?sorted, rg_ids = index_ids 0 ?sorted Map.empty, rg_names = index_names 0 ?sorted Map.empty\<rparr>"
    by (simp add: new_registry_def Let_def)
  from v have es': "es' = map normalize_entry es" "es \<noteq> []" "list_all (accepted env runtimes) es"
      "distinct (concat (map entry_names es'))"
    by (auto simp: validate_registry_ok)
  have "mset (map entry_names es') = mset (map entry_names ?sorted)" by simp
  from distinct_concat_mset [OF this es'(4)] have "distinct (concat (map entry_names ?sorted))" .
  moreover have "?sorted \<noteq> []"
    using es'(1,2) by (metis length_sort length_0_conv map_is_Nil_conv)
  ultimately show ?thesis
    using es' by (auto simp: r well_formed_def sorted_higher_priority list_all_iff accepted_normalize)
qed

lemma index_ids_other: "x \<notin> re_id ` set es \<Longrightarrow> index_ids n es m x = m x"
  by (induction es arbitrary: n m) auto

lemma index_ids_Some:
  "x \<in> re_id ` set es \<Longrightarrow> \<exists>i<length es. index_ids n es m x = Some (n + i) \<and> re_id (es ! i) = x"
proof (induction es arbitrary: n m)
  case (Cons e es)
  show ?case
  proof (cases "x \<in> re_id ` set es")
    case True
    then obtain i where "i < length es" "index_ids (n + 1) es (m(re_id e \<mapsto> n)) x = Some (n + 1 + i)" "re_id (es ! i) = x"
      using Cons.IH by blast
    then show ?thesis by (intro exI [of _ "Suc i"]) simp
  next
    case False
    with Cons.prems show ?thesis by (intro exI [of _ 0]) (auto simp: index_ids_other)
  qed
qed simp

lemma fold_alias: "fold (\<lambda>a m. m(a \<mapsto> n)) as m x = (if x \<in> set as then Some n else m x)"
  by (induction as arbitrary: m) auto

lemma index_names_other: "x \<notin> set (concat (map entry_names es)) \<Longrightarrow> index_names n es m x = m x"
  by (induction es arbitrary: n m) (auto simp: entry_names_def fold_alias)

lemma index_names_Some:
  "x \<in> set (concat (map entry_names es)) \<Longrightarrow>
     \<exists>i<length es. index_names n es m x = Some (n + i) \<and> x \<in> set (entry_names (es ! i))"
proof (induction es arbitrary: n m)
  case (Cons e es)
  show ?case
  proof (cases "x \<in> set (concat (map entry_names es))")
    case True
    then obtain i where "i < length es" "x \<in> set (entry_names (es ! i))"
        "index_names (n + 1) es (fold (\<lambda>a m. m(a \<mapsto> n)) (re_aliases e) (m(re_id e \<mapsto> n))) x = Some (n + 1 + i)"
      using Cons.IH by blast
    then show ?thesis by (intro exI [of _ "Suc i"]) simp
  next
    case False
    with Cons.prems show ?thesis
      by (intro exI [of _ 0]) (auto simp: index_names_other entry_names_def fold_alias)
  qed
qed simp

text \<open>A name belongs to one entry, and an entry's id is one of its names.\<close>

lemma names_unique:
  "distinct (concat (map entry_names es)) \<Longrightarrow> a \<in> set es \<Longrightarrow> b \<in> set es \<Longrightarrow>
     x \<in> set (entry_names a) \<Longrightarrow> x \<in> set (entry_names b) \<Longrightarrow> a = b"
  by (induction es) auto

lemma id_is_name [simp]: "re_id e \<in> set (entry_names e)"
  by (simp add: entry_names_def)

lemma lookup_ok:
  assumes "well_formed env runtimes r"
  shows "registry_lookup r name = Some e \<longleftrightarrow>
    e \<in> set (rg_entries r) \<and> normalize_identifier name \<in> set (entry_names e)"
proof (cases "normalize_identifier name \<in> set (concat (map entry_names (rg_entries r)))")
  case True
  from index_names_Some [OF this, of 0 Map.empty] obtain i where
    i: "i < length (rg_entries r)" "rg_names r (normalize_identifier name) = Some i"
      "normalize_identifier name \<in> set (entry_names (rg_entries r ! i))"
    using assms by (auto simp: well_formed_def)
  then show ?thesis
    using assms names_unique [of "rg_entries r" e "rg_entries r ! i" "normalize_identifier name"]
    by (auto simp: registry_lookup_def well_formed_def)
next
  case False
  then show ?thesis
    using assms index_names_other [OF False, of 0 Map.empty]
    by (auto simp: registry_lookup_def well_formed_def)
qed

lemma by_id_ok:
  assumes "well_formed env runtimes r"
  shows "registry_by_id r name = Some e \<longleftrightarrow> e \<in> set (rg_entries r) \<and> re_id e = normalize_identifier name"
proof (cases "normalize_identifier name \<in> re_id ` set (rg_entries r)")
  case True
  from index_ids_Some [OF this, of 0 Map.empty] obtain i where
    i: "i < length (rg_entries r)" "rg_ids r (normalize_identifier name) = Some i"
      "re_id (rg_entries r ! i) = normalize_identifier name"
    using assms by (auto simp: well_formed_def)
  then show ?thesis
    using assms names_unique [of "rg_entries r" e "rg_entries r ! i" "normalize_identifier name"]
    by (auto simp: registry_by_id_def well_formed_def) (metis id_is_name)
next
  case False
  then have "re_id e = normalize_identifier name \<longrightarrow> e \<notin> set (rg_entries r)" by (metis image_eqI)
  then show ?thesis
    using assms index_ids_other [OF False, of 0 Map.empty]
    by (auto simp: registry_by_id_def well_formed_def)
qed

lemma well_formed_validates: "well_formed env runtimes r \<Longrightarrow> new_registry env (rg_entries r) runtimes = Inr r"
proof -
  assume w: "well_formed env runtimes r"
  then have m: "map normalize_entry (rg_entries r) = rg_entries r"
    by (auto simp: well_formed_def list_all_iff intro: map_idI)
  with w have "validate_registry env runtimes (rg_entries r) = Inr (rg_entries r)"
    by (auto simp: validate_registry_ok well_formed_def list_all_iff)
  moreover have "sort_key (\<lambda>e. - priority_value e) (rg_entries r) = rg_entries r"
    using w by (simp add: well_formed_def sorted_higher_priority sort_key_id_if_sorted)
  ultimately show ?thesis using w by (cases r) (simp add: new_registry_def well_formed_def Let_def)
qed

lemma normal_entry:
  "well_formed env runtimes r \<Longrightarrow> e \<in> set (rg_entries r) \<Longrightarrow> accepted env runtimes e \<and> normalize_entry e = e"
  by (simp add: well_formed_def list_all_iff)

lemma normal_fields: "normalize_entry e = e \<Longrightarrow> normalize_fields e = e"
  by (metis normalize_fields_idem)

lemma normal_has_auth: "normalize_entry e = e \<Longrightarrow> has_auth e ms \<longleftrightarrow> set (re_auth e) \<inter> set ms \<noteq> {}"
proof -
  assume n: "normalize_entry e = e"
  have "re_auth (normalize_entry e) = map normalize_identifier (re_auth e)"
    by (simp add: normalize_entry_def)
  with n have "map normalize_identifier (re_auth e) = re_auth e" by simp
  then have "normalize_identifier m = m" if "m \<in> set (re_auth e)" for m
    using that by (metis imageE image_set normalize_identifier_idem)
  then show ?thesis by (auto simp: has_auth_def list_ex_iff)
qed

subsection \<open>Overlays\<close>

text \<open>
  What an overlay may not change: everything of an entry but its presentation, priority, availability
  and curation. The names of an entry only grow.
\<close>

definition core_facts :: "registry_entry \<Rightarrow> registry_entry" where
  "core_facts e =
     e\<lparr>re_label := [], re_description := [], re_categories := [], re_icon := [], re_domain := [], re_docs_url := [],
       re_priority := NotFinite, re_availability := [], re_aliases := [], re_models := [], re_onboarding := [],
       re_extensions := []\<rparr>"

definition kept :: "registry_entry \<Rightarrow> registry_entry \<Rightarrow> bool" where
  "kept e e' \<longleftrightarrow> core_facts e' = core_facts e \<and> set (entry_names e) \<subseteq> set (entry_names e')"

lemma kept_refl [simp]: "kept e e"
  by (simp add: kept_def)

lemma kept_trans: "kept a b \<Longrightarrow> kept b c \<Longrightarrow> kept a c"
  by (auto simp: kept_def)

lemma core_facts_id [simp]: "re_id (core_facts e) = re_id e"
  by (simp add: core_facts_def)

lemma kept_id: "kept e e' \<Longrightarrow> re_id e' = re_id e"
  unfolding kept_def by (metis core_facts_id)

lemma add_aliases_keeps: "set own \<subseteq> set (add_aliases entry_id own as)"
  by (induction entry_id own as rule: add_aliases.induct) (auto split: if_splits)

lemma apply_override_kept: "kept e (apply_override o' e)"
  using add_aliases_keeps [of "re_aliases e" "re_id e" "eo_aliases o'"]
  by (auto simp: kept_def core_facts_def apply_override_def entry_names_def)

lemma override_at_kept: "list_all2 kept base (base[i := apply_override o' (base ! i)])"
proof (rule list_all2_all_nthI)
  fix j
  assume "j < length base"
  then show "kept (base ! j) (base[i := apply_override o' (base ! i)] ! j)"
    by (cases "i = j") (simp_all add: apply_override_kept)
qed simp

lemma overlay_overridden_kept:
  "overlay_overridden position removed overridden base os = Inr changed \<Longrightarrow> list_all2 kept base changed"
proof (induction position removed overridden base os arbitrary: changed rule: overlay_overridden.induct)
  case (2 position removed overridden base o' rest)
  then obtain i where "list_all2 kept (base[i := apply_override o' (base ! i)]) changed"
    by (auto simp: Let_def split: option.splits if_splits)
  moreover have "list_all2 kept base (base[i := apply_override o' (base ! i)])"
    by (rule override_at_kept)
  ultimately show ?case using list_all2_trans [of kept kept kept] kept_trans by blast
qed (simp add: list_all2_refl)

lemma overlay_removed_set:
  "overlay_removed ids removed xs = Inr removed' \<Longrightarrow>
     removed' = removed \<union> normalize_identifier ` set xs \<and> normalize_identifier ` set xs \<subseteq> ids"
  by (induction ids removed xs rule: overlay_removed.induct) (auto simp: Let_def split: if_splits)

text \<open>Normalizing keeps what an overlay keeps.\<close>

lemma core_facts_normalize: "core_facts a = core_facts b \<Longrightarrow> core_facts (normalize_entry a) = core_facts (normalize_entry b)"
proof -
  have "core_facts (normalize_entry e) = core_facts (normalize_entry (core_facts e))" for e
    by (simp add: core_facts_def normalize_entry_def normalize_fields_def)
  then show "core_facts a = core_facts b \<Longrightarrow> core_facts (normalize_entry a) = core_facts (normalize_entry b)" by metis
qed

lemma entry_names_normalize: "set (entry_names (normalize_entry a)) = normalize_identifier ` set (entry_names a)"
  by (auto simp: entry_names_def normalize_entry_def normalize_fields_def)

lemma kept_normalize:
  assumes k: "kept e e'" and n: "normalize_entry e = e"
  shows "kept e (normalize_entry e')"
proof -
  have "set (entry_names e) = normalize_identifier ` set (entry_names e)"
    using entry_names_normalize [of e] n by simp
  also have "\<dots> \<subseteq> set (entry_names (normalize_entry e'))"
    unfolding entry_names_normalize using k by (intro image_mono) (simp add: kept_def)
  finally show ?thesis
    using k n core_facts_normalize [of e' e] by (simp add: kept_def)
qed

text \<open>What an overlay that applies does to the entries.\<close>

lemma with_overlay_ok:
  assumes w: "well_formed env0 runtimes0 r" and o: "with_overlay env ov runtimes r = Inr r'"
  obtains changed where "list_all2 kept (rg_entries r) changed" and "well_formed env runtimes r'"
    and "set (rg_entries r') = normalize_entry `
      ({e \<in> set changed. re_id e \<notin> normalize_identifier ` set (ov_remove ov)} \<union> set (ov_add ov))"
    and "\<forall>a\<in>set (ov_add ov). normalize_identifier (re_id a) \<notin> re_id ` set (rg_entries r)"
    and "normalize_identifier ` set (ov_remove ov) \<subseteq> re_id ` set (rg_entries r)"
proof -
  from o obtain removed changed where
    rm: "overlay_removed (set (map re_id (rg_entries r))) {} (ov_remove ov) = Inr removed" and
    ch: "overlay_overridden (index_ids 0 (rg_entries r) Map.empty) removed {} (rg_entries r) (ov_override ov) = Inr changed" and
    ad: "find_first (\<lambda>e. if normalize_identifier (re_id e) \<in> set (map re_id (rg_entries r))
                    then Some (normalize_identifier (re_id e)) else None) (ov_add ov) = None" and
    nr: "new_registry env (filter (\<lambda>e. re_id e \<notin> removed) changed @ ov_add ov) runtimes = Inr r'"
    by (auto simp: with_overlay_def Let_def split: sum.splits option.splits)
  from new_registry_ok [OF nr] have wf: "well_formed env runtimes r'"
    and m: "mset (rg_entries r') = mset (map normalize_entry (filter (\<lambda>e. re_id e \<notin> removed) changed @ ov_add ov))"
    by auto
  from mset_eq_setD [OF m] have "set (rg_entries r') = normalize_entry `
      ({e \<in> set changed. re_id e \<notin> normalize_identifier ` set (ov_remove ov)} \<union> set (ov_add ov))"
    using overlay_removed_set [OF rm] by auto
  moreover have "\<forall>a\<in>set (ov_add ov). normalize_identifier (re_id a) \<notin> re_id ` set (rg_entries r)"
    using ad by (auto simp: find_first_None split: if_splits)
  moreover have "normalize_identifier ` set (ov_remove ov) \<subseteq> re_id ` set (rg_entries r)"
    using overlay_removed_set [OF rm] by simp
  ultimately show thesis using that overlay_overridden_kept [OF ch] wf by blast
qed

lemma normalize_entry_re_id: "re_id (normalize_entry e) = normalize_identifier (re_id e)"
  by (simp add: normalize_entry_def normalize_fields_def)

text \<open>Where an entry of the result comes from, and where an entry of the base goes.\<close>

lemma with_overlay_entry:
  assumes w: "well_formed env0 runtimes0 r" and o: "with_overlay env ov runtimes r = Inr r'" and e': "e' \<in> set (rg_entries r')"
  shows "(\<exists>e\<in>set (rg_entries r). kept e e' \<and> re_id e \<notin> normalize_identifier ` set (ov_remove ov)) \<or>
    re_id e' \<notin> re_id ` set (rg_entries r)"
proof -
  obtain changed where c: "list_all2 kept (rg_entries r) changed"
    "set (rg_entries r') = normalize_entry `
      ({e \<in> set changed. re_id e \<notin> normalize_identifier ` set (ov_remove ov)} \<union> set (ov_add ov))"
    "\<forall>a\<in>set (ov_add ov). normalize_identifier (re_id a) \<notin> re_id ` set (rg_entries r)"
    by (rule with_overlay_ok [OF w o]) (rule that; assumption)
  from c(2) e' obtain x where x: "e' = normalize_entry x"
    "(x \<in> set changed \<and> re_id x \<notin> normalize_identifier ` set (ov_remove ov)) \<or> x \<in> set (ov_add ov)" by auto
  from x(2) show ?thesis
  proof
    assume a: "x \<in> set changed \<and> re_id x \<notin> normalize_identifier ` set (ov_remove ov)"
    with c(1) obtain e where "e \<in> set (rg_entries r)" "kept e x" by (metis list_all2_conv_all_nth in_set_conv_nth)
    with a show ?thesis
      using x(1) kept_normalize normal_entry [OF w] kept_id by metis
  next
    assume "x \<in> set (ov_add ov)"
    with c(3) x(1) show ?thesis by (simp add: normalize_entry_re_id)
  qed
qed

lemma with_overlay_keeps:
  assumes w: "well_formed env0 runtimes0 r" and o: "with_overlay env ov runtimes r = Inr r'"
    and e: "e \<in> set (rg_entries r)" "re_id e \<notin> normalize_identifier ` set (ov_remove ov)"
  shows "\<exists>e'\<in>set (rg_entries r'). kept e e'"
proof -
  obtain changed where c: "list_all2 kept (rg_entries r) changed"
    "set (rg_entries r') = normalize_entry `
      ({e \<in> set changed. re_id e \<notin> normalize_identifier ` set (ov_remove ov)} \<union> set (ov_add ov))"
    by (rule with_overlay_ok [OF w o]) (rule that; assumption)
  from c(1) e(1) obtain x where x: "x \<in> set changed" "kept e x" by (metis list_all2_conv_all_nth in_set_conv_nth)
  with c(2) e kept_id [OF x(2)] have "normalize_entry x \<in> set (rg_entries r')" by auto
  then show ?thesis using kept_normalize [OF x(2)] normal_entry [OF w e(1)] by blast
qed

subsection \<open>Properties\<close>

text \<open>
  C7. A registry answers exactly for the names its entries declare: \<^verbatim>\<open>Lookup\<close> finds the one entry
  whose id or alias a name normalizes to, \<^verbatim>\<open>ByID\<close> the one with that id, \<^verbatim>\<open>CanonicalID\<close> its id. The
  entries are the given ones, normalized, the highest priority first.
\<close>
theorem registry_answers_its_names:
  assumes "new_registry env es runtimes = Inr r"
  shows "(registry_lookup r name = Some e \<longleftrightarrow>
      e \<in> set (rg_entries r) \<and> normalize_identifier name \<in> set (re_id e # re_aliases e)) \<and>
    (registry_by_id r name = Some e \<longleftrightarrow> e \<in> set (rg_entries r) \<and> re_id e = normalize_identifier name) \<and>
    (registry_lookup r name = Some e \<longrightarrow> canonical_id r name = re_id e) \<and>
    mset (rg_entries r) = image_mset normalize_entry (mset es) \<and>
    sorted_wrt (\<lambda>a b. priority_value b \<le> priority_value a) (rg_entries r)"
proof -
  from new_registry_ok [OF assms] have w: "well_formed env runtimes r"
    and m: "mset (rg_entries r) = image_mset normalize_entry (mset es)" by auto
  moreover have "sorted_wrt (\<lambda>a b. priority_value b \<le> priority_value a) (rg_entries r)"
    using w by (simp add: well_formed_def higher_priority_def [abs_def])
  moreover have "registry_lookup r name = Some e \<longrightarrow> canonical_id r name = re_id e"
    by (simp add: canonical_id_def)
  ultimately show ?thesis
    using lookup_ok [OF w, of name e, unfolded entry_names_def] by_id_ok [OF w, of name e] by blast
qed

text \<open>
  C5. Every entry of a registry is one a product can safely offer: its auth methods match what it
  requires and whom it serves, a runtime the product runs executes it when it is available, an OAuth
  method has an adapter, a risk has a notice, and an entry for anonymous automation is an available
  OpenAI-compatible one that needs no key, has no risk and is reached over HTTPS at a public host.
\<close>
theorem registry_entries_safe:
  assumes "new_registry env es runtimes = Inr r" and "e \<in> set (rg_entries r)"
  shows "(re_requires_key e \<longrightarrow> ''api_key'' \<in> set (re_auth e)) \<and>
    (re_scope e = ''personal'' \<longrightarrow> ''none'' \<notin> set (re_auth e)) \<and>
    (re_client_only e \<longrightarrow> re_availability e = ''client_only'' \<and> re_scope e = ''gateway_client'') \<and>
    (re_availability e = ''available'' \<and> set (re_auth e) \<inter> {''oauth_browser'', ''oauth_device'', ''token_import''} \<noteq> {} \<longrightarrow>
      valid_identifier (re_auth_adapter e)) \<and>
    (\<forall>ts. runtimes = Some ts \<and> re_availability e = ''available'' \<longrightarrow> re_runtime e \<in> normalize_identifier ` set ts) \<and>
    (re_risk e \<noteq> ''green'' \<longrightarrow> \<not> blank (re_risk_notice e)) \<and>
    (re_anonymous e \<longrightarrow> re_availability e = ''available'' \<and> re_runtime e = ''openai_compatible'' \<and>
      \<not> re_requires_key e \<and> ''none'' \<in> set (re_auth e) \<and> re_risk e = ''green'' \<and> public_https env (re_base_url e))"
proof -
  from new_registry_ok [OF assms(1)] have "well_formed env runtimes r" by simp
  from normal_entry [OF this assms(2)] have n: "normalize_entry e = e" and a: "accepted env runtimes e" by auto
  from a normal_fields [OF n] have "entry_error_before env runtimes 0 e = None" by (simp add: accepted_def)
  then have "(re_requires_key e \<longrightarrow> has_auth e [''api_key'']) \<and> (re_scope e = ''personal'' \<longrightarrow> \<not> has_auth e [''none'']) \<and>
      (re_client_only e \<longrightarrow> re_availability e = ''client_only'' \<and> re_scope e = ''gateway_client'') \<and>
      (has_auth e [''oauth_browser'', ''oauth_device'', ''token_import''] \<and> re_availability e = ''available'' \<longrightarrow>
        valid_identifier (re_auth_adapter e)) \<and>
      (\<forall>ts. runtimes = Some ts \<and> re_availability e = ''available'' \<longrightarrow> re_runtime e \<in> normalize_identifier ` set ts) \<and>
      (re_risk e \<noteq> ''green'' \<longrightarrow> \<not> blank (re_risk_notice e)) \<and>
      (re_anonymous e \<longrightarrow> anonymous_safe e \<and> public_https env (re_base_url e))"
    by (simp add: entry_error_before_def) (cases runtimes; simp; blast)
  then show ?thesis
    unfolding normal_has_auth [OF n] anonymous_safe_def by simp
qed

text \<open>
  C6. An overlay never changes the wire and safety facts of an entry it keeps: what a name meant in the
  base registry it means in the result, with equal facts, unless the entry was removed; an id that
  was removed is gone; and an entry of the result with an id of the base has the base's facts.
\<close>
theorem overlay_keeps_core_facts:
  assumes "new_registry env es runtimes = Inr r" and "with_overlay env ov runtimes' r = Inr r'"
  shows "(\<forall>name e. registry_lookup r name = Some e \<and> re_id e \<notin> normalize_identifier ` set (ov_remove ov) \<longrightarrow>
      (\<exists>e'. registry_lookup r' name = Some e' \<and> core_facts e' = core_facts e)) \<and>
    (\<forall>i\<in>set (ov_remove ov). registry_by_id r' i = None) \<and>
    (\<forall>e e'. e \<in> set (rg_entries r) \<and> e' \<in> set (rg_entries r') \<and> re_id e' = re_id e \<longrightarrow> core_facts e' = core_facts e)"
proof -
  from new_registry_ok [OF assms(1)] have w: "well_formed env runtimes r" by simp
  have w': "well_formed env runtimes' r'" and rm: "normalize_identifier ` set (ov_remove ov) \<subseteq> re_id ` set (rg_entries r)"
    by (rule with_overlay_ok [OF w assms(2)], assumption)+
  note from_base = with_overlay_entry [OF w assms(2)]
  have "\<exists>e'. registry_lookup r' name = Some e' \<and> core_facts e' = core_facts e"
    if "registry_lookup r name = Some e" "re_id e \<notin> normalize_identifier ` set (ov_remove ov)" for name e
  proof -
    from that(1) have e: "e \<in> set (rg_entries r)" "normalize_identifier name \<in> set (entry_names e)"
      by (simp_all add: lookup_ok [OF w])
    with with_overlay_keeps [OF w assms(2) e(1) that(2)] show ?thesis
      by (auto simp: lookup_ok [OF w'] kept_def)
  qed
  moreover have "registry_by_id r' i = None" if i: "i \<in> set (ov_remove ov)" for i
  proof (rule ccontr)
    assume "registry_by_id r' i \<noteq> None"
    then obtain e' where e': "e' \<in> set (rg_entries r')" "re_id e' = normalize_identifier i"
      by (auto simp: by_id_ok [OF w'])
    with from_base [OF e'(1)] rm i show False by (metis imageI kept_id subsetD)
  qed
  moreover have "core_facts e' = core_facts e"
    if e: "e \<in> set (rg_entries r)" "e' \<in> set (rg_entries r')" "re_id e' = re_id e" for e e'
  proof -
    from from_base [OF e(2)] e obtain b where b: "b \<in> set (rg_entries r)" "kept b e'" by (metis imageI)
    then have "b = e"
      using w e names_unique [of "rg_entries r" b e "re_id e"] kept_id [OF b(2)]
      by (auto simp: well_formed_def) (metis id_is_name)
    with b show ?thesis by (simp add: kept_def)
  qed
  ultimately show ?thesis by blast
qed

text \<open>
  C8. A registry validates to itself: what \<^verbatim>\<open>Entries\<close> exports builds the same registry again.
\<close>
theorem registry_revalidates:
  assumes "new_registry env es runtimes = Inr r"
  shows "new_registry env (rg_entries r) runtimes = Inr r"
  using new_registry_ok [OF assms] well_formed_validates by blast

subsection \<open>Witnesses\<close>

definition demo_env :: registry_env where
  "demo_env = \<lparr>rn_url = (\<lambda>u. Some (''https'', ''api.kilo.ai'', ''api.kilo.ai'')), rn_is_ip = (\<lambda>_. False), rn_json_valid = (\<lambda>_. True)\<rparr>"

definition demo_entry :: "string \<Rightarrow> string list \<Rightarrow> priority \<Rightarrow> registry_entry" where
  "demo_entry i aliases prio =
     \<lparr>re_id = i, re_aliases = aliases, re_label = ''L'', re_description = ''D'', re_categories = [],
      re_runtime = ''rt'', re_protocol = ''p'', re_availability = ''planned'', re_auth = [''none''],
      re_scope = ''system_or_personal'', re_provider_id = i, re_base_url = ''u'', re_region = [],
      re_location = [], re_requires_base_url = False, re_requires_key = False, re_api_adaptation = False,
      re_discovery = True, re_anonymous = False, re_infer_audio = False, re_onboarding = [], re_auth_adapter = [],
      re_quota_adapter = [], re_risk = ''green'', re_risk_notice = [], re_docs_url = [], re_client_only = False,
      re_priority = prio, re_icon = [], re_domain = [], re_models = [], re_extensions = []\<rparr>"

definition demo_anonymous :: registry_entry where
  "demo_anonymous =
     (demo_entry ''kc'' [''kilo''] (Finite 0))
       \<lparr>re_runtime := ''openai_compatible'', re_protocol := ''openai'', re_availability := ''available'', re_anonymous := True\<rparr>"

definition demo_entries :: "registry_entry list" where
  "demo_entries = [demo_anonymous\<lparr>re_id := '' KC ''\<rparr>, demo_entry ''ac'' [] (Finite 1)]"

definition demo_base :: "registry_entry list" where
  "demo_base = [demo_entry ''ac'' [] (Finite 1), demo_anonymous]"

definition demo_overlay :: overlay where
  "demo_overlay =
     \<lparr>ov_add = [demo_entry ''me'' [] (Finite 0)],
      ov_override =
        [\<lparr>eo_id = ''kc'', eo_label = Some ''Kilo Code'', eo_description = None, eo_categories = None, eo_icon = None,
          eo_domain = None, eo_docs_url = None, eo_priority = Some (Finite 2), eo_availability = None, eo_aliases = [''KC'', ''k2''],
          eo_models = None, eo_onboarding = None, eo_extensions = []\<rparr>],
      ov_remove = ['' AC '']\<rparr>"

lemma demo_registry: "map_sum id rg_entries (new_registry demo_env demo_entries None) = Inr demo_base"
  by code_simp

lemma demo_overlaid: "\<not> isl (with_overlay demo_env demo_overlay None \<lparr>rg_entries = demo_base, rg_ids = ids, rg_names = names\<rparr>)"
  by code_simp

lemma demo_built:
  obtains r where "new_registry demo_env demo_entries None = Inr r" and "rg_entries r = demo_base"
  using demo_registry by (cases "new_registry demo_env demo_entries None") auto

lemma demo_with_overlay:
  assumes "rg_entries r = demo_base"
  obtains r' where "with_overlay demo_env demo_overlay None r = Inr r'"
proof -
  have "r = \<lparr>rg_entries = demo_base, rg_ids = rg_ids r, rg_names = rg_names r\<rparr>"
    using assms by (cases r) simp
  then have "\<not> isl (with_overlay demo_env demo_overlay None r)"
    using demo_overlaid [of "rg_ids r" "rg_names r"] by metis
  then show thesis using that by (cases "with_overlay demo_env demo_overlay None r") auto
qed

theorem registry_answers_its_names_witness:
  "\<exists>r. new_registry demo_env demo_entries None = Inr r \<and> registry_lookup r '' KILO '' = Some demo_anonymous"
proof -
  obtain r where r: "new_registry demo_env demo_entries None = Inr r" "rg_entries r = demo_base" by (rule demo_built)
  have "normalize_identifier '' KILO '' = ''kilo''" by code_simp
  then have "registry_lookup r '' KILO '' = Some demo_anonymous"
    using registry_answers_its_names [OF r(1), of "'' KILO ''" demo_anonymous] r(2)
    by (simp add: demo_base_def demo_anonymous_def demo_entry_def)
  with r(1) show ?thesis by blast
qed

theorem registry_entries_safe_witness:
  "\<exists>r. new_registry demo_env demo_entries None = Inr r \<and> demo_anonymous \<in> set (rg_entries r) \<and>
     public_https demo_env (re_base_url demo_anonymous)"
proof -
  obtain r where r: "new_registry demo_env demo_entries None = Inr r" "rg_entries r = demo_base" by (rule demo_built)
  then have e: "demo_anonymous \<in> set (rg_entries r)" by (simp add: demo_base_def)
  have "re_anonymous demo_anonymous" by (simp add: demo_anonymous_def)
  with registry_entries_safe [OF r(1) e] r(1) e show ?thesis by blast
qed

theorem overlay_keeps_core_facts_witness:
  "\<exists>r r'. new_registry demo_env demo_entries None = Inr r \<and> with_overlay demo_env demo_overlay None r = Inr r' \<and>
     registry_by_id r' '' AC '' = None"
proof -
  obtain r where r: "new_registry demo_env demo_entries None = Inr r" "rg_entries r = demo_base" by (rule demo_built)
  obtain r' where r': "with_overlay demo_env demo_overlay None r = Inr r'" by (rule demo_with_overlay [OF r(2)])
  have "'' AC '' \<in> set (ov_remove demo_overlay)" by (simp add: demo_overlay_def)
  with overlay_keeps_core_facts [OF r(1) r'] have "registry_by_id r' '' AC '' = None" by blast
  with r(1) r' show ?thesis by blast
qed

theorem registry_revalidates_witness:
  "new_registry demo_env demo_base None = new_registry demo_env demo_entries None"
proof -
  obtain r where r: "new_registry demo_env demo_entries None = Inr r" "rg_entries r = demo_base" by (rule demo_built)
  then show ?thesis using registry_revalidates [OF r(1)] by simp
qed

end
