(* ===== verification/Spec2Isabelle.thy ===== *)
theory Spec2Isabelle
  imports Loss_Policy Routing Resilience Catalog_Service Flow_Guarantees Engine Runtime_Guarantees Registry_Guarantees
begin

text \<open>
  llmgw-core is an embeddable gateway core for language-model providers, written in Go. A product
  resolves a caller's credential, plans which wire protocol a request travels on, and runs it over
  candidate providers with retries, failover and circuit breakers; around that it keeps catalogs of
  models and runs the OAuth flows that obtain credentials. This development models those parts as
  executable functions that pass their state, and proves what makes each of them correct.

  Conventions. A Go string is a byte string (\<open>string\<close>), an \<^verbatim>\<open>int\<close>, a \<^verbatim>\<open>time.Duration\<close> (nanoseconds)
  and a \<^verbatim>\<open>time.Time\<close> (nanoseconds since the zero time) are \<open>int\<close>; arithmetic that can leave 64 bits
  wraps (\<open>wrap64\<close>) or saturates (\<open>time_sub\<close>) as the code's does, and revisions are 64-bit words. An
  error is a value of \<open>go_err\<close>, a fallible operation returns a sum or an optional error, as the code
  returns it. A product's hooks, clock, context and network calls are arbitrary functions on a world
  of any type, so nothing is assumed of what they do or of what happens meanwhile. A section
  under a mutex is one step. Each loop is a total function with a measure, except the commitment of a
  stream, which may never end and is a \<open>partial_function\<close> whose value \<open>None\<close> says so.

  Theories and the code they model, in the order of their imports:

  \<^item> \<open>Prelude\<close>: strings, integers, decimal numerals, association lists; the shared lemmas.
  \<^item> \<open>Core_Types\<close>: the surfaces, operations and support values of \<^verbatim>\<open>model_capabilities.go\<close>, the
    callers of \<^verbatim>\<open>caller.go\<close>, targets and losses.
  \<^item> \<open>Provider_Errors\<close>: every error type with its classification (\<^verbatim>\<open>provider_error.go\<close>,
    \<^verbatim>\<open>provider_contracts.go\<close>, \<^verbatim>\<open>invoke.go\<close>); \<open>classify_error\<close> walks the unwrap chain as \<^verbatim>\<open>errors.As\<close>
    does.
  \<^item> \<open>Health\<close>: the circuit breaker per key of \<^verbatim>\<open>execution/health.go\<close>; its invariant over reachable
    states, when a circuit opens and closes.
  \<^item> \<open>Loss_Policy\<close>: \<^verbatim>\<open>loss_policy.go\<close>; the path globs against a reference matcher.
  \<^item> \<open>Capabilities\<close>: the typed capability record and its inference (\<^verbatim>\<open>model_capabilities.go\<close>,
    \<^verbatim>\<open>capabilities_infer.go\<close>).
  \<^item> \<open>Credentials\<close>: credentials, what prints of them, and their resolution (\<^verbatim>\<open>interfaces.go\<close>,
    \<^verbatim>\<open>credential_store.go\<close>), refined by a history of bindings.
  \<^item> \<open>Transport\<close>: requests, decorator chains and transport plans (\<^verbatim>\<open>invoke.go\<close>,
    \<^verbatim>\<open>wire_preserving.go\<close>, \<^verbatim>\<open>transport_plan.go\<close>, \<^verbatim>\<open>transport_evidence.go\<close>, \<^verbatim>\<open>transport_labels.go\<close>).
  \<^item> \<open>Routing\<close>: \<^verbatim>\<open>router/router.go\<close>; its breaker is shown equivalent to the health tracker.
  \<^item> \<open>Execution\<close>: \<^verbatim>\<open>execution/execute.go\<close>; the trace, the order, the retries and the records of a run.
  \<^item> \<open>Streaming\<close>: \<^verbatim>\<open>execution/stream.go\<close>; when a stream commits and what the reader then sees.
  \<^item> \<open>Resilience\<close>: \<^verbatim>\<open>execution/resilient*.go\<close>; the guard around a provider and which requests repeat.
  \<^item> \<open>Catalog_Store\<close>: \<^verbatim>\<open>catalog_store.go\<close>; the store interfaces as locales, interpreted on the memory
    store.
  \<^item> \<open>Catalog_Service\<close>: \<^verbatim>\<open>catalog/*.go\<close>; freshness, fencing and diagnostics of catalog reads.
  \<^item> \<open>Flow_Store\<close>, \<open>Flow_Safety\<close>: \<^verbatim>\<open>oauthflow/flow.go\<close> and \<^verbatim>\<open>oauthflow/memory.go\<close>; runs of the store,
    the locale \<open>single_use\<close> interpreted on them, and its guarantees.
  \<^item> \<open>Flow_Service\<close>, \<open>Flow_Guarantees\<close>: \<^verbatim>\<open>oauthflow/start.go\<close>, \<^verbatim>\<open>poll.go\<close>, \<^verbatim>\<open>complete.go\<close> and
    \<^verbatim>\<open>view.go\<close>; the service over any store that meets the locale \<open>flow_backend\<close>, interpreted on the
    memory store, and what holds end to end.
\<close>

end
